(* ===== verification/Prelude.thy ===== *)
theory Prelude
  imports Complex_Main
    "HOL-Library.AList"
    "HOL-Library.Char_ord"
    "HOL-Library.List_Lexorder"
    "HOL-Library.Product_Lexorder"
    "HOL-Library.Multiset"
begin

text \<open>
  Shared vocabulary of the development: Python values the modelled code relies on (insertion
  ordered dictionaries, floats with \<open>inf\<close>, optional strings and their truth value, the
  \<open>statistics\<close> functions), errors, and the list and sorting lemmas every component uses.

  Floats are modelled by exact real numbers. Where the code can meet \<open>inf\<close> (the cost key of
  a model without a recorded cost) the type \<open>xreal\<close> adds it; where it can meet \<open>nan\<close> (values
  returned by plug-ins) the type \<open>pyfloat\<close> adds that too. Rounding of floats is not modelled.
\<close>

named_theorems dict_simps \<open>lookups and key lists of insertion ordered dictionaries\<close>

named_theorems sort_facts \<open>stable sorting by a key and cutting the sorted list\<close>

section \<open>Errors\<close>

text \<open>The exceptions the modelled code raises; message texts are left out.\<close>

datatype py_error = ValueError | KeyError | RuntimeError | OverflowError | IndexError | DatabaseError
  | TypeError | AttributeError | FileNotFoundError

type_synonym 'a result = "py_error + 'a"

text \<open>A list comprehension whose body may raise: the first exception ends it.\<close>

fun map_result :: "('a \<Rightarrow> 'b result) \<Rightarrow> 'a list \<Rightarrow> 'b list result" where
  "map_result f [] = Inr []"
| "map_result f (x # xs) = (case f x of Inl e \<Rightarrow> Inl e
     | Inr y \<Rightarrow> (case map_result f xs of Inl e \<Rightarrow> Inl e | Inr ys \<Rightarrow> Inr (y # ys)))"

lemma map_result_Inr:
  "map_result f xs = Inr ys \<longleftrightarrow> list_all2 (\<lambda>x y. f x = Inr y) xs ys"
proof (induction xs arbitrary: ys)
  case (Cons x xs)
  then show ?case by (cases ys; cases "f x"; cases "map_result f xs") auto
qed auto

lemma map_result_total:
  assumes "\<And>x. x \<in> set xs \<Longrightarrow> f x = Inr (g x)"
  shows "map_result f xs = Inr (map g xs)"
  using assms by (induction xs) simp_all

section \<open>Dictionaries\<close>

text \<open>
  A Python dict keeps insertion order, and assigning to a present key keeps its position:
  \<^const>\<open>AList.update\<close> on an association list does the same.
\<close>

type_synonym ('k, 'v) dict = "('k \<times> 'v) list"

definition dict_ok :: "('k, 'v) dict \<Rightarrow> bool" where
  "dict_ok d \<longleftrightarrow> distinct (map fst d)"

definition dget :: "('k, 'v) dict \<Rightarrow> 'k \<Rightarrow> 'v \<Rightarrow> 'v" where
  "dget d k v = (case map_of d k of None \<Rightarrow> v | Some w \<Rightarrow> w)"

abbreviation dset :: "'k \<Rightarrow> 'v \<Rightarrow> ('k, 'v) dict \<Rightarrow> ('k, 'v) dict" where
  "dset \<equiv> AList.update"

text \<open>\<open>d.setdefault(k, []).append(v)\<close> and its numeric counterpart.\<close>

definition dappend :: "'k \<Rightarrow> 'v \<Rightarrow> ('k, 'v list) dict \<Rightarrow> ('k, 'v list) dict" where
  "dappend k v d = dset k (dget d k [] @ [v]) d"

definition dadd :: "'k \<Rightarrow> 'v::comm_monoid_add \<Rightarrow> ('k, 'v) dict \<Rightarrow> ('k, 'v) dict" where
  "dadd k v d = dset k (dget d k 0 + v) d"

lemma dict_ok_Nil [simp]: "dict_ok []"
  by (simp add: dict_ok_def)

lemma dict_ok_Cons [simp]: "dict_ok (x # d) \<longleftrightarrow> fst x \<notin> fst ` set d \<and> dict_ok d"
  by (simp add: dict_ok_def)

lemma dict_ok_dset [simp, intro]: "dict_ok d \<Longrightarrow> dict_ok (dset k v d)"
  by (simp add: dict_ok_def distinct_update)

lemma dict_ok_filter [simp, intro]: "dict_ok d \<Longrightarrow> dict_ok (filter P d)"
  by (auto simp: dict_ok_def intro: distinct_map_filter)

lemma map_of_dset [simp, dict_simps]: "map_of (dset k v d) = (map_of d)(k \<mapsto> v)"
  by (rule update_conv')

lemma dget_Nil [simp]: "dget [] k v = v"
  by (simp add: dget_def)

lemma dget_dset [dict_simps]: "dget (dset k v d) j x = (if j = k then v else dget d j x)"
  by (simp add: dget_def)

lemma dget_in: "dict_ok d \<Longrightarrow> (k, v) \<in> set d \<Longrightarrow> dget d k x = v"
  by (simp add: dget_def dict_ok_def)

lemma keys_dset [dict_simps]: "fst ` set (dset k v d) = insert k (fst ` set d)"
  by (simp add: dom_update)

lemma dget_dadd [dict_simps]: "dget (dadd k v d) j 0 = (if j = k then dget d k 0 + v else dget d j 0)"
  by (simp add: dadd_def dget_dset)

lemma dget_dappend [dict_simps]:
  "dget (dappend k v d) j [] = (if j = k then dget d k [] @ [v] else dget d j [])"
  by (simp add: dappend_def dget_dset)

lemma dict_ok_dadd [simp, intro]: "dict_ok d \<Longrightarrow> dict_ok (dadd k v d)"
  by (auto simp: dadd_def)

lemma dict_ok_dappend [simp, intro]: "dict_ok d \<Longrightarrow> dict_ok (dappend k v d)"
  by (auto simp: dappend_def)

lemma in_keysI [intro]: "(k, v) \<in> set d \<Longrightarrow> k \<in> fst ` set d"
  by force

lemma in_keys_iff: "k \<in> fst ` set d \<longleftrightarrow> (\<exists>v. map_of d k = Some v)"
  by (metis map_of_eq_None_iff not_None_eq)

lemma map_of_filter_keys [dict_simps]:
  "map_of (filter (\<lambda>kv. P (fst kv)) d) k = (if P k then map_of d k else None)"
  by (induction d) auto

lemma map_of_Some_filter:
  assumes "dict_ok d"
  shows "map_of (filter P d) k = (case map_of d k of None \<Rightarrow> None
           | Some v \<Rightarrow> if P (k, v) then Some v else None)"
  using assms
proof (induction d)
  case Nil
  then show ?case by simp
next
  case (Cons x d)
  then have "map_of d (fst x) = None" by (simp add: map_of_eq_None_iff)
  with Cons show ?case by (cases x) (auto split: option.splits)
qed

lemma in_filtered_keys:
  "dict_ok d \<Longrightarrow> (k, v) \<in> set d \<Longrightarrow> k \<in> fst ` set (filter P d) \<longleftrightarrow> P (k, v)"
  unfolding dict_ok_def by (force dest: eq_key_imp_eq_value)

lemma filter_dropped_keys:
  assumes "dict_ok d"
  shows "filter (\<lambda>(k, v). k \<notin> set (map fst (filter P d))) d = filter (\<lambda>kv. \<not> P kv) d"
proof (rule filter_cong [OF refl])
  fix x assume "x \<in> set d"
  with in_filtered_keys [OF assms, of "fst x" "snd x" P]
  show "(case x of (k, v) \<Rightarrow> k \<notin> set (map fst (filter P d))) = (\<not> P x)"
    by (cases x) simp
qed

lemma sum_dadd: "sum_list (map snd (dadd k v d)) = sum_list (map snd d) + (v :: real)"
proof -
  have "sum_list (map snd (dset k w d)) = sum_list (map snd d) + (w - dget d k 0)" for w :: real
    by (induction d) (auto simp: dget_def split: option.splits)
  then show ?thesis by (simp add: dadd_def)
qed

section \<open>Truth values and missing values\<close>

text \<open>\<open>if s:\<close> on an optional string: neither \<open>None\<close> nor empty.\<close>

definition truthy :: "string option \<Rightarrow> bool" where
  "truthy s = (case s of None \<Rightarrow> False | Some t \<Rightarrow> t \<noteq> [])"

text \<open>\<open>x or 0\<close> on an optional number.\<close>

definition or0 :: "'a::zero option \<Rightarrow> 'a" where
  "or0 x = (case x of None \<Rightarrow> 0 | Some v \<Rightarrow> v)"

lemma truthy_simps [simp]: "\<not> truthy None" "truthy (Some s) \<longleftrightarrow> s \<noteq> []"
  by (simp_all add: truthy_def)

lemma or0_simps [simp]: "or0 None = 0" "or0 (Some v) = v"
  by (simp_all add: or0_def)

section \<open>Floats with infinity, and with nan\<close>

datatype xreal = Fin real | PInf

instantiation xreal :: linorder
begin

fun less_eq_xreal :: "xreal \<Rightarrow> xreal \<Rightarrow> bool" where
  "less_eq_xreal (Fin a) (Fin b) = (a \<le> b)"
| "less_eq_xreal (Fin a) PInf = True"
| "less_eq_xreal PInf (Fin b) = False"
| "less_eq_xreal PInf PInf = True"

definition less_xreal :: "xreal \<Rightarrow> xreal \<Rightarrow> bool" where
  "less_xreal x y \<longleftrightarrow> x \<le> y \<and> \<not> y \<le> x"

instance
proof
  fix x y z :: xreal
  show "x < y \<longleftrightarrow> x \<le> y \<and> \<not> y \<le> x" by (rule less_xreal_def)
  show "x \<le> x" by (cases x) simp_all
  show "x \<le> y \<Longrightarrow> y \<le> z \<Longrightarrow> x \<le> z" by (cases x; cases y; cases z) simp_all
  show "x \<le> y \<Longrightarrow> y \<le> x \<Longrightarrow> x = y" by (cases x; cases y) simp_all
  show "x \<le> y \<or> y \<le> x" by (cases x; cases y) auto
qed

end

lemma xreal_less_simps [simp]:
  "Fin a < Fin b \<longleftrightarrow> a < b" "Fin a < PInf" "\<not> PInf < x"
  by (cases x; auto simp: less_xreal_def)+

lemma xreal_le_PInf [simp]: "x \<le> PInf" "PInf \<le> Fin a \<longleftrightarrow> False"
  by (cases x; simp)+

text \<open>\<open>inf * t\<close> for a positive \<open>t\<close> is \<open>inf\<close>.\<close>

fun xscale :: "xreal \<Rightarrow> real \<Rightarrow> xreal" where
  "xscale (Fin c) t = Fin (c * t)"
| "xscale PInf t = PInf"

datatype pyfloat = Num real | PlusInf | MinusInf | NaN

section \<open>The statistics module\<close>

definition fmean :: "real list \<Rightarrow> real" where
  "fmean xs = sum_list xs / real (length xs)"

definition median :: "real list \<Rightarrow> real" where
  "median xs = (let s = sort xs; n = length s in
     if odd n then s ! (n div 2) else (s ! (n div 2 - 1) + s ! (n div 2)) / 2)"

definition pvariance :: "real list \<Rightarrow> real" where
  "pvariance xs = fmean (map (\<lambda>x. (x - fmean xs)\<^sup>2) xs)"

definition pstdev :: "real list \<Rightarrow> real" where
  "pstdev xs = sqrt (pvariance xs)"

lemma sum_list_bounds:
  assumes "\<And>x. x \<in> set xs \<Longrightarrow> lo \<le> x \<and> x \<le> (hi::real)"
  shows "lo * length xs \<le> sum_list xs \<and> sum_list xs \<le> hi * length xs"
  using assms by (induction xs) (force simp: algebra_simps)+

lemma fmean_bounds:
  assumes "xs \<noteq> []" "\<And>x. x \<in> set xs \<Longrightarrow> lo \<le> x \<and> x \<le> hi"
  shows "lo \<le> fmean xs \<and> fmean xs \<le> hi"
proof -
  from assms(1) have "0 < real (length xs)" by simp
  with sum_list_bounds [of xs lo hi] assms(2) show ?thesis
    by (auto simp: fmean_def pos_le_divide_eq pos_divide_le_eq)
qed

lemma fmean_mset_cong: "mset xs = mset ys \<Longrightarrow> fmean xs = fmean ys"
  by (metis fmean_def mset_eq_length sum_mset_sum_list)

lemma median_between:
  assumes "xs \<noteq> []" "\<And>x. x \<in> set xs \<Longrightarrow> lo \<le> x \<and> x \<le> (hi::real)"
  shows "lo \<le> median xs \<and> median xs \<le> hi"
proof -
  have nth: "lo \<le> sort xs ! i \<and> sort xs ! i \<le> hi" if "i < length xs" for i
  proof -
    from that have "sort xs ! i \<in> set (sort xs)" by (intro nth_mem) simp
    with assms(2) show ?thesis by simp
  qed
  from assms(1) have n: "0 < length xs" by simp
  show ?thesis
  proof (cases "odd (length xs)")
    case True
    with n nth [of "length xs div 2"] show ?thesis by (simp add: median_def Let_def)
  next
    case False
    moreover have "length xs div 2 - 1 < length xs" "length xs div 2 < length xs" using n by linarith+
    ultimately show ?thesis using nth [of "length xs div 2"] nth [of "length xs div 2 - 1"]
      by (simp add: median_def Let_def)
  qed
qed

lemma median_mset_cong: "mset xs = mset ys \<Longrightarrow> median xs = median ys"
  by (metis median_def mset_sort properties_for_sort sorted_sort)

lemma pvariance_nonneg: "0 \<le> pvariance xs"
proof -
  have "0 \<le> sum_list (map (\<lambda>x. (x - fmean xs)\<^sup>2) xs)" by (rule sum_list_nonneg) auto
  then show ?thesis unfolding pvariance_def fmean_def by simp
qed

lemma pstdev_nonneg [simp]: "0 \<le> pstdev xs"
  by (simp add: pstdev_def pvariance_nonneg)

section \<open>Sorting by a key\<close>

text \<open>
  \<open>sorted(xs, key=f)\<close> is stable, and so is \<^const>\<open>sort_key\<close>. The head of the result has a
  least key, and the elements cut off by \<open>[:n]\<close> have keys no smaller than those kept.
\<close>

lemma sort_key_Nil_iff [simp]: "sort_key f xs = [] \<longleftrightarrow> xs = []"
  by (metis length_0_conv length_sort)

lemma hd_sort_key_least [sort_facts]:
  assumes "x \<in> set xs" shows "f (hd (sort_key f xs)) \<le> f x"
proof -
  have "sorted (map f (sort_key f xs))" by simp
  moreover have "x \<in> set (sort_key f xs)" using assms by simp
  ultimately show ?thesis by (cases "sort_key f xs") auto
qed

lemma hd_sort_key_in [sort_facts]: "xs \<noteq> [] \<Longrightarrow> hd (sort_key f xs) \<in> set xs"
  by (metis hd_in_set set_sort sort_key_Nil_iff)

lemma set_take_sort_key [sort_facts]: "set (take n (sort_key f xs)) \<subseteq> set xs"
  by (metis set_sort set_take_subset)

lemma take_sort_key_least [sort_facts]:
  assumes "x \<in> set (take n (sort_key f xs))" "y \<in> set (drop n (sort_key f xs))"
  shows "f x \<le> f y"
proof -
  have "sorted (map f (take n (sort_key f xs) @ drop n (sort_key f xs)))"
    by (simp only: append_take_drop_id sorted_sort_key)
  then have "\<forall>a \<in> f ` set (take n (sort_key f xs)). \<forall>b \<in> f ` set (drop n (sort_key f xs)). a \<le> b"
    by (simp only: map_append sorted_append set_map) blast
  with assms show ?thesis by blast
qed

text \<open>
  A key that tells all elements apart makes the sorted list, and so every choice taken from it,
  a function of the elements alone: neither the order of the input nor an earlier shuffle can
  show in the result.
\<close>

locale injective_key =
  fixes key :: "'a \<Rightarrow> 'k::linorder"
  assumes key_inj: "key x = key y \<Longrightarrow> x = y"
begin

lemma sort_order_independent:
  assumes "mset xs = mset ys"
  shows "sort_key key xs = sort_key key ys"
proof (rule properties_for_sort_key)
  show "mset (sort_key key ys) = mset xs" using assms by simp
  show "sorted (map key (sort_key key ys))" by simp
  fix k
  assume "k \<in> set (sort_key key ys)"
  have eq: "filter (\<lambda>x. key k = key x) zs = replicate (count (mset zs) k) k" for zs :: "'a list"
    by (induction zs) (auto dest: key_inj)
  show "filter (\<lambda>x. key k = key x) (sort_key key ys) = filter (\<lambda>x. key k = key x) xs"
    by (simp add: eq assms)
qed

lemma head_unique:
  assumes "xs \<noteq> []" "z \<in> set xs" "\<And>x. x \<in> set xs \<Longrightarrow> key z \<le> key x"
  shows "hd (sort_key key xs) = z"
proof -
  have "key (hd (sort_key key xs)) \<le> key z" using assms(2) by (rule hd_sort_key_least)
  moreover have "key z \<le> key (hd (sort_key key xs))" using assms by (intro assms(3) hd_sort_key_in)
  ultimately show ?thesis by (intro key_inj) simp
qed

lemma strictly_before:
  assumes "distinct xs" "x \<in> set (take n (sort_key key xs))" "y \<in> set xs"
    "y \<notin> set (take n (sort_key key xs))"
  shows "key x < key y"
proof -
  have "y \<in> set (take n (sort_key key xs) @ drop n (sort_key key xs))" using assms(3) by simp
  with assms(4) have "y \<in> set (drop n (sort_key key xs))" by (auto simp del: append_take_drop_id)
  with assms(2) have "key x \<le> key y" by (rule take_sort_key_least)
  moreover have "key x \<noteq> key y" using assms key_inj by auto
  ultimately show ?thesis by simp
qed

text \<open>An element is among the first \<open>n\<close> exactly if fewer than \<open>n\<close> others precede it.\<close>

lemma mem_take_iff:
  assumes "distinct xs"
  shows "x \<in> set (take n (sort_key key xs)) \<longleftrightarrow>
    x \<in> set xs \<and> card {y \<in> set xs. key y < key x} < n"
proof (cases "x \<in> set xs")
  case True
  let ?s = "sort_key key xs"
  from True obtain i where i: "i < length ?s" "?s ! i = x" by (metis in_set_conv_nth set_sort)
  have d: "distinct ?s" using assms by simp
  have less: "key (?s ! j) < key x \<longleftrightarrow> j < i" if "j < length ?s" for j
  proof -
    have "key (?s ! a) \<le> key (?s ! b)" if "a \<le> b" "b < length ?s" for a b
      using sorted_nth_mono [of "map key ?s" a b] that by simp
    note mono = this
    have "key (?s ! j) \<noteq> key x" if "j \<noteq> i"
      using key_inj i d that \<open>j < length ?s\<close> nth_eq_iff_index_eq [OF d \<open>j < length ?s\<close> i(1)] by auto
    then show ?thesis using mono [of j i] mono [of i j] i that by fastforce
  qed
  have "{y \<in> set xs. key y < key x} = (!) ?s ` {..<i}"
  proof -
    have "set xs = (!) ?s ` {..<length ?s}"
      unfolding set_sort [of key xs, symmetric] set_conv_nth [of ?s] by auto
    then show ?thesis using less i(1) by auto
  qed
  moreover have "inj_on ((!) ?s) {..<i}" using d i(1) by (simp add: inj_on_nth)
  ultimately have "card {y \<in> set xs. key y < key x} = i" by (simp add: card_image)
  moreover have "x \<in> set (take n ?s) \<longleftrightarrow> i < n"
    using i d by (auto simp: in_set_conv_nth nth_eq_iff_index_eq)
  ultimately show ?thesis using True by simp
next
  case False
  then show ?thesis using set_take_sort_key [of n key xs] by blast
qed

end

text \<open>Sorting by a function of the image commutes with the map.\<close>

lemma map_sort_key [sort_facts]:
  assumes "\<And>x. x \<in> set xs \<Longrightarrow> f x = k (h x)"
  shows "map h (sort_key f xs) = sort_key k (map h xs)"
proof -
  have ins: "map h (insort_key f x ys) = insort_key k (h x) (map h ys)"
    if "\<And>y. y \<in> set (x # ys) \<Longrightarrow> f y = k (h y)" for x ys
    using that by (induction ys) auto
  show ?thesis using assms
  proof (induction xs)
    case (Cons a xs)
    then have "map h (insort_key f a (sort_key f xs)) = insort_key k (h a) (map h (sort_key f xs))"
      by (intro ins) simp
    with Cons show ?case by simp
  qed simp
qed

section \<open>Grouping\<close>

text \<open>
  The loops build dictionaries of nonempty lists; what is stored under a key is the sublist of the
  rows with that key, in row order.
\<close>

definition groups_ok :: "('k, 'v list) dict \<Rightarrow> bool" where
  "groups_ok d \<longleftrightarrow> dict_ok d \<and> (\<forall>k. map_of d k \<noteq> Some [])"

lemma groups_ok_Nil [simp]: "groups_ok []"
  by (simp add: groups_ok_def)

lemma groups_ok_dappend [simp]: "groups_ok d \<Longrightarrow> groups_ok (dappend k v d)"
  by (auto simp: groups_ok_def dappend_def dict_simps)

lemma groups_ok_fold:
  "(\<And>x d. groups_ok d \<Longrightarrow> groups_ok (f x d)) \<Longrightarrow> groups_ok d \<Longrightarrow> groups_ok (fold f xs d)"
  by (induction xs arbitrary: d) auto

lemma map_of_groups:
  "groups_ok d \<Longrightarrow> map_of d k = (if dget d k [] = [] then None else Some (dget d k []))"
  by (auto simp: groups_ok_def dget_def split: option.splits)

lemma dget_fold_dappend:
  "dget (fold (\<lambda>x. dappend (k x) (v x)) xs d) j [] = dget d j [] @ map v (filter (\<lambda>x. k x = j) xs)"
  by (induction xs arbitrary: d) (auto simp: dict_simps)

lemma map_of_map_values: "map_of (map (\<lambda>kv. (fst kv, f (snd kv))) d) k = map_option f (map_of d k)"
  by (induction d) auto

lemma map_of_map_key_values:
  "map_of (map (\<lambda>kv. (fst kv, f (fst kv) (snd kv))) d) k = map_option (f k) (map_of d k)"
  by (induction d) auto

lemma keys_map_values: "map fst (map (\<lambda>kv. (fst kv, f (snd kv))) d) = map fst d"
  by simp

section \<open>Strings\<close>

text \<open>\<open>sub in s\<close>, and \<open>s.lower()\<close> on ASCII letters.\<close>

fun str_in :: "string \<Rightarrow> string \<Rightarrow> bool" where
  "str_in sub [] = (sub = [])"
| "str_in sub (c # cs) = (take (length sub) (c # cs) = sub \<or> str_in sub cs)"

definition lower_char :: "char \<Rightarrow> char" where
  "lower_char c = (let n = of_char c :: nat in
     if 65 \<le> n \<and> n \<le> 90 then char_of (n + 32) else c)"

definition lower :: "string \<Rightarrow> string" where
  "lower s = map lower_char s"

lemma str_in_iff: "str_in sub s \<longleftrightarrow> (\<exists>pre post. s = pre @ sub @ post)"
proof (induction s)
  case Nil
  then show ?case by simp
next
  case (Cons c s)
  have "(\<exists>pre post. c # s = pre @ sub @ post) \<longleftrightarrow>
      (\<exists>post. c # s = sub @ post) \<or> (\<exists>pre post. s = pre @ sub @ post)"
    by (metis append_Cons append_Nil list.exhaust list.inject)
  moreover have "(\<exists>post. c # s = sub @ post) \<longleftrightarrow> take (length sub) (c # s) = sub"
    by (metis append_eq_conv_conj append_take_drop_id)
  ultimately show ?case using Cons.IH by simp
qed

text \<open>Searching and lowering a literal by rewriting.\<close>

fun starts :: "string \<Rightarrow> string \<Rightarrow> bool" where
  "starts [] s = True"
| "starts (c # cs) [] = False"
| "starts (c # cs) (d # ds) = (c = d \<and> starts cs ds)"

lemma take_starts: "take (length sub) s = sub \<longleftrightarrow> starts sub s"
  by (induction sub s rule: starts.induct) auto

lemma str_in_starts:
  "str_in sub [] \<longleftrightarrow> sub = []" "str_in sub (c # cs) \<longleftrightarrow> starts sub (c # cs) \<or> str_in sub cs"
  by (simp_all only: str_in.simps take_starts)

lemma lower_simps:
  "lower [] = []" "lower (c # cs) = lower_char c # lower cs" "lower (s @ t) = lower s @ lower t"
  by (simp_all add: lower_def)

end
