(* ===== verification/Core_Types.thy ===== *)
theory Core_Types
  imports Prelude
begin

text \<open>
  The dataclasses of \<open>core/types.py\<close> and \<open>stage/base.py\<close>: task units, stages and the context a
  pipeline threads through them, result rows, cached responses and winner sets. Field names carry
  a short prefix because Isabelle record fields are global names. Values of type \<open>Any\<close> are
  \<open>json\<close>; what a stage's parser returns is the type parameter \<open>'p\<close>. The consumer's callables
  (prompt builder, parser) are functions in the stage record, and raise by returning \<open>Inl\<close>.
\<close>

datatype json = JNull | JBool bool | JNum real | JStr string | JArr "json list"
  | JObj "(string \<times> json) list"

text \<open>The truth value of such a value.\<close>

fun json_truthy :: "json \<Rightarrow> bool" where
  "json_truthy JNull = False"
| "json_truthy (JBool b) = b"
| "json_truthy (JNum r) = (r \<noteq> 0)"
| "json_truthy (JStr s) = (s \<noteq> [])"
| "json_truthy (JArr xs) = (xs \<noteq> [])"
| "json_truthy (JObj kvs) = (kvs \<noteq> [])"

text \<open>An exception object as the code sees it: \<open>type(e).__name__\<close> and \<open>str(e)\<close>.\<close>

datatype pyexn = PyExn (exc_name: string) (exc_text: string)

record task_unit =
  tu_id :: string
  tu_metadata :: "(string, json) dict"
  tu_stratum :: "string option"

record 'p stage_context =
  cx_task_unit :: task_unit
  cx_outputs :: "(string, 'p option) dict"
  cx_parent_prompt_hashes :: "(string, string) dict"
  cx_response_texts :: "(string, string) dict"
  cx_quarantined :: bool

text \<open>
  A value of \<open>generate_kwargs\<close> is plain or a callable resolved per call from the model and the
  two prompts. A prompt builder returns the pair of prompts, or (\<open>Inr None\<close>) something that is
  not a tuple of two.
\<close>

datatype kwval = KVal json | KCall "string \<Rightarrow> string \<Rightarrow> string \<Rightarrow> json"

record 'p stage =
  sg_id :: string
  sg_op :: string
  sg_prompt_builder ::
    "task_unit \<Rightarrow> 'p stage_context \<Rightarrow> string option \<Rightarrow> pyexn + (string \<times> string) option"
  sg_parser :: "task_unit \<Rightarrow> string \<Rightarrow> int \<Rightarrow> int \<Rightarrow> pyexn + 'p option"
  sg_parent_stage :: "string option"
  sg_is_validator :: bool
  sg_lang :: "string option"
  sg_budget_per_call :: real
  sg_json_schema :: "json option"
  sg_generate_kwargs :: "(string, kwval) dict"

type_synonym cache_key = "string \<times> string \<times> string \<times> string"

definition make_cache_key :: "string \<Rightarrow> string \<Rightarrow> string \<Rightarrow> string \<Rightarrow> cache_key" where
  "make_cache_key composite_hash provider model thinking =
     (composite_hash, provider, model, thinking)"

record cached_response =
  cr_composite_hash :: string
  cr_response :: string
  cr_input_tokens :: int
  cr_output_tokens :: int
  cr_reasoning_tokens :: int
  cr_cost_usd :: real
  cr_thinking :: string
  cr_source_tag :: "string option"

text \<open>
  A row of the results table. Timestamps are microseconds since a fixed epoch; \<open>None\<close> until a
  backend stamps the row.
\<close>

record run_row =
  rr_composite_hash :: string
  rr_provider :: string
  rr_model :: string
  rr_thinking :: string
  rr_stage :: string
  rr_task_unit_id :: string
  rr_stratum :: "string option"
  rr_lang :: "string option"
  rr_parent_prompt_hash :: "string option"
  rr_experiment_tag :: string
  rr_response :: "string option"
  rr_error_class :: "string option"
  rr_error_message :: "string option"
  rr_cost_usd :: "real option"
  rr_effective_cost_usd :: "real option"
  rr_input_tokens :: "int option"
  rr_output_tokens :: "int option"
  rr_reasoning_tokens :: "int option"
  rr_cache_hit_tokens :: "int option"
  rr_cache_write_tokens :: "int option"
  rr_cache_discount_usd :: "real option"
  rr_is_byok :: "bool option"
  rr_web_search_citations :: "json option"
  rr_upstream_resolved_model :: "string option"
  rr_upstream_provider :: "string option"
  rr_upstream_model :: "string option"
  rr_native_finish_reason :: "string option"
  rr_generation_id :: "string option"
  rr_mean_attempt_duration_sec :: "real option"
  rr_n_attempts :: "int option"
  rr_http_status_sequence :: "int list option"
  rr_per_attempt_durations_sec :: "real list option"
  rr_logs :: "string option"
  rr_logs_compressed :: "string option"
  rr_parse_failure_prefix :: "string option"
  rr_generation_details :: "(string, json) dict"
  rr_ts :: "int option"

definition row_cache_key :: "run_row \<Rightarrow> cache_key" where
  "row_cache_key r = make_cache_key (rr_composite_hash r) (rr_provider r) (rr_model r) (rr_thinking r)"

lemma row_cache_key_ts [simp]: "row_cache_key (r\<lparr>rr_ts := t\<rparr>) = row_cache_key r"
  by (simp add: row_cache_key_def)

record winner_set =
  ws_experiment_tag :: string
  ws_round_idx :: int
  ws_winners :: "(string, string) dict"
  ws_candidates_out :: "string list"
  ws_stage_scores :: "(string, real) dict"
  ws_runner_up :: "(string, string option) dict"

definition ws_get :: "winner_set \<Rightarrow> string \<Rightarrow> string option" where
  "ws_get w stage = map_of (ws_winners w) stage"

text \<open>
  \<open>_EXPERIMENT_TAG_RE.fullmatch\<close> for \<open>^[A-Za-z0-9_.-]{1,200}$\<close>: every character in the class, and a
  length from 1 to 200.
\<close>

definition tag_char :: "char \<Rightarrow> bool" where
  "tag_char c = (let n = of_char c :: nat in
     (65 \<le> n \<and> n \<le> 90) \<or> (97 \<le> n \<and> n \<le> 122) \<or> (48 \<le> n \<and> n \<le> 57)
     \<or> c = CHR ''_'' \<or> c = CHR ''.'' \<or> c = CHR ''-'')"

definition tag_matches :: "string \<Rightarrow> bool" where
  "tag_matches t \<longleftrightarrow> list_all tag_char t \<and> 1 \<le> length t \<and> length t \<le> 200"

definition validate_experiment_tag :: "string \<Rightarrow> string result" where
  "validate_experiment_tag tag = (if \<not> tag_matches tag then Inl ValueError else Inr tag)"

lemma validate_experiment_tag_Inr:
  "validate_experiment_tag t = Inr u \<longleftrightarrow> u = t \<and> tag_matches t"
  by (auto simp: validate_experiment_tag_def)

lemma tag_char_simps [simp]:
  "\<not> tag_char (CHR ''/'')" "\<not> tag_char (CHR 0x5C)" "\<not> tag_char (CHR 0x00)" "tag_char (CHR ''.'')"
  by (simp_all add: tag_char_def)

lemma tag_matches_safe_chars:
  assumes "tag_matches t"
  shows "CHR ''/'' \<notin> set t" "CHR 0x5C \<notin> set t" "CHR 0x00 \<notin> set t"
  using assms by (auto simp: tag_matches_def list_all_iff)

text \<open>Rows the concrete examples of the development are about: a cacheable one and a failed one.\<close>

definition sample_row :: "string \<Rightarrow> string option \<Rightarrow> string option \<Rightarrow> run_row" where
  "sample_row tag response error_class =
     \<lparr>rr_composite_hash = ''h'', rr_provider = ''p'', rr_model = ''m'', rr_thinking = [], rr_stage = ''s'',
      rr_task_unit_id = ''u'', rr_stratum = None, rr_lang = None, rr_parent_prompt_hash = None,
      rr_experiment_tag = tag, rr_response = response, rr_error_class = error_class, rr_error_message = None,
      rr_cost_usd = Some 1, rr_effective_cost_usd = Some 1, rr_input_tokens = None, rr_output_tokens = None,
      rr_reasoning_tokens = None, rr_cache_hit_tokens = None, rr_cache_write_tokens = None,
      rr_cache_discount_usd = None, rr_is_byok = None, rr_web_search_citations = None,
      rr_upstream_resolved_model = None, rr_upstream_provider = None, rr_upstream_model = None,
      rr_native_finish_reason = None, rr_generation_id = None, rr_mean_attempt_duration_sec = None,
      rr_n_attempts = None, rr_http_status_sequence = None, rr_per_attempt_durations_sec = None,
      rr_logs = None, rr_logs_compressed = None, rr_parse_failure_prefix = None, rr_generation_details = [],
      rr_ts = None\<rparr>"

definition good_row :: "string \<Rightarrow> run_row" where
  "good_row tag = sample_row tag (Some (replicate 20 (CHR ''x''))) None"

definition failed_row :: "string \<Rightarrow> run_row" where
  "failed_row tag = sample_row tag None (Some ''RateLimited'')"

end
