(* ===== verification/Stage_Graph.thy ===== *)
theory Stage_Graph
  imports Core_Types
begin

text \<open>
  \<open>StageGraph\<close> of \<open>core/types.py\<close>: the depth first visit behind \<open>topo_order\<close>, the checks of
  \<open>__post_init__\<close> and the lookup \<open>by_id\<close>. The visit carries the path it came by (\<open>stack\<close>) and the
  pair of the output list and the set of ids already placed; raising is \<open>Inl\<close>.
\<close>

definition stage_ids :: "'p stage list \<Rightarrow> string list" where
  "stage_ids stages = map sg_id stages"

definition stages_by_id :: "'p stage list \<Rightarrow> (string, 'p stage) dict" where
  "stages_by_id stages = fold (\<lambda>s d. dset (sg_id s) s d) stages []"

function visit :: "(string, 'p stage) dict \<Rightarrow> string \<Rightarrow> string list \<Rightarrow> 'p stage list \<times> string set
    \<Rightarrow> ('p stage list \<times> string set) result" where
  "visit by_id sid stack (out, seen) =
     (if sid \<in> seen then Inr (out, seen)
      else if sid \<in> set stack then Inl ValueError
      else case map_of by_id sid of
        None \<Rightarrow> Inl KeyError
      | Some s \<Rightarrow>
          (case sg_parent_stage s of
             None \<Rightarrow> Inr (out @ [s], insert sid seen)
           | Some p \<Rightarrow>
               (case visit by_id p (stack @ [sid]) (out, seen) of
                  Inl e \<Rightarrow> Inl e
                | Inr (out', seen') \<Rightarrow> Inr (out' @ [s], insert sid seen'))))"
  by pat_completeness auto
termination
proof (relation "measure (\<lambda>(by_id, sid, stack, acc). card (fst ` set by_id - set stack))")
  fix by_id :: "(string, 'p stage) dict" and sid stack out seen s p
  assume "sid \<notin> set stack" "map_of by_id sid = Some s"
  then have "sid \<in> fst ` set by_id - set stack" by (force dest: map_of_SomeD)
  then have "card (fst ` set by_id - set (stack @ [sid])) < card (fst ` set by_id - set stack)"
    by (intro psubset_card_mono) auto
  then show "((by_id, p, stack @ [sid], out, seen), by_id, sid, stack, out, seen)
      \<in> measure (\<lambda>(by_id, sid, stack, acc). card (fst ` set by_id - set stack))" by simp
qed simp

declare visit.simps [simp del]

fun visit_all :: "(string, 'p stage) dict \<Rightarrow> 'p stage list \<Rightarrow> 'p stage list \<times> string set
    \<Rightarrow> ('p stage list \<times> string set) result" where
  "visit_all by_id [] acc = Inr acc"
| "visit_all by_id (s # ss) acc =
     (case visit by_id (sg_id s) [] acc of Inl e \<Rightarrow> Inl e | Inr acc' \<Rightarrow> visit_all by_id ss acc')"

definition topo_order :: "'p stage list \<Rightarrow> 'p stage list result" where
  "topo_order stages =
     (case visit_all (stages_by_id stages) stages ([], {}) of Inl e \<Rightarrow> Inl e | Inr (out, _) \<Rightarrow> Inr out)"

definition missing_parent :: "string set \<Rightarrow> 'p stage \<Rightarrow> bool" where
  "missing_parent ids s = (case sg_parent_stage s of None \<Rightarrow> False | Some p \<Rightarrow> p \<notin> ids)"

text \<open>\<open>StageGraph(stages)\<close>: construction with the checks of \<open>__post_init__\<close>.\<close>

definition stage_graph :: "'p stage list \<Rightarrow> 'p stage list result" where
  "stage_graph stages =
     (let ids = set (stage_ids stages) in
      if card ids \<noteq> length stages then Inl ValueError
      else if list_ex (missing_parent ids) stages then Inl ValueError
      else case topo_order stages of
        Inl e \<Rightarrow> Inl e
      | Inr order \<Rightarrow> if length order \<noteq> length stages then Inl ValueError else Inr stages)"

definition stage_by_id :: "'p stage list \<Rightarrow> string \<Rightarrow> 'p stage result" where
  "stage_by_id stages sid =
     (case find (\<lambda>s. sg_id s = sid) stages of Some s \<Rightarrow> Inr s | None \<Rightarrow> Inl KeyError)"

section \<open>The order is a topological one\<close>

fun parents_first :: "string set \<Rightarrow> 'p stage list \<Rightarrow> bool" where
  "parents_first placed [] = True"
| "parents_first placed (s # ss) =
     ((case sg_parent_stage s of None \<Rightarrow> True | Some p \<Rightarrow> p \<in> placed)
      \<and> parents_first (insert (sg_id s) placed) ss)"

lemma parents_first_snoc:
  "parents_first S (xs @ [s]) \<longleftrightarrow> parents_first S xs \<and>
     (case sg_parent_stage s of None \<Rightarrow> True | Some p \<Rightarrow> p \<in> S \<union> sg_id ` set xs)"
  by (induction xs arbitrary: S) (auto split: option.splits)

lemma parents_first_parent:
  "parents_first S xs \<Longrightarrow> t \<in> set xs \<Longrightarrow> sg_parent_stage t = Some p \<Longrightarrow> p \<in> S \<union> sg_id ` set xs"
proof (induction xs arbitrary: S)
  case (Cons a xs)
  then show ?case
  proof (cases "t = a")
    case False
    with Cons.prems Cons.IH [of "insert (sg_id a) S"] show ?thesis by auto
  qed auto
qed simp

lemma map_of_stages_by_id:
  "distinct (stage_ids stages) \<Longrightarrow>
     map_of (stages_by_id stages) i = Some s \<longleftrightarrow> s \<in> set stages \<and> sg_id s = i"
proof (induction stages rule: rev_induct)
  case Nil
  then show ?case by (simp add: stages_by_id_def)
next
  case (snoc x stages)
  then have "distinct (stage_ids stages)" "sg_id x \<notin> sg_id ` set stages"
    by (auto simp: stage_ids_def)
  with snoc.IH show ?case by (auto simp: stages_by_id_def image_iff)
qed

definition visit_inv :: "'p stage list \<Rightarrow> 'p stage list \<times> string set \<Rightarrow> bool" where
  "visit_inv stages acc \<longleftrightarrow> (case acc of (out, seen) \<Rightarrow>
     seen = sg_id ` set out \<and> distinct (map sg_id out) \<and> set out \<subseteq> set stages
     \<and> parents_first {} out)"

lemma visit_step_inv:
  assumes "visit_inv stages (out, seen)" "s \<in> set stages" "sg_id s \<notin> seen"
    "case sg_parent_stage s of None \<Rightarrow> True | Some p \<Rightarrow> p \<in> seen"
  shows "visit_inv stages (out @ [s], insert (sg_id s) seen)"
  using assms by (auto simp: visit_inv_def parents_first_snoc split: option.splits)

lemma visit_correct:
  assumes "distinct (stage_ids stages)" "visit (stages_by_id stages) sid stack (out, seen) = Inr (out', seen')"
    "visit_inv stages (out, seen)"
  shows "visit_inv stages (out', seen') \<and> sid \<in> seen' \<and> seen \<subseteq> seen' \<and> (seen' - seen) \<inter> set stack = {}"
  using assms(2,3)
proof (induction "stages_by_id stages" sid stack "(out, seen)" arbitrary: out seen out' seen' rule: visit.induct)
  case (1 sid stack out seen)
  show ?case
  proof (cases "sid \<in> seen")
    case True
    with 1 show ?thesis by (simp add: visit.simps)
  next
    case new: False
    with 1(2) obtain s where fresh: "sid \<notin> set stack" and s: "map_of (stages_by_id stages) sid = Some s"
      by (auto simp: visit.simps [of _ sid] split: if_splits option.splits)
    then have mem: "s \<in> set stages" "sg_id s = sid" using map_of_stages_by_id [OF assms(1)] by auto
    show ?thesis
    proof (cases "sg_parent_stage s")
      case None
      with 1(2) new fresh s have "out' = out @ [s]" "seen' = insert sid seen"
        by (simp_all add: visit.simps [of _ sid])
      with visit_step_inv [OF 1(3) mem(1)] mem new None fresh show ?thesis by auto
    next
      case (Some p)
      with 1(2) new fresh s obtain out1 seen1 where
        sub: "visit (stages_by_id stages) p (stack @ [sid]) (out, seen) = Inr (out1, seen1)"
        and res: "out' = out1 @ [s]" "seen' = insert sid seen1"
        by (auto simp: visit.simps [of _ sid] split: sum.splits)
      from 1(1) [OF new fresh s Some sub 1(3)] have
        IH: "visit_inv stages (out1, seen1)" "p \<in> seen1" "seen \<subseteq> seen1"
          "(seen1 - seen) \<inter> set (stack @ [sid]) = {}" by auto
      then have "sid \<notin> seen1" using new by auto
      with visit_step_inv [OF IH(1) mem(1)] mem Some IH res fresh show ?thesis by auto
    qed
  qed
qed

lemma visit_all_correct:
  assumes "distinct (stage_ids stages)"
  shows "visit_all (stages_by_id stages) ss acc = Inr acc' \<Longrightarrow> visit_inv stages acc \<Longrightarrow>
    visit_inv stages acc' \<and> snd acc \<subseteq> snd acc' \<and> set (stage_ids ss) \<subseteq> snd acc'"
proof (induction ss arbitrary: acc)
  case Nil
  then show ?case by (simp add: stage_ids_def)
next
  case (Cons s ss)
  obtain out seen where acc: "acc = (out, seen)" by (cases acc)
  from Cons.prems(1) obtain a where v: "visit (stages_by_id stages) (sg_id s) [] acc = Inr a"
    and rest: "visit_all (stages_by_id stages) ss a = Inr acc'"
    by (auto split: sum.splits)
  obtain out1 seen1 where a: "a = (out1, seen1)" by (cases a)
  from visit_correct [OF assms v [unfolded acc a]] Cons.prems(2) acc
  have "visit_inv stages (out1, seen1)" "sg_id s \<in> seen1" "seen \<subseteq> seen1" by auto
  with Cons.IH [OF rest] a acc show ?case by (auto simp: stage_ids_def)
qed

lemma topo_order_correct:
  assumes "distinct (stage_ids stages)" "topo_order stages = Inr order"
  shows "mset order = mset stages \<and> parents_first {} order"
proof -
  from assms(2) obtain seen where "visit_all (stages_by_id stages) stages ([], {}) = Inr (order, seen)"
    by (auto simp: topo_order_def split: sum.splits prod.splits)
  from visit_all_correct [OF assms(1) this] have
    inv: "visit_inv stages (order, seen)" and "set (stage_ids stages) \<subseteq> seen"
    by (auto simp: visit_inv_def)
  then have ids: "sg_id ` set stages \<subseteq> sg_id ` set order" and sub: "set order \<subseteq> set stages"
    and d: "distinct (map sg_id order)" by (auto simp: visit_inv_def stage_ids_def)
  have inj: "inj_on sg_id (set stages)" using assms(1) by (simp add: stage_ids_def distinct_map)
  have "set order = set stages" using inj_on_image_eq_iff [OF inj sub subset_refl] ids sub by blast
  moreover have "distinct order" "distinct stages"
    using d assms(1) by (simp_all add: stage_ids_def distinct_map)
  ultimately show ?thesis using inv by (simp add: visit_inv_def set_eq_iff_mset_eq_distinct)
qed

section \<open>Exactly the acyclic graphs are accepted\<close>

definition parent_rank :: "'p stage list \<Rightarrow> (string \<Rightarrow> nat) \<Rightarrow> bool" where
  "parent_rank stages rank \<longleftrightarrow>
     (\<forall>s \<in> set stages. \<forall>p. sg_parent_stage s = Some p \<longrightarrow> rank p < rank (sg_id s))"

lemma visit_returns:
  assumes "distinct (stage_ids stages)" "\<not> list_ex (missing_parent (set (stage_ids stages))) stages"
    "parent_rank stages rank"
  shows "sid \<in> set (stage_ids stages) \<Longrightarrow> (\<And>x. x \<in> set stack \<Longrightarrow> rank sid < rank x) \<Longrightarrow>
    \<exists>acc'. visit (stages_by_id stages) sid stack acc = Inr acc'"
proof (induction "rank sid" arbitrary: sid stack acc rule: less_induct)
  case less
  obtain out seen where acc: "acc = (out, seen)" by (cases acc)
  from less.prems(1) obtain s where s: "s \<in> set stages" "sg_id s = sid" by (auto simp: stage_ids_def)
  then have look: "map_of (stages_by_id stages) sid = Some s"
    by (simp add: map_of_stages_by_id [OF assms(1)])
  have fresh: "sid \<notin> set stack" using less.prems(2) by blast
  show ?case
  proof (cases "sg_parent_stage s")
    case None
    with look fresh show ?thesis by (simp add: acc visit.simps [of _ sid])
  next
    case (Some p)
    with s assms(2) have p: "p \<in> set (stage_ids stages)"
      by (auto simp: list_ex_iff missing_parent_def)
    from Some s assms(3) have lt: "rank p < rank sid" by (auto simp: parent_rank_def)
    have "\<exists>acc'. visit (stages_by_id stages) p (stack @ [sid]) acc = Inr acc'"
    proof (rule less.hyps [OF lt p])
      fix x
      assume "x \<in> set (stack @ [sid])"
      with less.prems(2) lt show "rank p < rank x" by (auto intro: less_trans)
    qed
    with Some look fresh show ?thesis by (auto simp: acc visit.simps [of _ sid])
  qed
qed

lemma topo_order_returns:
  assumes "distinct (stage_ids stages)" "\<not> list_ex (missing_parent (set (stage_ids stages))) stages"
    "parent_rank stages rank"
  shows "\<exists>order. topo_order stages = Inr order"
proof -
  have "set ss \<subseteq> set stages \<Longrightarrow> \<exists>acc'. visit_all (stages_by_id stages) ss acc = Inr acc'" for ss acc
  proof (induction ss arbitrary: acc)
    case (Cons s ss)
    then obtain a where "visit (stages_by_id stages) (sg_id s) [] acc = Inr a"
      using visit_returns [OF assms, of "sg_id s" "[]" acc] by (auto simp: stage_ids_def)
    with Cons show ?case by auto
  qed simp
  from this [OF subset_refl, of "([], {})"] show ?thesis by (auto simp: topo_order_def)
qed

lemma parents_first_rank:
  assumes "parents_first {} order" "distinct (map sg_id order)"
  shows "\<exists>rank. parent_rank order rank"
proof -
  have "\<exists>rank. parent_rank order rank"
    if "parents_first S order" "distinct (map sg_id order)" "S \<inter> sg_id ` set order = {}" for S
    using that
  proof (induction order arbitrary: S rule: rev_induct)
    case Nil
    then show ?case by (simp add: parent_rank_def)
  next
    case (snoc s order)
    then have "parents_first S order" "distinct (map sg_id order)" "S \<inter> sg_id ` set order = {}"
      by (auto simp: parents_first_snoc)
    then obtain rank where r: "parent_rank order rank" using snoc.IH by blast
    define rank' where "rank' = rank(sg_id s := Suc (case sg_parent_stage s of None \<Rightarrow> 0 | Some p \<Rightarrow> rank p))"
    have "p \<noteq> sg_id s" if "t \<in> set (order @ [s])" "sg_parent_stage t = Some p" for t p
    proof -
      have "p \<in> S \<union> sg_id ` set order"
        using that snoc.prems(1) parents_first_parent [of S order t p] by (auto simp: parents_first_snoc)
      with snoc.prems show ?thesis by auto
    qed
    note fresh = this
    have "rank' p < rank' (sg_id t)" if t: "t \<in> set (order @ [s])" "sg_parent_stage t = Some p" for t p
    proof (cases "t = s")
      case True
      with fresh [OF t] t(2) show ?thesis by (simp add: rank'_def)
    next
      case False
      with t snoc.prems(2) have "t \<in> set order" "sg_id t \<noteq> sg_id s" by (auto simp: image_iff)
      with fresh [OF t] t(2) r show ?thesis by (simp add: rank'_def parent_rank_def)
    qed
    then have "parent_rank (order @ [s]) rank'" by (auto simp: parent_rank_def)
    then show ?case by blast
  qed
  from this [of "{}"] assms show ?thesis by simp
qed

lemma stage_graph_Inr:
  "stage_graph stages = Inr g \<Longrightarrow>
     g = stages \<and> distinct (stage_ids stages) \<and> \<not> list_ex (missing_parent (set (stage_ids stages))) stages
     \<and> (\<exists>order. topo_order stages = Inr order)"
  by (auto simp: stage_graph_def Let_def stage_ids_def card_distinct split: if_splits sum.splits)

lemma stage_graph_accepts:
  assumes "distinct (stage_ids stages)" "\<not> list_ex (missing_parent (set (stage_ids stages))) stages"
    "topo_order stages = Inr order"
  shows "stage_graph stages = Inr stages"
proof -
  have "length order = length stages"
    using topo_order_correct [OF assms(1,3)] mset_eq_length by blast
  moreover have "card (set (stage_ids stages)) = length stages"
    using distinct_card [OF assms(1)] by (simp add: stage_ids_def)
  ultimately show ?thesis using assms(2,3) by (simp add: stage_graph_def)
qed

text \<open>A stage with the given links and inert plug-ins, for concrete graphs.\<close>

definition plain_stage :: "string \<Rightarrow> string option \<Rightarrow> unit stage" where
  "plain_stage i p = \<lparr>sg_id = i, sg_op = i, sg_prompt_builder = (\<lambda>_ _ _. Inr None),
     sg_parser = (\<lambda>_ _ _ _. Inr None), sg_parent_stage = p, sg_is_validator = False, sg_lang = None,
     sg_budget_per_call = 0, sg_json_schema = None, sg_generate_kwargs = []\<rparr>"

section \<open>Properties\<close>

text \<open>
  C16: Construction succeeds exactly for the graphs with distinct stage ids whose parents all are in
  the graph and whose parent links admit a rank that falls from child to parent, that is, have no
  cycle; a successful construction returns the stages unchanged.
\<close>

theorem stage_graph_accepts_iff:
  "stage_graph stages = Inr g \<longleftrightarrow>
     g = stages \<and> distinct (stage_ids stages)
     \<and> \<not> list_ex (missing_parent (set (stage_ids stages))) stages
     \<and> (\<exists>rank. parent_rank stages rank)"
proof (intro iffI conjI; (elim conjE)?)
  assume g: "stage_graph stages = Inr g"
  note facts = stage_graph_Inr [OF g]
  then show "g = stages" "distinct (stage_ids stages)"
    "\<not> list_ex (missing_parent (set (stage_ids stages))) stages" by auto
  from facts obtain order where o: "topo_order stages = Inr order" by blast
  then have "mset order = mset stages" "parents_first {} order"
    using topo_order_correct facts by blast+
  moreover from this have "set order = set stages" "distinct (map sg_id order)"
    using facts by (metis set_mset_mset, metis mset_map mset_eq_imp_distinct_iff stage_ids_def)
  ultimately show "\<exists>rank. parent_rank stages rank"
    using parents_first_rank [of order] by (auto simp: parent_rank_def)
next
  assume *: "g = stages" "distinct (stage_ids stages)"
    "\<not> list_ex (missing_parent (set (stage_ids stages))) stages" "\<exists>rank. parent_rank stages rank"
  then show "stage_graph stages = Inr g"
    using topo_order_returns [OF *(2,3)] stage_graph_accepts [OF *(2,3)] by auto
qed

text \<open>
  C3: For every graph that was constructed, the topological order returns without raising, holds each
  stage exactly once, and places every parent before its children.
\<close>

theorem topo_order_topological:
  assumes "stage_graph stages = Inr g"
  shows "\<exists>order. topo_order g = Inr order \<and> mset order = mset stages \<and> parents_first {} order"
  using stage_graph_Inr [OF assms] topo_order_correct by blast

theorem topo_order_topological_witness:
  "\<exists>order. topo_order [plain_stage ''b'' (Some ''a''), plain_stage ''a'' None] = Inr order
     \<and> mset order = mset [plain_stage ''b'' (Some ''a''), plain_stage ''a'' None] \<and> parents_first {} order"
proof (rule topo_order_topological)
  show "stage_graph [plain_stage ''b'' (Some ''a''), plain_stage ''a'' None] =
      Inr [plain_stage ''b'' (Some ''a''), plain_stage ''a'' None]"
    by (simp add: stage_graph_def stage_ids_def plain_stage_def missing_parent_def topo_order_def
        stages_by_id_def visit.simps Let_def)
qed

text \<open>
  Two stages that name each other as parents both exist, so they pass the check for missing parents;
  the cycle is only found by the visit.
\<close>

lemma cycle_passes_parent_check:
  "\<not> list_ex (missing_parent {''a'', ''b''}) [plain_stage ''a'' (Some ''b''), plain_stage ''b'' (Some ''a'')]"
  "stage_graph [plain_stage ''a'' (Some ''b''), plain_stage ''b'' (Some ''a'')] = Inl ValueError"
  by (simp_all add: stage_graph_def stage_ids_def plain_stage_def missing_parent_def topo_order_def
      stages_by_id_def visit.simps Let_def)

end
