(* ===== verification/Core_Hashing.thy ===== *)
theory Core_Hashing
  imports Core_Types "HOL-Library.Word"
begin

text \<open>
  \<open>core/hashing.py\<close>. The digest \<open>hashlib.sha256(...).hexdigest()\<close> is the parameter \<open>sha\<close>, a function
  from bytes to a string; what it is fed, the UTF-8 encoding and the length prefix, is computed here.
  Characters are code points below 256, so UTF-8 uses one or two bytes.
\<close>

type_synonym byte = "8 word"

definition utf8_char :: "char \<Rightarrow> byte list" where
  "utf8_char c = (let n = of_char c :: nat in
     if n < 128 then [word_of_nat n] else [word_of_nat (192 + n div 64), word_of_nat (128 + n mod 64)])"

definition utf8 :: "string \<Rightarrow> byte list" where
  "utf8 s = concat (map utf8_char s)"

text \<open>\<open>n.to_bytes(w, "big")\<close>; \<open>OverflowError\<close> when \<open>n\<close> needs more bytes.\<close>

fun be_bytes :: "nat \<Rightarrow> nat \<Rightarrow> byte list" where
  "be_bytes 0 n = []"
| "be_bytes (Suc w) n = be_bytes w (n div 256) @ [word_of_nat (n mod 256)]"

definition to_bytes_big :: "nat \<Rightarrow> nat \<Rightarrow> byte list result" where
  "to_bytes_big w n = (if n < 256 ^ w then Inr (be_bytes w n) else Inl OverflowError)"

definition hash_text :: "(byte list \<Rightarrow> string) \<Rightarrow> string \<Rightarrow> string" where
  "hash_text sha text = sha (utf8 text)"

text \<open>What is hashed: an eight byte length of the system text, then both texts.\<close>

definition composite_preimage :: "string \<Rightarrow> string \<Rightarrow> byte list result" where
  "composite_preimage system_text user_text =
     (let sys_bytes = utf8 system_text; usr_bytes = utf8 user_text in
      case to_bytes_big 8 (length sys_bytes) of
        Inl e \<Rightarrow> Inl e
      | Inr prefix \<Rightarrow> Inr (prefix @ sys_bytes @ usr_bytes))"

definition composite_hash :: "(byte list \<Rightarrow> string) \<Rightarrow> string \<Rightarrow> string \<Rightarrow> string result" where
  "composite_hash sha system_text user_text =
     (case composite_preimage system_text user_text of Inl e \<Rightarrow> Inl e | Inr bs \<Rightarrow> Inr (sha bs))"

definition prompt_hashes ::
  "(byte list \<Rightarrow> string) \<Rightarrow> string \<Rightarrow> string \<Rightarrow> (string \<times> string \<times> string) result" where
  "prompt_hashes sha system_text user_text =
     (case composite_hash sha system_text user_text of
        Inl e \<Rightarrow> Inl e
      | Inr c \<Rightarrow> Inr (hash_text sha system_text, hash_text sha user_text, c))"

section \<open>Decoding: the preimage tells the two texts apart\<close>

lemma length_be_bytes [simp]: "length (be_bytes w n) = w"
  by (induction w arbitrary: n) auto

lemma unat_word_of_nat_byte: "n < 256 \<Longrightarrow> unat (word_of_nat n :: byte) = n"
  by (simp add: unat_of_nat)

fun be_value :: "byte list \<Rightarrow> nat" where
  "be_value bs = foldl (\<lambda>acc b. acc * 256 + unat b) 0 bs"

lemma be_value_be_bytes: "n < 256 ^ w \<Longrightarrow> be_value (be_bytes w n) = n"
proof (induction w arbitrary: n)
  case 0
  then show ?case by simp
next
  case (Suc w)
  then have "n div 256 < 256 ^ w" by (simp add: div_less_iff_less_mult mult.commute)
  from Suc.IH [OF this] show ?case by (simp add: unat_word_of_nat_byte)
qed

lemma utf8_char_nonempty: "utf8_char c \<noteq> []"
  by (simp add: utf8_char_def Let_def)

lemma of_char_less: "(of_char c :: nat) < 256"
  by (metis of_char_of UNIV_char_of_nat lessThan_iff rangeI less_numeral_extra(1) of_char_mod_256 mod_less_divisor zero_less_numeral)

lemma of_char_inj: "(of_char c :: nat) = of_char d \<Longrightarrow> c = d"
  by (metis char_of_char)

text \<open>No character's bytes start those of another, so an encoded text is read off in one way.\<close>

lemma utf8_char_prefix_free:
  assumes "utf8_char c @ xs = utf8_char d @ ys"
  shows "c = d \<and> xs = ys"
proof -
  let ?n = "of_char c :: nat" and ?m = "of_char d :: nat"
  have lt: "?n < 256" "?m < 256" by (rule of_char_less)+
  have div64: "n div 64 < 4" if "n < 256" for n :: nat using that by simp
  note parts = div64 [OF lt(1)] div64 [OF lt(2)]
  have heads: "(word_of_nat a :: byte) = word_of_nat b \<longleftrightarrow> a = b" if "a < 256" "b < 256" for a b
    by (metis that unat_word_of_nat_byte)
  have "?n = ?m \<and> xs = ys"
  proof (cases "?n < 128 \<longleftrightarrow> ?m < 128")
    case same: True
    show ?thesis
    proof (cases "?n < 128")
      case True
      with same assms lt show ?thesis by (simp add: utf8_char_def Let_def heads)
    next
      case False
      have "192 + ?n div 64 < 256" "192 + ?m div 64 < 256" "128 + ?n mod 64 < 256" "128 + ?m mod 64 < 256"
        using parts by (auto intro: order_less_le_trans [of _ "128 + 64"])
      with False same assms have "?n div 64 = ?m div 64" "?n mod 64 = ?m mod 64" "xs = ys"
        by (simp_all add: utf8_char_def Let_def heads del: of_nat_add)
      then show ?thesis by (metis div_mult_mod_eq)
    qed
  next
    case False
    have "192 + ?n div 64 < 256" "192 + ?m div 64 < 256"
      using parts by simp_all
    with False assms lt parts show ?thesis
      by (auto simp: utf8_char_def Let_def heads simp del: of_nat_add)
  qed
  then show ?thesis using of_char_inj by blast
qed

lemma utf8_inject: "utf8 s = utf8 t \<Longrightarrow> s = t"
proof (induction s arbitrary: t)
  case Nil
  then show ?case using utf8_char_nonempty by (cases t) (auto simp: utf8_def)
next
  case (Cons c s)
  then obtain d t' where t: "t = d # t'" using utf8_char_nonempty by (cases t) (auto simp: utf8_def)
  with Cons.prems have "utf8_char c @ utf8 s = utf8_char d @ utf8 t'" by (simp add: utf8_def)
  then have "c = d" "utf8 s = utf8 t'" using utf8_char_prefix_free by blast+
  with Cons.IH t show ?case by simp
qed

lemma composite_preimage_inject:
  assumes "composite_preimage s u = Inr bs" "composite_preimage s' u' = Inr bs"
  shows "s = s' \<and> u = u'"
proof -
  from assms have lens: "length (utf8 s) < 256 ^ 8" "length (utf8 s') < 256 ^ 8"
    and bs: "bs = be_bytes 8 (length (utf8 s)) @ utf8 s @ utf8 u"
      "bs = be_bytes 8 (length (utf8 s')) @ utf8 s' @ utf8 u'"
    by (auto simp: composite_preimage_def to_bytes_big_def Let_def split: if_splits)
  then have "be_bytes 8 (length (utf8 s)) = be_bytes 8 (length (utf8 s'))"
    and rest: "utf8 s @ utf8 u = utf8 s' @ utf8 u'" by simp_all
  then have "length (utf8 s) = length (utf8 s')" using be_value_be_bytes lens by metis
  with rest have "utf8 s = utf8 s'" "utf8 u = utf8 u'" by simp_all
  then show ?thesis using utf8_inject by blast
qed

section \<open>Properties\<close>

text \<open>
  The resume-cache fingerprint separates prompt pairs: for a digest that does not collide on the
  two preimages at hand, equal composite hashes mean equal system text and equal user text. In
  particular the split between the two texts is part of the fingerprint.
\<close>

theorem composite_hash_separates:
  assumes "composite_hash sha s u = Inr h" "composite_hash sha s' u' = Inr h"
    "\<And>a b. composite_preimage s u = Inr a \<Longrightarrow> composite_preimage s' u' = Inr b \<Longrightarrow> sha a = sha b \<Longrightarrow> a = b"
  shows "s = s' \<and> u = u'"
proof -
  from assms(1,2) obtain a b where "composite_preimage s u = Inr a" "composite_preimage s' u' = Inr b"
    "sha a = h" "sha b = h" by (auto simp: composite_hash_def split: sum.splits)
  with assms(3) show ?thesis using composite_preimage_inject by metis
qed

text \<open>An injective stand-in for the digest: the bytes as characters.\<close>

definition sha_chars :: "byte list \<Rightarrow> string" where
  "sha_chars bs = map (\<lambda>b. char_of (unat b)) bs"

lemma sha_chars_inject: "sha_chars a = sha_chars b \<longleftrightarrow> a = b"
proof -
  have "inj (\<lambda>b :: byte. char_of (unat b))"
  proof (rule injI)
    fix x y :: byte
    assume "char_of (unat x) = (char_of (unat y) :: char)"
    then have "(of_char (char_of (unat x)) :: nat) = of_char (char_of (unat y))" by simp
    moreover have "unat x < 256" "unat y < 256" using unsigned_less [of x] unsigned_less [of y] by simp_all
    ultimately show "x = y" by (intro unsigned_word_eqI [where ?'a = nat]) simp
  qed
  then show ?thesis by (simp add: sha_chars_def inj_map_eq_map)
qed

theorem composite_hash_separates_witness:
  "''ab'' = ''ab'' \<and> ''c'' = (''c'' :: string)
   \<and> composite_hash sha_chars ''ab'' ''c'' \<noteq> composite_hash sha_chars ''a'' ''bc''"
proof (intro conjI notI)
  assume eq: "composite_hash sha_chars ''ab'' ''c'' = composite_hash sha_chars ''a'' ''bc''"
  have "composite_hash sha_chars ''ab'' ''c'' = Inr (sha_chars (be_bytes 8 (Suc (Suc 0)) @ utf8 ''ab'' @ utf8 ''c''))"
    by (simp add: composite_hash_def composite_preimage_def to_bytes_big_def utf8_def utf8_char_def)
  with eq have "''ab'' = (''a'' :: string) \<and> ''c'' = ''bc''"
    by (intro composite_hash_separates [of sha_chars _ _ _ "''a''" "''bc''"])
      (auto simp: sha_chars_inject eq [symmetric])
  then show False by simp
qed simp_all

end
