(* ===== verification/Halving_Schedule.thy ===== *)
theory Halving_Schedule
  imports Prelude
begin

text \<open>
  \<open>halving/schedule.py\<close>, the plan table of the rounds, and \<open>halving/assignment.py\<close>, the slice of
  the task-unit pool every candidate of a round sees. Rounds are numbered from 1.
\<close>

record halving_schedule =
  hs_round_sizes :: "int list"
  hs_units_per_arm :: "int list"
  hs_pool_size :: int

text \<open>\<open>HalvingSchedule(...)\<close> with the checks of \<open>__post_init__\<close>, in their order.\<close>

definition make_schedule :: "int list \<Rightarrow> int list \<Rightarrow> int \<Rightarrow> halving_schedule result" where
  "make_schedule round_sizes units_per_arm pool_size =
     (if length round_sizes \<noteq> length units_per_arm then Inl ValueError
      else if round_sizes = [] then Inl ValueError
      else if list_ex (\<lambda>n. n \<le> 0) round_sizes then Inl ValueError
      else if list_ex (\<lambda>n. n \<le> 0) units_per_arm then Inl ValueError
      else if pool_size \<le> 0 then Inl ValueError
      else Inr \<lparr>hs_round_sizes = round_sizes, hs_units_per_arm = units_per_arm, hs_pool_size = pool_size\<rparr>)"

definition default_schedule :: halving_schedule where
  "default_schedule = \<lparr>hs_round_sizes = [52, 26, 13, 7], hs_units_per_arm = [4, 8, 12, 12], hs_pool_size = 12\<rparr>"

definition n_calls_for_stage :: "halving_schedule \<Rightarrow> int \<Rightarrow> int option \<Rightarrow> int result" where
  "n_calls_for_stage s round_idx pool_size =
     (let i = round_idx - 1 in
      if i < 0 \<or> i \<ge> int (length (hs_round_sizes s)) then Inl ValueError
      else if nat i \<ge> length (hs_units_per_arm s) then Inl IndexError
      else
        let n_units = hs_units_per_arm s ! nat i;
            effective_pool = (case pool_size of Some p \<Rightarrow> p | None \<Rightarrow> hs_pool_size s)
        in Inr (hs_round_sizes s ! nat i * min n_units effective_pool))"

fun sum_results :: "int result list \<Rightarrow> int result" where
  "sum_results [] = Inr 0"
| "sum_results (Inl e # rs) = Inl e"
| "sum_results (Inr n # rs) = (case sum_results rs of Inl e \<Rightarrow> Inl e | Inr m \<Rightarrow> Inr (n + m))"

definition total_calls_for_stage :: "halving_schedule \<Rightarrow> int option \<Rightarrow> int result" where
  "total_calls_for_stage s pool_size =
     sum_results (map (\<lambda>r. n_calls_for_stage s r pool_size) [1 .. int (length (hs_round_sizes s))])"

definition next_round_size :: "halving_schedule \<Rightarrow> int \<Rightarrow> int result" where
  "next_round_size s just_finished =
     (if just_finished < 1 \<or> just_finished > int (length (hs_round_sizes s)) then Inl ValueError
      else if just_finished = int (length (hs_round_sizes s)) then Inr 1
      else Inr (hs_round_sizes s ! nat just_finished))"

text \<open>\<open>xs[:n]\<close>; a negative bound counts from the end.\<close>

definition slice_to :: "int \<Rightarrow> 'a list \<Rightarrow> 'a list" where
  "slice_to n xs = take (nat (if n < 0 then int (length xs) + n else n)) xs"

definition assign_task_units_for_round ::
  "string list \<Rightarrow> string list \<Rightarrow> int \<Rightarrow> halving_schedule \<Rightarrow> (string, string list) dict result" where
  "assign_task_units_for_round candidates pool round_idx schedule =
     (if round_idx < 1 \<or> round_idx > int (length (hs_units_per_arm schedule)) then Inl ValueError
      else
        let n_per_arm = min (hs_units_per_arm schedule ! nat (round_idx - 1)) (int (length pool));
            chosen = slice_to n_per_arm pool
        in Inr (fold (\<lambda>c d. dset c chosen d) candidates []))"

section \<open>The schedule invariant\<close>

definition schedule_ok :: "halving_schedule \<Rightarrow> bool" where
  "schedule_ok s \<longleftrightarrow> length (hs_round_sizes s) = length (hs_units_per_arm s) \<and> hs_round_sizes s \<noteq> []
     \<and> list_all (\<lambda>n. 0 < n) (hs_round_sizes s) \<and> list_all (\<lambda>n. 0 < n) (hs_units_per_arm s)
     \<and> 0 < hs_pool_size s"

lemma make_schedule_ok:
  "make_schedule rs us p = Inr s \<longleftrightarrow>
     schedule_ok s \<and> hs_round_sizes s = rs \<and> hs_units_per_arm s = us \<and> hs_pool_size s = p"
  by (cases s) (auto simp: make_schedule_def schedule_ok_def list_ex_iff list_all_iff linorder_not_le [symmetric])

lemma default_schedule_ok [simp]: "schedule_ok default_schedule"
  by (simp add: schedule_ok_def default_schedule_def)

lemma schedule_ok_nth:
  "schedule_ok s \<Longrightarrow> i < length (hs_round_sizes s) \<Longrightarrow> 0 < hs_round_sizes s ! i \<and> 0 < hs_units_per_arm s ! i"
  by (simp add: schedule_ok_def list_all_length)

lemma sum_results_Inr:
  "(\<And>x. x \<in> set xs \<Longrightarrow> f x = Inr (g x)) \<Longrightarrow> sum_results (map f xs) = Inr (sum_list (map g xs))"
  by (induction xs) auto

section \<open>Assignment\<close>

lemma map_of_fold_const:
  "map_of (fold (\<lambda>c d. dset c v d) cs d) k = (if k \<in> set cs then Some v else map_of d k)"
  by (induction cs arbitrary: d) auto

lemma dict_ok_fold_const: "dict_ok d \<Longrightarrow> dict_ok (fold (\<lambda>c d. dset c v d) cs d)"
  by (induction cs arbitrary: d) auto

lemma assign_units_lookup:
  assumes "assign_task_units_for_round cs pool k s = Inr d"
  shows "map_of d c = (if c \<in> set cs
     then Some (slice_to (min (hs_units_per_arm s ! nat (k - 1)) (int (length pool))) pool) else None)"
  using assms by (auto simp: assign_task_units_for_round_def Let_def map_of_fold_const split: if_splits)

section \<open>Properties\<close>

text \<open>
  On a constructed schedule, the calls of a stage in round \<open>k\<close> are the round's size times the
  smaller of the round's units and the pool, the total over the cascade is the sum over all rounds,
  and an index outside the rounds raises.
\<close>

theorem stage_calls_of_schedule:
  assumes "make_schedule rs us p = Inr s"
  shows "n_calls_for_stage s k q = (if k < 1 \<or> int (length rs) < k then Inl ValueError
           else Inr (rs ! nat (k - 1) * min (us ! nat (k - 1)) (case q of Some n \<Rightarrow> n | None \<Rightarrow> p)))
     \<and> total_calls_for_stage s q =
         Inr (\<Sum>i\<leftarrow>[1 .. int (length rs)]. rs ! nat (i - 1) * min (us ! nat (i - 1)) (case q of Some n \<Rightarrow> n | None \<Rightarrow> p))"
proof -
  from assms have f: "schedule_ok s" "hs_round_sizes s = rs" "hs_units_per_arm s = us" "hs_pool_size s = p"
    by (simp_all add: make_schedule_ok)
  have each: "n_calls_for_stage s i q = (if i < 1 \<or> int (length rs) < i then Inl ValueError
      else Inr (rs ! nat (i - 1) * min (us ! nat (i - 1)) (case q of Some n \<Rightarrow> n | None \<Rightarrow> p)))" for i
    using f by (auto simp: n_calls_for_stage_def Let_def schedule_ok_def)
  have "total_calls_for_stage s q = Inr (\<Sum>i\<leftarrow>[1 .. int (length rs)].
      rs ! nat (i - 1) * min (us ! nat (i - 1)) (case q of Some n \<Rightarrow> n | None \<Rightarrow> p))"
    unfolding total_calls_for_stage_def f(2) by (rule sum_results_Inr) (simp add: each)
  with each show ?thesis by blast
qed

theorem stage_calls_of_schedule_witness:
  "n_calls_for_stage default_schedule 4 (Some 8) = Inr 56"
proof -
  have "make_schedule [52, 26, 13, 7] [4, 8, 12, 12] 12 = Inr default_schedule"
    by (simp add: make_schedule_def default_schedule_def)
  from stage_calls_of_schedule [OF this, of 4 "Some 8"] show ?thesis by simp
qed

text \<open>
  The target after a round of a constructed schedule: 1 after the last round, the size of the next
  round before that, always positive; an index outside the rounds raises.
\<close>

theorem next_round_size_positive:
  assumes "schedule_ok s"
  shows "(case next_round_size s k of
       Inl e \<Rightarrow> k < 1 \<or> int (length (hs_round_sizes s)) < k
     | Inr n \<Rightarrow> 1 \<le> n \<and> 1 \<le> k \<and> (if k = int (length (hs_round_sizes s)) then n = 1
         else k < int (length (hs_round_sizes s)) \<and> n = hs_round_sizes s ! nat k))"
proof -
  have "1 \<le> hs_round_sizes s ! nat k" if "1 \<le> k" "k < int (length (hs_round_sizes s))"
  proof -
    from that have "nat k < length (hs_round_sizes s)" by linarith
    from schedule_ok_nth [OF assms this] show ?thesis by simp
  qed
  moreover have "1 \<le> int (length (hs_round_sizes s))"
    using assms by (cases "hs_round_sizes s") (auto simp: schedule_ok_def)
  ultimately show ?thesis by (auto simp: next_round_size_def)
qed

theorem next_round_size_positive_witness:
  "schedule_ok default_schedule \<and> next_round_size default_schedule 4 = Inr 1"
  using next_round_size_positive [OF default_schedule_ok, of 4] default_schedule_ok
  by (auto simp: default_schedule_def split: sum.splits)

text \<open>
  Every candidate of a round gets the same task units, a prefix of the pool whose length is the
  round's units per arm cut to the pool size; nobody else gets any.
\<close>

theorem assignment_is_fair:
  assumes "schedule_ok s" "assign_task_units_for_round cs pool k s = Inr d"
  shows "(\<lambda>c. map_of d c) = (\<lambda>c. if c \<in> set cs
           then Some (take (min (nat (hs_units_per_arm s ! nat (k - 1))) (length pool)) pool) else None)"
proof -
  from assms(2) have k: "1 \<le> k" "k \<le> int (length (hs_units_per_arm s))"
    by (auto simp: assign_task_units_for_round_def split: if_splits)
  then have "nat (k - 1) < length (hs_round_sizes s)" using assms(1) by (simp add: schedule_ok_def)
  then have "0 < hs_units_per_arm s ! nat (k - 1)" using assms(1) by (simp add: schedule_ok_nth)
  then have "slice_to (min (hs_units_per_arm s ! nat (k - 1)) (int (length pool))) pool =
      take (min (nat (hs_units_per_arm s ! nat (k - 1))) (length pool)) pool"
    by (simp add: slice_to_def min_def nat_le_iff le_nat_iff)
  with assign_units_lookup [OF assms(2)] show ?thesis by auto
qed

theorem assignment_is_fair_witness:
  "\<exists>d. assign_task_units_for_round [''a'', ''b''] [''t1'', ''t2''] 1 default_schedule = Inr d
     \<and> map_of d ''b'' = Some [''t1'', ''t2'']"
proof -
  obtain d where d: "assign_task_units_for_round [''a'', ''b''] [''t1'', ''t2''] 1 default_schedule = Inr d"
    by (simp add: assign_task_units_for_round_def default_schedule_def Let_def)
  from assignment_is_fair [OF default_schedule_ok d] have
    "map_of d ''b'' = Some [''t1'', ''t2'']"
    by (simp add: fun_eq_iff default_schedule_def)
  with d show ?thesis by blast
qed

end
