(* ===== verification/Alive_Filter.thy ===== *)
theory Alive_Filter
  imports Core_Types
begin

text \<open>
  \<open>halving/alive_filter.py\<close>: the error classes that count towards a dead candidate, the per-run
  alive test over the accumulated error history, and the cross-run deny list over stored rows. The
  stored rows come through \<open>query_rows\<close>, the backend's row listing for a tag.
\<close>

definition DEAD_ERROR_CLASSES :: "string list" where
  "DEAD_ERROR_CLASSES = [''LLMCallTimeout'', ''LLMProviderError'', ''ReadTimeout'', ''ConnectTimeout'',
     ''PoolTimeout'', ''WriteTimeout'', ''TimeoutError'', ''RateLimitError'', ''APITimeoutError'',
     ''APIConnectionError'', ''APIError'', ''OpenAIError'', ''InternalServerError'',
     ''ServiceUnavailableError'', ''HTTPStatusError'', ''EmptyChoices'', ''ProviderError'',
     ''JsonModeUnsupported'', ''ParametersUnsupported'', ''EmptyContent'', ''TruncatedDegenerate'',
     ''ContextOverflow'', ''ModelNotFound'']"

definition TRANSIENT_ERROR_CLASSES :: "string list" where
  "TRANSIENT_ERROR_CLASSES = [''RateLimited'', ''LLMCallTimeout'', ''ReadTimeout'', ''ConnectTimeout'',
     ''PoolTimeout'', ''WriteTimeout'', ''TimeoutError'', ''APITimeoutError'', ''APIConnectionError'',
     ''RateLimitError'', ''StreamInterrupted'']"

definition is_dead_class :: "string \<Rightarrow> bool" where
  "is_dead_class e \<longleftrightarrow> e \<in> set DEAD_ERROR_CLASSES"

definition is_transient_class :: "string \<Rightarrow> bool" where
  "is_transient_class e \<longleftrightarrow> e \<in> set TRANSIENT_ERROR_CLASSES"

definition is_permanent_class :: "string \<Rightarrow> bool" where
  "is_permanent_class e \<longleftrightarrow> is_dead_class e \<and> \<not> is_transient_class e"

datatype dead_reason = DeadPermanent nat int | DeadTransient nat int

text \<open>\<open>None\<close> is alive; \<open>Some why\<close> is \<open>(False, why)\<close>.\<close>

definition is_alive_candidate ::
  "string \<Rightarrow> (string, string list) dict option \<Rightarrow> int \<Rightarrow> int option \<Rightarrow> dead_reason option" where
  "is_alive_candidate model error_history timeout_threshold transient_threshold =
     (case error_history of
        None \<Rightarrow> None
      | Some h \<Rightarrow>
          if h = [] then None
          else case map_of h model of
            None \<Rightarrow> None
          | Some errs \<Rightarrow>
              let tt = (case transient_threshold of None \<Rightarrow> timeout_threshold * 2 | Some t \<Rightarrow> t);
                  permanent_count = length (filter is_permanent_class errs);
                  transient_count = length (filter is_transient_class errs)
              in if int permanent_count \<ge> timeout_threshold
                 then Some (DeadPermanent permanent_count timeout_threshold)
                 else if int transient_count \<ge> tt
                 then Some (DeadTransient transient_count tt)
                 else None)"

text \<open>The call of the halving driver: default thresholds 3 and 6.\<close>

definition alive_default :: "(string, string list) dict \<Rightarrow> string \<Rightarrow> dead_reason option" where
  "alive_default h m = is_alive_candidate m (Some h) 3 None"

section \<open>The deny list\<close>

definition all_experiment_tags :: "string list" where
  "all_experiment_tags = []"

definition count_row :: "run_row \<Rightarrow> (string, nat \<times> nat) dict \<Rightarrow> (string, nat \<times> nat) dict" where
  "count_row r counts = (case dget counts (rr_model r) (0, 0) of (n_calls, n_fail) \<Rightarrow>
     dset (rr_model r) (n_calls + 1, if truthy (rr_error_class r) then n_fail + 1 else n_fail) counts)"

definition load_dead_model_ids ::
  "(string \<Rightarrow> run_row list) \<Rightarrow> nat \<Rightarrow> string option \<Rightarrow> string set" where
  "load_dead_model_ids query_rows min_calls experiment_tag =
     (let tags = (case experiment_tag of None \<Rightarrow> all_experiment_tags | Some t \<Rightarrow> [t]);
          counts = fold count_row (concat (map query_rows tags)) []
      in set (map fst (filter (\<lambda>(m, n_calls, n_fail). n_calls \<ge> min_calls \<and> n_fail = n_calls) counts)))"

section \<open>Counting\<close>

definition rows_of_model :: "string \<Rightarrow> run_row list \<Rightarrow> run_row list" where
  "rows_of_model m rows = filter (\<lambda>r. rr_model r = m) rows"

lemma rows_of_model_snoc:
  "rows_of_model m (rows @ [r]) = rows_of_model m rows @ (if rr_model r = m then [r] else [])"
  by (simp add: rows_of_model_def)

lemma count_row_step:
  "dict_ok c \<Longrightarrow> dict_ok (count_row r c)"
  "map_of (count_row r c) m = (if rr_model r = m
      then (case dget c m (0, 0) of (a, b) \<Rightarrow> Some (a + 1, if truthy (rr_error_class r) then b + 1 else b))
      else map_of c m)"
  by (auto simp: count_row_def split: prod.splits)

lemma fold_count_row:
  "dict_ok (fold count_row rows []) \<and> map_of (fold count_row rows []) m =
     (if rows_of_model m rows = [] then None
      else Some (length (rows_of_model m rows),
                 length (filter (\<lambda>r. truthy (rr_error_class r)) (rows_of_model m rows))))"
proof (induction rows rule: rev_induct)
  case Nil
  then show ?case by (simp add: rows_of_model_def)
next
  case (snoc r rows)
  let ?c = "fold count_row rows []"
  have step: "fold count_row (rows @ [r]) [] = count_row r ?c" by simp
  show ?case unfolding step using snoc.IH by (auto simp: rows_of_model_snoc count_row_step dget_def)
qed

lemma length_filter_eq_iff: "length (filter P xs) = length xs \<longleftrightarrow> list_all P xs"
  by (metis filter_True filter_id_conv length_filter_less less_irrefl list_all_iff)

lemma is_alive_iff:
  "is_alive_candidate m (Some h) t tt = None \<longleftrightarrow>
     (case map_of h m of None \<Rightarrow> True
      | Some errs \<Rightarrow> int (length (filter is_permanent_class errs)) < t
          \<and> int (length (filter is_transient_class errs)) < (case tt of None \<Rightarrow> t * 2 | Some u \<Rightarrow> u))"
  by (auto simp: is_alive_candidate_def Let_def split: option.splits)

lemma rate_limited_not_dead_class: "\<not> is_dead_class ''RateLimited''" "is_transient_class ''RateLimited''"
  by (simp_all add: is_dead_class_def is_transient_class_def DEAD_ERROR_CLASSES_def TRANSIENT_ERROR_CLASSES_def)

section \<open>Properties\<close>

text \<open>
  With the default thresholds a candidate with recorded errors is alive exactly when it has fewer
  than 3 permanent and fewer than 6 transient ones; the two are counted apart, an error of neither
  class counts for nothing, and only the numbers matter, not the order.
\<close>

theorem alive_by_counts:
  assumes "map_of h m = Some errs"
  shows "alive_default h m = None \<longleftrightarrow>
     size (filter_mset is_permanent_class (mset errs)) < 3
     \<and> size (filter_mset is_transient_class (mset errs)) < 6"
  using assms by (auto simp: alive_default_def is_alive_iff simp flip: mset_filter)

theorem alive_by_counts_witness:
  "alive_default [(''m'', [''ModelNotFound'', ''ModelNotFound'', ''RateLimited'', ''ModelNotFound''])] ''m'' \<noteq> None"
  using alive_by_counts [of "[(''m'', [''ModelNotFound'', ''ModelNotFound'', ''RateLimited'', ''ModelNotFound''])]"
      "''m''" "[''ModelNotFound'', ''ModelNotFound'', ''RateLimited'', ''ModelNotFound'']"]
  by (simp add: is_permanent_class_def is_dead_class_def is_transient_class_def DEAD_ERROR_CLASSES_def
      TRANSIENT_ERROR_CLASSES_def)

text \<open>
  Death is final within a run: appending further errors to a candidate's history never makes a dead
  candidate alive again.
\<close>

theorem death_is_final:
  assumes "map_of h m = Some errs" "alive_default h m \<noteq> None"
  shows "alive_default (dset m (errs @ later) h) m \<noteq> None"
  using assms by (auto simp: alive_default_def is_alive_iff)

theorem death_is_final_witness:
  "alive_default (dset ''m'' ([''EmptyChoices'', ''EmptyChoices'', ''EmptyChoices''] @ [''other''])
     [(''m'', [''EmptyChoices'', ''EmptyChoices'', ''EmptyChoices''])]) ''m'' \<noteq> None"
  by (rule death_is_final) (simp_all add: alive_default_def is_alive_iff is_permanent_class_def
      is_dead_class_def is_transient_class_def DEAD_ERROR_CLASSES_def TRANSIENT_ERROR_CLASSES_def)

text \<open>
  The deny list of a tag holds exactly the models with at least the required number of rows (and at
  least one) under the tag, every one of which carries an error class; without a tag it is empty.
\<close>

theorem deny_list_exact:
  "load_dead_model_ids query_rows n (Some tag) =
     {m. rows_of_model m (query_rows tag) \<noteq> [] \<and> n \<le> length (rows_of_model m (query_rows tag))
        \<and> list_all (\<lambda>r. truthy (rr_error_class r)) (rows_of_model m (query_rows tag))}
   \<and> load_dead_model_ids query_rows n None = {}"
proof -
  let ?c = "fold count_row (query_rows tag) []"
  have look: "(m, x) \<in> set ?c \<longleftrightarrow> map_of ?c m = Some x" for m x
    using fold_count_row [of "query_rows tag" m] by (auto simp: dict_ok_def)
  have "m \<in> load_dead_model_ids query_rows n (Some tag) \<longleftrightarrow>
      (\<exists>a b. map_of ?c m = Some (a, b) \<and> n \<le> a \<and> b = a)" for m
    by (auto simp: load_dead_model_ids_def look [symmetric] image_iff)
  then have "m \<in> load_dead_model_ids query_rows n (Some tag) \<longleftrightarrow>
      rows_of_model m (query_rows tag) \<noteq> [] \<and> n \<le> length (rows_of_model m (query_rows tag))
      \<and> list_all (\<lambda>r. truthy (rr_error_class r)) (rows_of_model m (query_rows tag))" for m
    using fold_count_row [of "query_rows tag" m] by (auto simp: length_filter_eq_iff)
  then show ?thesis by (auto simp: load_dead_model_ids_def all_experiment_tags_def)
qed

end
