(* ===== verification/Python_Random.thy ===== *)
theory Python_Random
  imports Prelude
begin

text \<open>
  What the code uses of Python's \<open>random.Random\<close>: \<open>shuffle\<close>, \<open>choice\<close> and \<open>randrange\<close>, as the
  standard library builds them on \<open>_randbelow(n)\<close>. The generator state and \<open>_randbelow\<close> itself are
  parameters; the documented law of the latter is \<open>rng_ok\<close>: for a positive bound the number drawn is
  below it.
\<close>

type_synonym 'g randbelow = "'g \<Rightarrow> nat \<Rightarrow> nat \<times> 'g"

definition rng_ok :: "'g randbelow \<Rightarrow> bool" where
  "rng_ok rb \<longleftrightarrow> (\<forall>g n. 0 < n \<longrightarrow> fst (rb g n) < n)"

definition swap_at :: "nat \<Rightarrow> nat \<Rightarrow> 'a list \<Rightarrow> 'a list" where
  "swap_at i j xs = xs[i := xs ! j, j := xs ! i]"

text \<open>\<open>for i in reversed(range(1, len(x))): j = _randbelow(i + 1); x[i], x[j] = x[j], x[i]\<close>\<close>

fun shuffle_from :: "'g randbelow \<Rightarrow> nat \<Rightarrow> 'g \<Rightarrow> 'a list \<Rightarrow> 'a list \<times> 'g" where
  "shuffle_from rb 0 g xs = (xs, g)"
| "shuffle_from rb (Suc i) g xs =
     (case rb g (Suc (Suc i)) of (j, g') \<Rightarrow> shuffle_from rb i g' (swap_at (Suc i) j xs))"

definition shuffle_list :: "'g randbelow \<Rightarrow> 'g \<Rightarrow> 'a list \<Rightarrow> 'a list \<times> 'g" where
  "shuffle_list rb g xs = shuffle_from rb (length xs - 1) g xs"

text \<open>\<open>[rng.randrange(n) for _ in range(k)]\<close>, and \<open>[rng.choice(xs) for _ in range(k)]\<close>.\<close>

fun draws :: "'g randbelow \<Rightarrow> nat \<Rightarrow> nat \<Rightarrow> 'g \<Rightarrow> nat list \<times> 'g" where
  "draws rb n 0 g = ([], g)"
| "draws rb n (Suc k) g =
     (case rb g n of (j, g') \<Rightarrow> case draws rb n k g' of (js, g'') \<Rightarrow> (j # js, g''))"

definition choices :: "'g randbelow \<Rightarrow> 'a list \<Rightarrow> nat \<Rightarrow> 'g \<Rightarrow> 'a list \<times> 'g" where
  "choices rb xs k g = (case draws rb (length xs) k g of (js, g') \<Rightarrow> (map (\<lambda>j. xs ! j) js, g'))"

lemma mset_shuffle_from:
  "rng_ok rb \<Longrightarrow> i < length xs \<Longrightarrow> mset (fst (shuffle_from rb i g xs)) = mset xs"
proof (induction i arbitrary: g xs)
  case 0
  then show ?case by simp
next
  case (Suc i)
  obtain j g' where j: "rb g (Suc (Suc i)) = (j, g')" by fastforce
  with Suc.prems have "j < Suc (Suc i)" unfolding rng_ok_def by (metis fst_conv zero_less_Suc)
  with Suc.prems have "mset (swap_at (Suc i) j xs) = mset xs" "i < length (swap_at (Suc i) j xs)"
    by (simp_all add: swap_at_def mset_swap)
  with Suc.IH [OF Suc.prems(1)] j show ?case by simp
qed

lemma mset_shuffle_list [simp]: "rng_ok rb \<Longrightarrow> mset (fst (shuffle_list rb g xs)) = mset xs"
  by (cases xs) (simp_all add: shuffle_list_def mset_shuffle_from)

lemma set_shuffle_list [simp]: "rng_ok rb \<Longrightarrow> set (fst (shuffle_list rb g xs)) = set xs"
  by (metis mset_shuffle_list set_mset_mset)

lemma length_draws [simp]: "length (fst (draws rb n k g)) = k"
  by (induction k arbitrary: g) (auto split: prod.splits, metis fst_conv)

lemma draws_below: "rng_ok rb \<Longrightarrow> 0 < n \<Longrightarrow> j \<in> set (fst (draws rb n k g)) \<Longrightarrow> j < n"
proof (induction k arbitrary: g)
  case (Suc k)
  obtain i g' where i: "rb g n = (i, g')" by fastforce
  then have "i < n" using Suc.prems(1,2) unfolding rng_ok_def by (metis fst_conv)
  with Suc i show ?case by (auto split: prod.splits) (metis fst_conv)
qed simp

lemma length_choices [simp]: "length (fst (choices rb xs k g)) = k"
  by (simp add: choices_def split: prod.splits) (metis fst_conv length_draws)

lemma set_choices: "rng_ok rb \<Longrightarrow> xs \<noteq> [] \<Longrightarrow> set (fst (choices rb xs k g)) \<subseteq> set xs"
  using draws_below [of rb "length xs" _ k g] by (auto simp: choices_def split: prod.splits)

text \<open>A generator for concrete runs: a counter reduced modulo the bound.\<close>

definition counter_rng :: "nat randbelow" where
  "counter_rng g n = (g mod n, Suc g)"

lemma counter_rng_ok [simp]: "rng_ok counter_rng"
  by (simp add: rng_ok_def counter_rng_def)

end
