(* ===== verification/Validator_Pairing.thy ===== *)
theory Validator_Pairing
  imports Python_Random
begin

text \<open>
  \<open>halving/pairing.py\<close>: the batch assignment of validators to producers and the per-call choice of a
  validator. The vendor table decides the family of a model; the log-once set of unmapped vendors is
  not part of the result and is left out.
\<close>

definition VENDOR_TO_FAMILY :: "(string, string) dict" where
  "VENDOR_TO_FAMILY = [(''openai'', ''openai''), (''anthropic'', ''anthropic''), (''google'', ''google''),
     (''x-ai'', ''x-ai''), (''deepseek'', ''deepseek''), (''mistralai'', ''mistral''),
     (''cohere'', ''cohere''), (''perplexity'', ''perplexity''), (''meta-llama'', ''meta''),
     (''qwen'', ''qwen''), (''microsoft'', ''microsoft''), (''nvidia'', ''nvidia''),
     (''amazon'', ''amazon''), (''01-ai'', ''01-ai''), (''ai21'', ''ai21''),
     (''moonshotai'', ''moonshot''), (''minimax'', ''minimax''), (''z-ai'', ''z-ai''),
     (''nousresearch'', ''nous''), (''inflection'', ''inflection''), (''alpindale'', ''alpindale''),
     (''neversleep'', ''neversleep''), (''thedrummer'', ''thedrummer''), (''ibm-granite'', ''ibm''),
     (''bytedance-seed'', ''bytedance''), (''bytedance'', ''bytedance''), (''arcee-ai'', ''arcee''),
     (''allenai'', ''allenai''), (''upstage'', ''upstage''), (''xiaomi'', ''xiaomi''),
     (''tencent'', ''tencent''), (''baidu'', ''baidu''), (''rekaai'', ''reka''),
     (''stepfun'', ''stepfun''), (''alibaba'', ''alibaba''), (''inclusionai'', ''inclusion''),
     (''essentialai'', ''essentialai''), (''liquid'', ''liquid''),
     (''cognitivecomputations'', ''cognitive''), (''gryphe'', ''gryphe''), (''sao10k'', ''sao10k''),
     (''nex-agi'', ''nex-agi'')]"

definition model_family :: "string \<Rightarrow> string" where
  "model_family model_id =
     (let vendor = (if CHR ''/'' \<in> set model_id then takeWhile (\<lambda>c. c \<noteq> CHR ''/'') model_id else model_id)
      in case map_of VENDOR_TO_FAMILY vendor of Some family \<Rightarrow> family | None \<Rightarrow> vendor)"

definition family_rank :: "string \<Rightarrow> string \<Rightarrow> nat" where
  "family_rank producer v = (if model_family v \<noteq> model_family producer then 0 else 1)"

section \<open>Batch pairs\<close>

text \<open>
  The loop state: the pairs so far, the validators each candidate already has as a producer, and how
  often each candidate serves as a validator.
\<close>

record pairing =
  pg_pairs :: "(string \<times> string) list"
  pg_used_for :: "(string, string set) dict"
  pg_used_overall :: "(string, nat) dict"

definition eligible_validators :: "string list \<Rightarrow> pairing \<Rightarrow> string \<Rightarrow> string list" where
  "eligible_validators candidates st producer =
     (let eligible = filter (\<lambda>v. v \<noteq> producer \<and> producer \<notin> dget (pg_used_for st) v {}) candidates
      in if eligible = [] then filter (\<lambda>v. v \<noteq> producer) candidates else eligible)"

definition validator_key :: "pairing \<Rightarrow> string \<Rightarrow> string \<Rightarrow> nat \<times> nat" where
  "validator_key st producer v = (dget (pg_used_overall st) v 0, family_rank producer v)"

definition add_pair :: "string \<Rightarrow> string \<Rightarrow> pairing \<Rightarrow> pairing" where
  "add_pair producer validator st =
     st\<lparr>pg_pairs := pg_pairs st @ [(producer, validator)],
        pg_used_for := dset producer (insert validator (dget (pg_used_for st) producer {})) (pg_used_for st),
        pg_used_overall := dset validator (dget (pg_used_overall st) validator 0 + 1) (pg_used_overall st)\<rparr>"

fun pair_loop :: "'g randbelow \<Rightarrow> string list \<Rightarrow> string list \<Rightarrow> 'g \<Rightarrow> pairing \<Rightarrow> pairing result" where
  "pair_loop rb candidates [] g st = Inr st"
| "pair_loop rb candidates (producer # rest) g st =
     (case shuffle_list rb g (eligible_validators candidates st producer) of
        (eligible, g') \<Rightarrow>
          (case sort_key (validator_key st producer) eligible of
             [] \<Rightarrow> Inl IndexError
           | validator # _ \<Rightarrow> pair_loop rb candidates rest g' (add_pair producer validator st)))"

definition initial_pairing :: "string list \<Rightarrow> pairing" where
  "initial_pairing candidates =
     \<lparr>pg_pairs = [], pg_used_for = fold (\<lambda>c d. dset c {} d) candidates [],
      pg_used_overall = fold (\<lambda>c d. dset c 0 d) candidates []\<rparr>"

definition allowed_validator_pairs ::
  "'g randbelow \<Rightarrow> 'g \<Rightarrow> string list \<Rightarrow> (string \<times> string) list result" where
  "allowed_validator_pairs rb g candidates =
     (let n = length candidates in
      if n < 2 then Inr []
      else if n = 2 then Inr []
      else if n = 3 then Inr (map (\<lambda>i. (candidates ! i, candidates ! ((i + 1) mod n))) [0..<n])
      else case pair_loop rb candidates candidates g (initial_pairing candidates) of
        Inl e \<Rightarrow> Inl e
      | Inr st \<Rightarrow> Inr (pg_pairs st))"

section \<open>One validator for one producer\<close>

definition select_key :: "string \<Rightarrow> (string, real) dict \<Rightarrow> string \<Rightarrow> nat \<times> xreal \<times> string" where
  "select_key producer eff_cost m =
     (family_rank producer m, (case map_of eff_cost m of Some c \<Rightarrow> Fin c | None \<Rightarrow> PInf), m)"

definition select_validator_for_producer ::
  "'g randbelow \<Rightarrow> 'g \<Rightarrow> string \<Rightarrow> string list \<Rightarrow> (string, real) dict \<Rightarrow> string option" where
  "select_validator_for_producer rb g producer pool eff_cost =
     (let eligible = filter (\<lambda>m. m \<noteq> producer) pool in
      if eligible = [] then None
      else Some (hd (sort_key (select_key producer eff_cost) (fst (shuffle_list rb g eligible)))))"

interpretation vk: injective_key "select_key producer ec" for producer ec
  by unfold_locales (simp add: select_key_def)

section \<open>The loop keeps the pairs free of mutual judgement\<close>

definition others :: "string list \<Rightarrow> string \<Rightarrow> string list" where
  "others candidates p = filter (\<lambda>v. v \<noteq> p) candidates"

definition pairing_inv :: "string list \<Rightarrow> string list \<Rightarrow> pairing \<Rightarrow> bool" where
  "pairing_inv candidates finished st \<longleftrightarrow>
     map fst (pg_pairs st) = finished
     \<and> (\<forall>p v. (p, v) \<in> set (pg_pairs st) \<longrightarrow> p \<noteq> v \<and> v \<in> set candidates \<and> (v, p) \<notin> set (pg_pairs st))
     \<and> (\<forall>v w. w \<in> dget (pg_used_for st) v {} \<longleftrightarrow> (v, w) \<in> set (pg_pairs st))
     \<and> (\<forall>v. dget (pg_used_overall st) v 0 = count_list (map snd (pg_pairs st)) v)
     \<and> (2 \<le> length (pg_pairs st) \<longrightarrow> snd (pg_pairs st ! 0) \<noteq> snd (pg_pairs st ! 1))"

lemma eligible_subset: "set (eligible_validators cs st p) \<subseteq> set (others cs p)"
  by (auto simp: eligible_validators_def others_def Let_def)

lemma dget_fold_const:
  "dget (fold (\<lambda>c d. dset c v d) cs []) k w = (if k \<in> set cs then v else w)"
proof -
  have "map_of (fold (\<lambda>c d. dset c v d) cs d) k = (if k \<in> set cs then Some v else map_of d k)" for d
    by (induction cs arbitrary: d) auto
  then show ?thesis by (simp add: dget_def)
qed

lemma pairing_inv_initial: "pairing_inv cs [] (initial_pairing cs)"
  by (simp add: pairing_inv_def initial_pairing_def dget_fold_const)

text \<open>Someone who has not judged the producer is always left.\<close>

lemma fresh_eligible:
  assumes inv: "pairing_inv cs finished st" and d: "distinct cs" "4 \<le> length cs"
    and cs: "cs = finished @ p # rest"
  shows "\<exists>v \<in> set cs. v \<noteq> p \<and> p \<notin> dget (pg_used_for st) v {}"
proof (rule ccontr)
  assume "\<not> ?thesis"
  then have all: "(v, p) \<in> set (pg_pairs st)" if "v \<in> set cs" "v \<noteq> p" for v
    using that inv by (auto simp: pairing_inv_def)
  have keys: "map fst (pg_pairs st) = finished" using inv by (simp add: pairing_inv_def)
  have "rest = []"
  proof (rule ccontr)
    assume "rest \<noteq> []"
    then obtain r where r: "r \<in> set rest" by (cases rest) auto
    then have "(r, p) \<in> set (pg_pairs st)" using all [of r] d cs by auto
    then have "r \<in> set finished" using keys by force
    with r d cs show False by auto
  qed
  with d cs keys have len: "2 \<le> length (pg_pairs st)" "length (pg_pairs st) = length finished"
    by auto
  have snds: "snd (pg_pairs st ! i) = p" if "i < length (pg_pairs st)" for i
  proof -
    let ?f = "fst (pg_pairs st ! i)"
    have f: "?f = finished ! i" using that keys by auto
    then have "?f \<in> set finished" using that len by simp
    then have "(?f, p) \<in> set (pg_pairs st)" using all [of ?f] d cs by auto
    then obtain k where k: "k < length (pg_pairs st)" "pg_pairs st ! k = (?f, p)"
      by (metis in_set_conv_nth)
    then have "finished ! k = finished ! i" using keys f by auto
    moreover have "distinct finished" using d cs by simp
    ultimately have "k = i" using k that len by (simp add: nth_eq_iff_index_eq)
    with k show ?thesis by (metis snd_conv)
  qed
  have "0 < length (pg_pairs st)" "1 < length (pg_pairs st)" using len by linarith+
  then have "snd (pg_pairs st ! 0) = snd (pg_pairs st ! 1)" using snds by simp
  with inv len(1) show False by (simp only: pairing_inv_def) blast
qed

lemma eligible_is_fresh:
  assumes "pairing_inv cs finished st" "distinct cs" "4 \<le> length cs" "cs = finished @ p # rest"
  shows "eligible_validators cs st p = filter (\<lambda>v. v \<noteq> p \<and> (v, p) \<notin> set (pg_pairs st)) cs"
    and "eligible_validators cs st p \<noteq> []"
proof -
  have eq: "filter (\<lambda>v. v \<noteq> p \<and> p \<notin> dget (pg_used_for st) v {}) cs =
      filter (\<lambda>v. v \<noteq> p \<and> (v, p) \<notin> set (pg_pairs st)) cs"
    using assms(1) by (simp add: pairing_inv_def)
  with fresh_eligible [OF assms] show
    "eligible_validators cs st p = filter (\<lambda>v. v \<noteq> p \<and> (v, p) \<notin> set (pg_pairs st)) cs"
    "eligible_validators cs st p \<noteq> []"
    by (auto simp: eligible_validators_def Let_def filter_empty_conv)
qed

text \<open>The second pick avoids the validator of the first: an unused candidate is eligible.\<close>

lemma second_pick_differs:
  assumes inv: "pairing_inv cs [a] st" and d: "distinct cs" "4 \<le> length cs" "cs = a # p # rest"
    and least: "\<And>x. x \<in> set (eligible_validators cs st p) \<Longrightarrow> validator_key st p v \<le> validator_key st p x"
  shows "snd (pg_pairs st ! 0) \<noteq> v"
proof -
  from inv obtain w where pr: "pg_pairs st = [(a, w)]" by (auto simp: pairing_inv_def)
  have "\<not> set cs \<subseteq> {a, p, w}"
  proof
    assume "set cs \<subseteq> {a, p, w}"
    then have "card (set cs) \<le> card {a, p, w}" by (intro card_mono) auto
    also have "\<dots> \<le> 3" by (simp add: card_insert_if)
    finally show False using d distinct_card [OF d(1)] by simp
  qed
  then obtain x where x: "x \<in> set cs" "x \<noteq> a" "x \<noteq> p" "x \<noteq> w" by blast
  have "x \<in> set (eligible_validators cs st p)"
    using eligible_is_fresh(1) [OF inv d(1,2), of p rest] d(3) x pr by simp
  from least [OF this] have "dget (pg_used_overall st) v 0 \<le> dget (pg_used_overall st) x 0"
    by (auto simp: validator_key_def)
  moreover have "dget (pg_used_overall st) y 0 = (if y = w then 1 else 0)" for y
    using inv pr by (simp add: pairing_inv_def)
  ultimately show ?thesis using x pr by auto
qed

lemma pair_step_inv:
  assumes inv: "pairing_inv cs finished st" and d: "distinct cs" "4 \<le> length cs"
    and cs: "cs = finished @ p # rest" and v: "v \<in> set (eligible_validators cs st p)"
    and least: "\<And>x. x \<in> set (eligible_validators cs st p) \<Longrightarrow> validator_key st p v \<le> validator_key st p x"
  shows "pairing_inv cs (finished @ [p]) (add_pair p v st)"
proof -
  have vp: "v \<in> set cs" "v \<noteq> p" "(v, p) \<notin> set (pg_pairs st)"
    using v eligible_is_fresh(1) [OF inv d cs] by auto
  have keys: "map fst (pg_pairs st) = finished" using inv by (simp add: pairing_inv_def)
  then have newp: "(p, w) \<notin> set (pg_pairs st)" for w using d cs by force
  have two: "snd (pg_pairs st ! 0) \<noteq> v" if "length (pg_pairs st) = 1"
  proof -
    from that keys obtain a where "finished = [a]" by (cases "pg_pairs st") auto
    with second_pick_differs [of cs a st p rest v] inv d cs least show ?thesis by simp
  qed
  have nth: "2 \<le> length (pg_pairs st @ [(p, v)]) \<Longrightarrow>
      snd ((pg_pairs st @ [(p, v)]) ! 0) \<noteq> snd ((pg_pairs st @ [(p, v)]) ! 1)"
    using two inv by (cases "length (pg_pairs st) = 1") (auto simp: pairing_inv_def nth_append)
  show ?thesis
    using inv vp newp keys nth unfolding pairing_inv_def add_pair_def
    by (simp add: dget_dset) blast
qed

lemma pair_loop_inv:
  assumes "rng_ok rb" "distinct cs" "4 \<le> length cs"
  shows "pairing_inv cs finished st \<Longrightarrow> cs = finished @ rest \<Longrightarrow>
    \<exists>st'. pair_loop rb cs rest g st = Inr st' \<and> pairing_inv cs cs st'"
proof (induction rest arbitrary: finished st g)
  case Nil
  then show ?case by simp
next
  case (Cons p rest)
  let ?el = "eligible_validators cs st p"
  obtain el g' where sh: "shuffle_list rb g ?el = (el, g')" by fastforce
  then have el: "set el = set ?el" using set_shuffle_list [OF assms(1), of g ?el] by simp
  have "el \<noteq> []" using el eligible_is_fresh(2) [OF Cons.prems(1) assms(2,3) Cons.prems(2)]
    by (metis set_empty)
  then obtain v vs where srt: "sort_key (validator_key st p) el = v # vs"
    by (cases "sort_key (validator_key st p) el") auto
  then have hd: "v = hd (sort_key (validator_key st p) el)" by simp
  have "v \<in> set ?el" using hd_sort_key_in [OF \<open>el \<noteq> []\<close>] hd el by metis
  moreover have "validator_key st p v \<le> validator_key st p x" if "x \<in> set ?el" for x
    using that el hd hd_sort_key_least [of x el "validator_key st p"] by simp
  ultimately have "pairing_inv cs (finished @ [p]) (add_pair p v st)"
    using pair_step_inv Cons.prems assms by blast
  then have "\<exists>st'. pair_loop rb cs rest g' (add_pair p v st) = Inr st' \<and> pairing_inv cs cs st'"
    by (rule Cons.IH) (simp add: Cons.prems(2))
  then show ?case by (simp add: sh srt)
qed

section \<open>Properties\<close>

text \<open>
  C22: For distinct candidates the batch assignment never raises, whatever the generator draws: it is
  empty for fewer than 3 candidates, and otherwise gives every candidate, in order, one validator from
  the pool that is not the candidate itself and is not judged by it in return.
\<close>

theorem validator_pairs_independent:
  assumes "rng_ok rb" "distinct cs"
  shows "\<exists>pairs. allowed_validator_pairs rb g cs = Inr pairs
     \<and> (if length cs < 3 then pairs = [] else map fst pairs = cs)
     \<and> (\<forall>p v. (p, v) \<in> set pairs \<longrightarrow> p \<noteq> v \<and> v \<in> set cs \<and> (v, p) \<notin> set pairs)"
proof -
  consider "length cs < 3" | a b c where "cs = [a, b, c]" | "4 \<le> length cs"
    by (cases "length cs < 3"; cases "length cs = 3") (auto simp: numeral_3_eq_3 length_Suc_conv)
  then show ?thesis
  proof cases
    case 1
    then show ?thesis by (auto simp: allowed_validator_pairs_def Let_def)
  next
    case 2
    have "allowed_validator_pairs rb g cs = Inr [(a, b), (b, c), (c, a)]"
      by (simp add: allowed_validator_pairs_def 2)
    moreover have "a \<noteq> b" "b \<noteq> c" "c \<noteq> a" using assms(2) 2 by auto
    then have "\<forall>p v. (p, v) \<in> set [(a, b), (b, c), (c, a)] \<longrightarrow>
        p \<noteq> v \<and> v \<in> set cs \<and> (v, p) \<notin> set [(a, b), (b, c), (c, a)]"
      by (simp add: 2)
    moreover have "map fst [(a, b), (b, c), (c, a)] = cs" "\<not> length cs < 3" by (simp_all add: 2)
    ultimately show ?thesis
      by (intro exI [of _ "[(a, b), (b, c), (c, a)]"] conjI) (assumption | simp only: if_False)+
  next
    case 3
    obtain st where st: "pair_loop rb cs cs g (initial_pairing cs) = Inr st" "pairing_inv cs cs st"
      using pair_loop_inv [OF assms 3 pairing_inv_initial, of cs g] by auto
    then have "allowed_validator_pairs rb g cs = Inr (pg_pairs st)"
      using 3 by (simp add: allowed_validator_pairs_def Let_def)
    with st(2) 3 show ?thesis by (auto simp: pairing_inv_def)
  qed
qed

theorem validator_pairs_independent_witness:
  "rng_ok counter_rng \<and> (\<exists>pairs. allowed_validator_pairs counter_rng 0 [''a'', ''b'', ''c'', ''d''] = Inr pairs
     \<and> map fst pairs = [''a'', ''b'', ''c'', ''d''])"
  using validator_pairs_independent [OF counter_rng_ok, of "[''a'', ''b'', ''c'', ''d'']" 0] by auto

text \<open>
  C23: The per-call choice never returns the producer, returns nothing exactly when the pool holds no
  other model, takes a model of another family whenever the pool has one, and among equals on family
  the cheapest; the shuffle and the seed have no influence on it, nor has the order of the pool.
\<close>

theorem selected_validator:
  assumes "rng_ok rb" "rng_ok rb'" "mset pool' = mset pool"
  shows "select_validator_for_producer rb g p pool ec = select_validator_for_producer rb' g' p pool' ec
    \<and> (select_validator_for_producer rb g p pool ec = None \<longleftrightarrow> set pool \<subseteq> {p})
    \<and> (\<forall>v. select_validator_for_producer rb g p pool ec = Some v \<longrightarrow>
         v \<noteq> p \<and> v \<in> set pool
         \<and> (\<forall>m \<in> set pool. m \<noteq> p \<longrightarrow> family_rank p v \<le> family_rank p m
              \<and> (family_rank p v = family_rank p m \<longrightarrow>
                   fst (snd (select_key p ec v)) \<le> fst (snd (select_key p ec m)))))"
proof -
  let ?el = "filter (\<lambda>m. m \<noteq> p) pool" and ?el' = "filter (\<lambda>m. m \<noteq> p) pool'"
  have "mset ?el' = mset ?el" using assms(3) by simp
  then have same: "sort_key (select_key p ec) (fst (shuffle_list rb g ?el)) = sort_key (select_key p ec) ?el"
      "sort_key (select_key p ec) (fst (shuffle_list rb' g' ?el')) = sort_key (select_key p ec) ?el"
    by (intro vk.sort_order_independent; simp add: assms)+
  have emp: "?el' = [] \<longleftrightarrow> ?el = []" using \<open>mset ?el' = mset ?el\<close> by (metis mset_zero_iff)
  have "v \<in> set ?el \<and> (\<forall>m \<in> set ?el. select_key p ec v \<le> select_key p ec m)"
    if "select_validator_for_producer rb g p pool ec = Some v" for v
  proof -
    from that have "?el \<noteq> []" "v = hd (sort_key (select_key p ec) ?el)"
      by (auto simp: select_validator_for_producer_def Let_def same split: if_splits)
    then show ?thesis
      using hd_sort_key_in [of ?el "select_key p ec"] hd_sort_key_least [of _ ?el "select_key p ec"] by simp
  qed
  moreover have "select_key p ec v \<le> select_key p ec m \<Longrightarrow> family_rank p v \<le> family_rank p m
      \<and> (family_rank p v = family_rank p m \<longrightarrow> fst (snd (select_key p ec v)) \<le> fst (snd (select_key p ec m)))" for v m
    by (auto simp: select_key_def)
  moreover have "select_validator_for_producer rb g p pool ec = select_validator_for_producer rb' g' p pool' ec"
    by (simp add: select_validator_for_producer_def Let_def same emp)
  moreover have "select_validator_for_producer rb g p pool ec = None \<longleftrightarrow> set pool \<subseteq> {p}"
    by (auto simp: select_validator_for_producer_def Let_def filter_empty_conv)
  ultimately show ?thesis by simp
qed

theorem selected_validator_witness:
  "rng_ok counter_rng \<and> select_validator_for_producer counter_rng 7 ''openai/a''
     [''openai/a'', ''openai/b'', ''qwen/c''] [] \<noteq> None"
  using selected_validator [OF counter_rng_ok counter_rng_ok refl, of 7 "''openai/a''"
      "[''openai/a'', ''openai/b'', ''qwen/c'']" "[]"] by auto

end
