(* ===== verification/Mad_Pruner.thy ===== *)
theory Mad_Pruner
  imports Python_Random
begin

text \<open>
  \<open>halving/pruner.py\<close>: the statistical prune that runs before the halving cut. The generator and its
  seeded state are parameters (theory \<open>Python_Random\<close>). The result is the set of survivors and the
  lower bound recorded per candidate. \<open>deviations[int(0.025 * n_bootstrap)]\<close> is the element at
  \<open>n_bootstrap div 40\<close>, which exists for every positive \<open>n_bootstrap\<close>.
\<close>

definition isclose :: "real \<Rightarrow> real \<Rightarrow> real \<Rightarrow> bool" where
  "isclose a b abs_tol \<longleftrightarrow> \<bar>a - b\<bar> \<le> max ((1 / 10 ^ 9) * max \<bar>a\<bar> \<bar>b\<bar>) abs_tol"

definition unit_variance_penalty :: "real \<Rightarrow> real list \<Rightarrow> real" where
  "unit_variance_penalty factor syn_scores =
     (if length syn_scores < 2 then 0
      else
        let m_mean = fmean syn_scores;
            m_sd = pstdev syn_scores;
            denom = (if \<bar>m_mean\<bar> > 1 / 10 ^ 9 then \<bar>m_mean\<bar> else 1)
        in factor * (m_sd / denom))"

definition variance_penalties ::
  "real \<Rightarrow> (string, real list) dict option \<Rightarrow> (string, real) dict" where
  "variance_penalties factor ptu =
     (case ptu of None \<Rightarrow> [] | Some d \<Rightarrow> map (\<lambda>(m, ss). (m, unit_variance_penalty factor ss)) d)"

definition cost_penalties ::
  "real \<Rightarrow> (string, real) dict \<Rightarrow> (string, real) dict option \<Rightarrow> (string, real) dict" where
  "cost_penalties factor scores eff_cost =
     (case eff_cost of
        None \<Rightarrow> []
      | Some ec \<Rightarrow>
          let positive = filter (\<lambda>c. c > 0) (map snd ec) in
          if positive = [] then []
          else
            let cheapest = Min (set positive) in
            map (\<lambda>(m, _). (m, case map_of ec m of
                   None \<Rightarrow> 0
                 | Some c \<Rightarrow> if c > 0 \<and> cheapest > 0 then factor * (c / cheapest - 1) else 0)) scores)"

definition penalty :: "(string, real) dict \<Rightarrow> (string, real) dict \<Rightarrow> string \<Rightarrow> real" where
  "penalty vp cp m = dget vp m 0 + dget cp m 0"

definition eff_items ::
  "(string, real) dict \<Rightarrow> (string, real) dict \<Rightarrow> (string, real) dict \<Rightarrow> (string \<times> real) list" where
  "eff_items scores vp cp = map (\<lambda>(m, s). (m, s - dget vp m 0 - dget cp m 0)) scores"

section \<open>The bootstrap\<close>

text \<open>
  One iteration draws a list of unit indices, averages every row at them, subtracts the penalty, and
  returns each model's distance from the median of the iteration.
\<close>

definition iteration_deviations :: "real list list \<Rightarrow> real list \<Rightarrow> nat list \<Rightarrow> real list" where
  "iteration_deviations rows penalties idx =
     (let means_eff = map2 (\<lambda>row pen. sum_list (map (\<lambda>i. row ! i) idx) / real (length idx) - pen) rows penalties;
          iter_median = median means_eff
      in map (\<lambda>x. x - iter_median) means_eff)"

fun paired_iterations ::
  "'g randbelow \<Rightarrow> real list list \<Rightarrow> real list \<Rightarrow> nat \<Rightarrow> nat \<Rightarrow> 'g \<Rightarrow> real list list" where
  "paired_iterations rb rows penalties unit_count 0 g = []"
| "paired_iterations rb rows penalties unit_count (Suc k) g =
     (case draws rb unit_count unit_count g of
        (idx, g') \<Rightarrow> iteration_deviations rows penalties idx
                     # paired_iterations rb rows penalties unit_count k g')"

fun resample_medians :: "'g randbelow \<Rightarrow> real list \<Rightarrow> nat \<Rightarrow> 'g \<Rightarrow> real list" where
  "resample_medians rb values 0 g = []"
| "resample_medians rb values (Suc k) g =
     (case choices rb values (length values) g of
        (sample, g') \<Rightarrow> median sample # resample_medians rb values k g')"

definition low_quantile :: "nat \<Rightarrow> real list \<Rightarrow> real" where
  "low_quantile n_bootstrap deviations = sort deviations ! (n_bootstrap div 40)"

text \<open>The survivors and bounds of a list of per-model lower bounds.\<close>

definition keep_above ::
  "real \<Rightarrow> (string \<times> real) list \<Rightarrow> string set \<times> (string, real) dict" where
  "keep_above threshold bounds = ({m. \<exists>lb. (m, lb) \<in> set bounds \<and> lb \<ge> threshold}, bounds)"

lemma keep_above_code [code]:
  "keep_above threshold bounds = (set (map fst (filter (\<lambda>(m, lb). lb \<ge> threshold) bounds)), bounds)"
  by (force simp: keep_above_def)

definition use_paired ::
  "(string, real) dict \<Rightarrow> (string, real list) dict option \<Rightarrow> bool" where
  "use_paired scores ptu =
     (case ptu of None \<Rightarrow> False
      | Some d \<Rightarrow> list_all (\<lambda>(m, _). case map_of d m of None \<Rightarrow> False | Some ss \<Rightarrow> ss \<noteq> []) scores)"

definition unit_rows ::
  "(string, real) dict \<Rightarrow> (string, real list) dict option \<Rightarrow> real list list" where
  "unit_rows scores ptu =
     (case ptu of None \<Rightarrow> [] | Some d \<Rightarrow> map (\<lambda>(m, _). dget d m []) scores)"

definition unit_count_of ::
  "(string, real) dict \<Rightarrow> (string, real list) dict option \<Rightarrow> nat" where
  "unit_count_of scores ptu = Min (set (map length (unit_rows scores ptu)))"

text \<open>
  The lower bound of a candidate: the overall median plus the low quantile of its bootstrap
  deviations. In the unpaired branch the deviations of every candidate come from one shared list of
  resampled medians.
\<close>

definition paired_bounds ::
  "nat \<Rightarrow> real \<Rightarrow> (string \<times> real) list \<Rightarrow> real list list \<Rightarrow> (string, real) dict" where
  "paired_bounds n_bootstrap med items iters =
     map (\<lambda>(j, m, _). (m, med + low_quantile n_bootstrap (map (\<lambda>ds. ds ! j) iters)))
       (enumerate 0 items)"

definition unpaired_bounds ::
  "nat \<Rightarrow> real \<Rightarrow> (string \<times> real) list \<Rightarrow> real list \<Rightarrow> (string, real) dict" where
  "unpaired_bounds n_bootstrap med items rms =
     map (\<lambda>(m, v). (m, med + low_quantile n_bootstrap (map (\<lambda>r. v - r) rms))) items"

definition mad_bootstrap_prune ::
  "'g randbelow \<Rightarrow> 'g \<Rightarrow> (string, real) dict \<Rightarrow> nat \<Rightarrow> real \<Rightarrow> (string, real list) dict option
     \<Rightarrow> (string, real) dict option \<Rightarrow> real \<Rightarrow> real \<Rightarrow> (string set \<times> (string, real) dict) result" where
  "mad_bootstrap_prune rb g scores n_bootstrap mad_threshold ptu eff_cost cost_factor variance_factor =
     (if length scores \<le> 3 then Inr (set (map fst scores), scores)
      else
        let vp = variance_penalties variance_factor ptu;
            cp = cost_penalties cost_factor scores eff_cost;
            items = eff_items scores vp cp;
            values = map snd items;
            med = median values;
            mad = median (map (\<lambda>v. \<bar>v - med\<bar>) values)
        in
        if isclose mad 0 (1 / 10 ^ 9) then
          let spread = pstdev values in
          if isclose spread 0 (1 / 10 ^ 9) then Inr (set (map fst scores), scores)
          else Inr (keep_above (med - 3 / 2 * spread) items)
        else
          let threshold = med - mad_threshold * mad in
          if n_bootstrap = 0 then Inl IndexError
          else if use_paired scores ptu \<and> unit_count_of scores ptu \<ge> 2 then
            let unit_count = unit_count_of scores ptu;
                rows = map (take unit_count) (unit_rows scores ptu);
                penalties = map (\<lambda>(m, _). penalty vp cp m) scores;
                iters = paired_iterations rb rows penalties unit_count n_bootstrap g
            in Inr (keep_above threshold (paired_bounds n_bootstrap med items iters))
          else
            let rms = resample_medians rb values n_bootstrap g
            in Inr (keep_above threshold (unpaired_bounds n_bootstrap med items rms)))"

text \<open>The call of the halving driver: all tuning parameters at their defaults.\<close>

definition prune_default ::
  "'g randbelow \<Rightarrow> 'g \<Rightarrow> (string, real) dict \<Rightarrow> (string, real list) dict option \<Rightarrow> (string, real) dict
     \<Rightarrow> (string set \<times> (string, real) dict) result" where
  "prune_default rb g scores ptu eff_cost =
     mad_bootstrap_prune rb g scores 1000 (5 / 2) ptu (Some eff_cost) (1 / 10) (1 / 5)"

section \<open>Shape of the result\<close>

lemma map_fst_eff_items [simp]: "map fst (eff_items scores vp cp) = map fst scores"
  by (simp add: eff_items_def case_prod_beta comp_def)

lemma length_eff_items [simp]: "length (eff_items scores vp cp) = length scores"
  by (simp add: eff_items_def)

lemma map_fst_bounds [simp]:
  "map fst (paired_bounds nb med items iters) = map fst items"
  "map fst (unpaired_bounds nb med items rms) = map fst items"
  by (auto simp: paired_bounds_def unpaired_bounds_def case_prod_beta comp_def enumerate_eq_zip
      map_snd_zip [of "[0..<length items]" items, THEN arg_cong [of _ _ "map fst"], simplified comp_def]
      intro!: nth_equalityI)

lemma keep_above_keys:
  "keep_above t bounds = (S, lb) \<Longrightarrow> map fst bounds = ks \<Longrightarrow> S \<subseteq> set ks \<and> map fst lb = ks"
  by (force simp: keep_above_def)

lemma prune_shape:
  assumes "mad_bootstrap_prune rb g scores nb thr ptu ec cf vf = Inr (S, lb)"
  shows "S \<subseteq> set (map fst scores) \<and> map fst lb = map fst scores"
  using assms unfolding mad_bootstrap_prune_def Let_def
  by (simp split: if_splits del: set_map list.set_map)
     (auto dest!: keep_above_keys [where ks = "map fst scores"] simp del: list.set_map)

lemma prune_returns:
  "0 < nb \<Longrightarrow> \<exists>S lb. mad_bootstrap_prune rb g scores nb thr ptu ec cf vf = Inr (S, lb)"
  by (auto simp: mad_bootstrap_prune_def Let_def keep_above_def)

section \<open>The unpaired prune is a cutoff\<close>

text \<open>The effective scores a call of the pruner compares.\<close>

definition prune_items ::
  "real \<Rightarrow> real \<Rightarrow> (string, real) dict \<Rightarrow> (string, real list) dict option \<Rightarrow> (string, real) dict option
     \<Rightarrow> (string \<times> real) list" where
  "prune_items cf vf scores ptu ec =
     eff_items scores (variance_penalties vf ptu) (cost_penalties cf scores ec)"

lemma low_quantile_shift:
  assumes "n div 40 < length rms"
  shows "low_quantile n (map (\<lambda>r. v - r) rms) = v + low_quantile n (map uminus rms)"
proof -
  have "sort (map (\<lambda>r. v - r) rms) = map (\<lambda>x. v + x) (sort (map uminus rms))"
  proof (rule properties_for_sort)
    show "mset (map (\<lambda>x. v + x) (sort (map uminus rms))) = mset (map (\<lambda>r. v - r) rms)"
      unfolding mset_map mset_sort by (simp add: multiset.map_comp comp_def)
    show "sorted (map (\<lambda>x. v + x) (sort (map uminus rms)))"
      by (rule sorted_map_mono) (auto simp: mono_def monotone_on_def)
  qed
  with assms show ?thesis by (simp add: low_quantile_def)
qed

lemma keep_above_cutoff:
  assumes "\<And>m v. (m, v) \<in> set items \<Longrightarrow> f v = v + d" "S = fst (keep_above t (map (\<lambda>(m, v). (m, f v)) items))"
  shows "S = {m. \<exists>v. (m, v) \<in> set items \<and> t - d \<le> v}"
  unfolding assms(2) keep_above_def using assms(1) by (force simp: algebra_simps)

lemma length_resample_medians [simp]: "length (resample_medians rb vs k g) = k"
  by (induction k arbitrary: g) (auto split: prod.splits)

lemma resample_medians_le:
  assumes "rng_ok rb" "vs \<noteq> []" "r \<in> set (resample_medians rb vs k g)"
  shows "r \<le> Max (set vs)"
  using assms(3)
proof (induction k arbitrary: g)
  case (Suc k)
  obtain sample g' where c: "choices rb vs (length vs) g = (sample, g')" by fastforce
  then have s: "set sample \<subseteq> set vs" "length sample = length vs"
    using set_choices [OF assms(1,2), of "length vs" g] length_choices [of rb vs "length vs" g] by auto
  have "median sample \<le> Max (set vs)"
    using median_between [of sample "Min (set vs)" "Max (set vs)"] s assms(2) by force
  with Suc c show ?case by auto
qed simp

lemma low_quantile_in: "n div 40 < length ds \<Longrightarrow> low_quantile n ds \<in> set ds"
  unfolding low_quantile_def by (metis length_sort nth_mem set_sort)

lemma median_abs_nonneg: "vs \<noteq> [] \<Longrightarrow> 0 \<le> median (map (\<lambda>v. \<bar>v - m\<bar>) vs)"
  using median_between [of "map (\<lambda>v. \<bar>v - m\<bar>) vs" 0 "Max (set (map (\<lambda>v. \<bar>v - m\<bar>) vs))"]
  by fastforce

lemma median_le_Max: "vs \<noteq> [] \<Longrightarrow> median vs \<le> Max (set vs)"
  using median_between [of vs "Min (set vs)" "Max (set vs)"] by auto

text \<open>
  Without usable per-unit rows the statistical prune is a plain cutoff on the effective scores
  (score minus variance and cost penalty), whatever the generator draws: for some bound the survivors
  are exactly the candidates at or above it, and the bound never exceeds the best effective score, so
  the best candidate survives.
\<close>

theorem unpaired_prune_is_cutoff:
  assumes "rng_ok rb" "0 < nb" "0 \<le> thr" "\<not> (use_paired scores ptu \<and> 2 \<le> unit_count_of scores ptu)"
    and prune: "mad_bootstrap_prune rb g scores nb thr ptu ec cf vf = Inr (S, lb)"
  shows "\<exists>c. S = {m. \<exists>v. (m, v) \<in> set (prune_items cf vf scores ptu ec) \<and> c \<le> v}
     \<and> (scores \<noteq> [] \<longrightarrow> c \<le> Max (snd ` set (prune_items cf vf scores ptu ec)))"
proof -
  define items where "items = prune_items cf vf scores ptu ec"
  define vs where "vs = map snd items"
  have keys: "fst ` set items = fst ` set scores" and len: "length items = length scores"
    unfolding items_def prune_items_def by (metis list.set_map map_fst_eff_items, simp)
  have all: ?thesis if "S = set (map fst scores)"
  proof (intro exI conjI impI)
    let ?c = "Min (snd ` set items)"
    show "S = {m. \<exists>v. (m, v) \<in> set (prune_items cf vf scores ptu ec) \<and> ?c \<le> v}"
    proof -
      have "S = {m. \<exists>v. (m, v) \<in> set items}"
        unfolding that list.set_map keys [symmetric] by force
      moreover have "?c \<le> v" if "(m, v) \<in> set items" for m v
        using that by (intro Min_le) force+
      ultimately show ?thesis unfolding items_def [symmetric] by blast
    qed
    assume "scores \<noteq> []"
    then have "items \<noteq> []" using len by auto
    then show "?c \<le> Max (snd ` set (prune_items cf vf scores ptu ec))"
      unfolding items_def [symmetric] by simp
  qed
  show ?thesis
  proof (cases "length scores \<le> 3 \<or> S = set (map fst scores)")
    case True
    with prune all show ?thesis by (auto simp: mad_bootstrap_prune_def)
  next
    case False
    let ?med = "median vs" and ?mad = "median (map (\<lambda>v. \<bar>v - median vs\<bar>) vs)"
    have ne: "vs \<noteq> []" using False len unfolding vs_def by auto
    have mx: "Max (set vs) = Max (snd ` set items)" by (simp add: vs_def)
    consider
      (const) "S = fst (keep_above (?med - 3 / 2 * pstdev vs) items)"
    | (boot) "S = fst (keep_above (?med - thr * ?mad)
         (unpaired_bounds nb ?med items (resample_medians rb vs nb g)))"
      using prune False assms(2,4)
      by (auto simp: mad_bootstrap_prune_def Let_def items_def prune_items_def vs_def keep_above_def
          split: if_splits)
    then show ?thesis
    proof cases
      case const
      then have "S = {m. \<exists>v. (m, v) \<in> set items \<and> ?med - 3 / 2 * pstdev vs \<le> v}"
        by (simp add: keep_above_def)
      moreover have "?med - 3 / 2 * pstdev vs \<le> Max (snd ` set items)"
        using median_le_Max [OF ne] pstdev_nonneg [of vs] mx by linarith
      ultimately show ?thesis unfolding items_def by blast
    next
      case boot
      let ?rms = "resample_medians rb vs nb g"
      let ?d = "?med + low_quantile nb (map uminus ?rms)"
      have nb: "nb div 40 < length ?rms" using assms(2) by simp
      have "S = {m. \<exists>v. (m, v) \<in> set items \<and> ?med - thr * ?mad - ?d \<le> v}"
        by (rule keep_above_cutoff [OF _ boot [unfolded unpaired_bounds_def]])
           (simp add: low_quantile_shift [OF nb])
      moreover have "- Max (set vs) \<le> low_quantile nb (map uminus ?rms)"
        using low_quantile_in [of nb "map uminus ?rms"] nb resample_medians_le [OF assms(1) ne]
        by fastforce
      then have "?med - thr * ?mad - ?d \<le> Max (snd ` set items)"
        using mult_nonneg_nonneg [OF assms(3) median_abs_nonneg [OF ne, of ?med]] mx by linarith
      ultimately show ?thesis unfolding items_def by blast
    qed
  qed
qed

theorem unpaired_prune_is_cutoff_witness:
  "rng_ok counter_rng \<and> (\<exists>S lb c. mad_bootstrap_prune counter_rng 0
       [(''a'', 1), (''b'', 2), (''c'', 4), (''d'', 9)] 40 (5 / 2) None None (1 / 10) (1 / 5) = Inr (S, lb)
     \<and> S = {m. \<exists>v. (m, v) \<in> set (prune_items (1 / 10) (1 / 5)
           [(''a'', 1), (''b'', 2), (''c'', 4), (''d'', 9)] None None) \<and> c \<le> v})"
proof -
  let ?sc = "[(''a'', 1), (''b'', 2), (''c'', 4), (''d'', 9)] :: (string, real) dict"
  obtain S lb where r: "mad_bootstrap_prune counter_rng 0 ?sc 40 (5 / 2) None None (1 / 10) (1 / 5) = Inr (S, lb)"
    using prune_returns [of 40 counter_rng 0 ?sc] by fastforce
  have "\<not> (use_paired ?sc None \<and> 2 \<le> unit_count_of ?sc None)" by (simp add: use_paired_def)
  from unpaired_prune_is_cutoff [OF counter_rng_ok _ _ this r] r counter_rng_ok show ?thesis by fastforce
qed

text \<open>
  For a positive number of bootstrap iterations the prune returns, keeps only candidates it was
  given, and reports one lower bound per candidate in their order.
\<close>

theorem prune_keeps_candidates:
  assumes "0 < nb"
  shows "\<exists>S lb. mad_bootstrap_prune rb g scores nb thr ptu ec cf vf = Inr (S, lb)
     \<and> S \<subseteq> set (map fst scores) \<and> map fst lb = map fst scores"
  using prune_returns [OF assms, of rb g scores thr ptu ec cf vf]
    prune_shape [of rb g scores nb thr ptu ec cf vf] by auto

theorem prune_keeps_candidates_witness:
  "(0::nat) < 1000 \<and> (\<exists>S lb. mad_bootstrap_prune counter_rng 0 [(''a'', 1 / 2)] 1000 (5 / 2) None None (1 / 10) (1 / 5)
     = Inr (S, lb) \<and> map fst lb = [''a''])"
  using prune_keeps_candidates [of 1000 counter_rng 0 "[(''a'', 1 / 2)]" "5 / 2" None None "1 / 10" "1 / 5"]
  by fastforce

section \<open>The paired prune can remove everyone\<close>

text \<open>
  Each bound of the paired branch is compared with a fixed threshold below the median, but the quantile
  is taken per candidate: in a tight field of noisy candidates every one of them has iterations
  in which it is far below the median of its peers.
\<close>

definition block_rng :: "nat randbelow" where
  "block_rng g n = ((g div 4) mod n, (g + 1) mod 16)"

lemma block_rng_ok: "rng_ok block_rng"
  by (simp add: rng_ok_def block_rng_def)

definition noisy_units :: "(string, real list) dict" where
  "noisy_units = [(''a'', [0, 0, 1, 1]), (''b'', [49 / 50, 49 / 50, 0, 0]),
     (''c'', [0, 24 / 25, 0, 24 / 25]), (''d'', [47 / 50, 0, 47 / 50, 0])]"

definition noisy_scores :: "(string, real) dict" where
  "noisy_scores = map (\<lambda>(m, ss). (m, fmean ss)) noisy_units"

lemma noisy_scores_eval:
  "noisy_scores = [(''a'', 1 / 2), (''b'', 49 / 100), (''c'', 12 / 25), (''d'', 47 / 100)]"
  by (simp add: noisy_scores_def noisy_units_def fmean_def)

lemma pstdev_eqI: "pvariance xs = r\<^sup>2 \<Longrightarrow> 0 \<le> r \<Longrightarrow> pstdev xs = r"
  by (simp add: pstdev_def)

lemma noisy_variance:
  "variance_penalties (1 / 5) (Some noisy_units) = map (\<lambda>m. (m, 1 / 5)) [''a'', ''b'', ''c'', ''d'']"
proof -
  have "pstdev [0, 0, 1, 1] = 1 / 2" "pstdev [49 / 50, 49 / 50, 0, 0] = 49 / 100"
    "pstdev [0, 24 / 25, 0, 24 / 25] = 12 / 25" "pstdev [47 / 50, 0, 47 / 50, 0] = 47 / 100"
    by (rule pstdev_eqI; simp add: pvariance_def fmean_def power2_eq_square)+
  then show ?thesis
    by (simp add: variance_penalties_def noisy_units_def unit_variance_penalty_def fmean_def)
qed

definition noisy_rows :: "real list list" where
  "noisy_rows = [[0, 0, 1, 1], [49 / 50, 49 / 50, 0, 0], [0, 24 / 25, 0, 24 / 25], [47 / 50, 0, 47 / 50, 0]]"

definition noisy_block :: "real list list" where
  "noisy_block = map (\<lambda>i. iteration_deviations noisy_rows [1/5, 1/5, 1/5, 1/5] [i, i, i, i]) [0, 1, 2, 3]"

lemma median_four:
  "median [a, b, c, d] = (sort [a, b, c, d] ! 1 + sort [a, b, c, d] ! 2) / 2"
proof -
  have two: "sort [a, b, c, d] ! 2 = sort [a, b, c, d] ! Suc (Suc 0)" by (simp only: numeral_2_eq_2)
  show ?thesis unfolding two by (simp add: median_def Let_def del: sort_key_simps)
qed

lemma noisy_block_eval:
  "noisy_block = [[-47/100, 51/100, -47/100, 47/100], [-12/25, 1/2, 12/25, -12/25],
     [53/100, -47/100, -47/100, 47/100], [13/25, -12/25, 12/25, -12/25]]"
  by (simp add: noisy_block_def noisy_rows_def iteration_deviations_def median_four Let_def)

lemma four_draws:
  "draws rb n 4 g = (case rb g n of (a, g1) \<Rightarrow> case rb g1 n of (b, g2) \<Rightarrow> case rb g2 n of (c, g3) \<Rightarrow>
     case rb g3 n of (d, g4) \<Rightarrow> ([a, b, c, d], g4))"
proof -
  have four: "(4::nat) = Suc (Suc (Suc (Suc 0)))" by simp
  show ?thesis unfolding four by (simp split: prod.splits)
qed

lemma block_draws:
  "draws block_rng 4 4 0 = ([0, 0, 0, 0], 4)" "draws block_rng 4 4 4 = ([1, 1, 1, 1], 8)"
  "draws block_rng 4 4 8 = ([2, 2, 2, 2], 12)" "draws block_rng 4 4 12 = ([3, 3, 3, 3], 0)"
  by (simp_all add: four_draws block_rng_def)

lemma noisy_iterations_step:
  "paired_iterations block_rng rows pens 4 (Suc k) g =
     iteration_deviations rows pens (fst (draws block_rng 4 4 g))
     # paired_iterations block_rng rows pens 4 k (snd (draws block_rng 4 4 g))"
  by (simp add: split_beta)

lemma noisy_iterations:
  "paired_iterations block_rng noisy_rows [1/5, 1/5, 1/5, 1/5] 4 (4 * k) 0 = concat (replicate k noisy_block)"
proof (induction k)
  case (Suc k)
  have "4 * Suc k = Suc (Suc (Suc (Suc (4 * k))))" by simp
  with Suc show ?case
    by (simp only: noisy_iterations_step block_draws fst_conv snd_conv replicate_Suc concat.simps)
       (simp add: noisy_block_def)
qed simp

text \<open>A value that is among each of many blocks bounds the low quantile.\<close>

lemma low_quantile_le:
  assumes "n div 40 < length (filter (\<lambda>d. d \<le> x) ds)"
  shows "low_quantile n ds \<le> x"
proof (rule ccontr)
  let ?s = "sort ds" and ?k = "n div 40"
  assume "\<not> low_quantile n ds \<le> x"
  then have gt: "x < ?s ! ?k" by (simp add: low_quantile_def)
  have "filter (\<lambda>d. d \<le> x) ?s = filter (\<lambda>d. d \<le> x) (take ?k ?s)"
  proof -
    have "x < d" if d: "d \<in> set (drop ?k ?s)" for d
    proof -
      obtain i where "i < length (drop ?k ?s)" "d = drop ?k ?s ! i" using d by (metis in_set_conv_nth)
      moreover from this have "?s ! ?k \<le> ?s ! (?k + i)"
        by (intro sorted_nth_mono) auto
      ultimately show ?thesis using gt by simp
    qed
    then have "filter (\<lambda>d. d \<le> x) (drop ?k ?s) = []" by (force simp: filter_empty_conv)
    then show ?thesis by (metis append_Nil2 append_take_drop_id filter_append)
  qed
  then have "length (filter (\<lambda>d. d \<le> x) ?s) \<le> ?k"
    by (metis length_filter_le length_take min.bounded_iff le_trans)
  moreover have "length (filter (\<lambda>d. d \<le> x) ?s) = length (filter (\<lambda>d. d \<le> x) ds)"
    by (metis filter_sort length_sort)
  ultimately show False using assms by simp
qed

lemma length_filter_concat_replicate:
  "length (filter P (map f (concat (replicate k xs)))) = k * length (filter P (map f xs))"
  by (induction k) auto

lemma noisy_quantile:
  assumes "j < 4"
  shows "low_quantile 1000 (map (\<lambda>ds. ds ! j) (concat (replicate 250 noisy_block))) \<le> - 47 / 100"
proof (rule low_quantile_le)
  from assms consider "j = 0" | "j = 1" | "j = 2" | "j = 3" by linarith
  then have "2 \<le> length (filter (\<lambda>d. d \<le> - 47 / 100) (map (\<lambda>ds. ds ! j) noisy_block))"
    by cases (simp_all add: noisy_block_eval numeral_2_eq_2 numeral_3_eq_3)
  then show "1000 div 40 < length (filter (\<lambda>d. d \<le> - 47 / 100)
      (map (\<lambda>ds. ds ! j) (concat (replicate 250 noisy_block))))"
    unfolding length_filter_concat_replicate by simp
qed

lemma noisy_prune:
  assumes r: "prune_default block_rng 0 noisy_scores (Some noisy_units) [] = Inr (S, lb)"
  shows "S = {}"
proof -
  let ?vp = "variance_penalties (1 / 5) (Some noisy_units)" and ?cp = "cost_penalties (1 / 10) noisy_scores (Some [])"
  let ?items = "[(''a'', 3 / 10), (''b'', 29 / 100), (''c'', 7 / 25), (''d'', 27 / 100)] :: (string \<times> real) list"
  have cp: "?cp = []" by (simp add: cost_penalties_def)
  have items: "eff_items noisy_scores ?vp ?cp = ?items"
    unfolding cp noisy_variance by (simp add: noisy_scores_eval eff_items_def dget_def)
  have pens: "map (\<lambda>(m, _). penalty ?vp ?cp m) noisy_scores = [1/5, 1/5, 1/5, 1/5]"
    unfolding cp noisy_variance by (simp add: noisy_scores_eval penalty_def dget_def)
  have rows: "unit_rows noisy_scores (Some noisy_units) = noisy_rows"
    by (simp add: unit_rows_def noisy_scores_eval noisy_units_def dget_def noisy_rows_def)
  have uc: "unit_count_of noisy_scores (Some noisy_units) = 4"
    by (simp add: unit_count_of_def rows) (simp add: noisy_rows_def)
  have take: "map (take 4) noisy_rows = noisy_rows" by (simp add: noisy_rows_def)
  have up: "use_paired noisy_scores (Some noisy_units)"
    by (simp add: use_paired_def noisy_scores_eval noisy_units_def)
  have med: "median [3 / 10, 29 / 100, 7 / 25, 27 / 100] = (57 / 200 :: real)"
    by (simp add: median_four)
  have mad: "median [3 / 200, 1 / 200, 1 / 200, 3 / 200] = (1 / 100 :: real)"
    by (simp add: median_four)
  have iters: "paired_iterations block_rng noisy_rows [1/5, 1/5, 1/5, 1/5] 4 1000 0
      = concat (replicate 250 noisy_block)"
    using noisy_iterations [of 250] by simp
  let ?bounds = "paired_bounds 1000 (57 / 200) ?items (concat (replicate 250 noisy_block))"
  have "S = fst (keep_above (13 / 50) ?bounds)"
  proof -
    have len: "\<not> length noisy_scores \<le> 3" by (simp add: noisy_scores_eval)
    have vals: "map snd ?items = [3 / 10, 29 / 100, 7 / 25, 27 / 100]" by simp
    have devs: "map (\<lambda>v. \<bar>v - 57 / 200\<bar>) [3 / 10, 29 / 100, 7 / 25, 27 / 100] = [3 / 200, 1 / 200, 1 / 200, 3 / 200 :: real]"
      by simp
    have close: "\<not> isclose (1 / 100) 0 (1 / 10 ^ 9)" by (simp add: isclose_def)
    show ?thesis
      using r len up uc close
      unfolding prune_default_def mad_bootstrap_prune_def Let_def
      by (simp only: items vals med devs mad pens rows uc take iters if_False if_True simp_thms)
         (auto simp: keep_above_def)
  qed
  moreover have "lb < 13 / 50" if "(m, lb) \<in> set ?bounds" for m lb
  proof -
    show ?thesis
      using that noisy_quantile [of 0] noisy_quantile [of "Suc 0"] noisy_quantile [of "Suc (Suc 0)"]
        noisy_quantile [of "Suc (Suc (Suc 0))"]
      by (auto simp: paired_bounds_def enumerate_simps)
  qed
  ultimately show ?thesis by (force simp: keep_above_def)
qed

text \<open>
  With the default parameters, four candidates of mean scores 0.50, 0.49, 0.48 and 0.47 on four units
  and a generator that is admissible, the paired branch prunes all four, the best one included.
\<close>

theorem paired_prune_can_empty:
  "rng_ok block_rng \<and> (\<exists>lb. prune_default block_rng 0 noisy_scores (Some noisy_units) [] = Inr ({}, lb))"
proof -
  obtain S lb where "prune_default block_rng 0 noisy_scores (Some noisy_units) [] = Inr (S, lb)"
    unfolding prune_default_def using prune_returns [of 1000] by fastforce
  with noisy_prune block_rng_ok show ?thesis by blast
qed

end
