(* ===== verification/Core_Scoring.thy ===== *)
theory Core_Scoring
  imports Core_Types
begin

text \<open>
  \<open>core/predicates.py\<close>: the usability predicate every backend and the default scorer share.
  \<open>core/scoring.py\<close>: the one sort key (score, cost, model) used by the halving cut, the winner
  pick and the runner-up pick.
\<close>

definition MIN_USABLE_RESPONSE_LEN :: int where
  "MIN_USABLE_RESPONSE_LEN = 20"

definition is_row_usable ::
  "string option \<Rightarrow> string option \<Rightarrow> string option \<Rightarrow> int \<Rightarrow> bool" where
  "is_row_usable response error_class parse_failure_prefix min_len =
     (if truthy error_class then False
      else if truthy parse_failure_prefix then False
      else case response of None \<Rightarrow> False
           | Some r \<Rightarrow> \<not> int (length r) < min_len)"

text \<open>The call as every caller makes it on a whole row.\<close>

definition row_usable :: "int \<Rightarrow> run_row \<Rightarrow> bool" where
  "row_usable min_len r =
     is_row_usable (rr_response r) (rr_error_class r) (rr_parse_failure_prefix r) min_len"

lemma row_usable_ts [simp]: "row_usable n (r\<lparr>rr_ts := t\<rparr>) = row_usable n r"
  by (simp add: row_usable_def)

lemma is_row_usable_iff:
  "is_row_usable resp err pf n \<longleftrightarrow>
     \<not> truthy err \<and> \<not> truthy pf \<and> (\<exists>r. resp = Some r \<and> n \<le> int (length r))"
  by (auto simp: is_row_usable_def split: option.splits)

lemma is_row_usable_mono:
  "is_row_usable resp err pf n \<Longrightarrow> m \<le> n \<Longrightarrow> is_row_usable resp err pf m"
  by (auto simp: is_row_usable_iff)

section \<open>The cost tie-break key\<close>

type_synonym tiebreak = "real \<times> xreal \<times> string"

definition cost_tiebreak_key ::
  "string \<Rightarrow> real \<Rightarrow> (string, real) dict \<Rightarrow> bool \<Rightarrow> (string, real) dict option \<Rightarrow> tiebreak" where
  "cost_tiebreak_key model score eff_cost higher_score_better mean_latency_sec =
     (let sgn = (if higher_score_better then -1 else 1);
          cost = (case map_of eff_cost model of Some c \<Rightarrow> Fin c | None \<Rightarrow> PInf);
          cost' = (case mean_latency_sec of None \<Rightarrow> cost
                   | Some l \<Rightarrow> (case map_of l model of None \<Rightarrow> cost
                       | Some lat \<Rightarrow> if lat > 0 then xscale cost lat else cost))
      in (sgn * score, cost', model))"

text \<open>The key of a model whose score is looked up, as the three call sites use it.\<close>

definition model_key ::
  "(string \<Rightarrow> real) \<Rightarrow> (string, real) dict \<Rightarrow> (string, real) dict option \<Rightarrow> string \<Rightarrow> tiebreak" where
  "model_key sc eff_cost lat m = cost_tiebreak_key m (sc m) eff_cost True lat"

interpretation mk: injective_key "model_key sc ec lat" for sc ec lat
  by unfold_locales (simp add: model_key_def cost_tiebreak_key_def Let_def)

lemma cost_tiebreak_key_score:
  "cost_tiebreak_key a sa ec True lat \<le> cost_tiebreak_key b sb ec True lat \<Longrightarrow> sb \<le> sa"
  by (auto simp: cost_tiebreak_key_def Let_def)

lemma model_key_score: "model_key sc ec lat a \<le> model_key sc ec lat b \<Longrightarrow> sc b \<le> sc a"
  unfolding model_key_def by (rule cost_tiebreak_key_score)

text \<open>A tie on the score is broken by the cost; a missing cost loses to any recorded one.\<close>

lemma model_key_cost:
  assumes "sc a = sc b" "model_key sc ec None a \<le> model_key sc ec None b"
    "map_of ec b = Some cb"
  shows "\<exists>ca. map_of ec a = Some ca \<and> ca \<le> cb"
  using assms by (auto simp: model_key_def cost_tiebreak_key_def Let_def split: option.splits)

end
