(* ===== verification/Halving_Driver.thy ===== *)
theory Halving_Driver
  imports Core_Scoring Halving_Schedule Alive_Filter Mad_Pruner
begin

text \<open>
  \<open>halving/driver.py\<close>: the elimination step between two rounds. \<open>promote\<close> reads the driver's schedule
  and error history and writes the survivors, costs and bonus of the round. The Python sets
  and the dict of reasons, whose order the code leaves open, are a set and a map; everything else keeps
  its order. The generator of the statistical prune is a parameter.
\<close>

datatype elimination_reason =
    BelowCoverage int int
  | BelowSpread
  | BelowCutoff
  | DeadCandidate dead_reason

record round_result =
  rs_round_idx :: int
  rs_candidates_in :: "string list"
  rs_candidates_out :: "string list"
  rs_eliminated :: "string set"
  rs_eliminated_reasons :: "string \<Rightarrow> elimination_reason option"
  rs_scores :: "(string, real) dict"
  rs_effective_cost_per_call :: "(string, real) dict"
  rs_specialty_preserved :: "(string, string) dict"

record halving =
  hv_schedule :: halving_schedule
  hv_survivors_by_round :: "(int, string list) dict"
  hv_error_history :: "(string, string list) dict"
  hv_last_eff_cost :: "(string, real) dict"
  hv_last_score_bonus :: "(string, real) dict"

section \<open>The steps of promote\<close>

text \<open>The coverage gate: the excluded models with their reasons, in the order of the scores.\<close>

definition coverage_gate ::
  "(string, real) dict \<Rightarrow> (string, int) dict option \<Rightarrow> int option \<Rightarrow> real
     \<Rightarrow> (string, elimination_reason) dict" where
  "coverage_gate scores n_stages_attempted total_stages coverage_min =
     (case (n_stages_attempted, total_stages) of
        (Some att, Some n_total) \<Rightarrow>
          if n_total > 0 \<and> coverage_min > 0 then
            map (\<lambda>m. (m, BelowCoverage (dget att m 0) n_total))
              (filter (\<lambda>m. of_int (dget att m 0) / of_int n_total < coverage_min) (map fst scores))
          else []
      | _ \<Rightarrow> [])"

definition without :: "(string, 'x) dict \<Rightarrow> (string, 'v) dict \<Rightarrow> (string, 'v) dict" where
  "without excluded d = filter (\<lambda>kv. fst kv \<notin> fst ` set excluded) d"

definition halving_cut ::
  "int \<Rightarrow> (string, real) dict \<Rightarrow> (string, real) dict \<Rightarrow> (string, real) dict option \<Rightarrow> string list" where
  "halving_cut target scores eff_cost lat =
     map fst (slice_to target (sort_key (\<lambda>kv. cost_tiebreak_key (fst kv) (snd kv) eff_cost True lat) scores))"

record promote_locals =
  pl_promoted :: "string list"
  pl_eliminated :: "string set"
  pl_reasons :: "string \<Rightarrow> elimination_reason option"
  pl_specialty :: "(string, string) dict"
  pl_wins :: "(string, nat) dict"

definition after_cut :: "(string, real) dict \<Rightarrow> string set \<Rightarrow> string list \<Rightarrow> promote_locals" where
  "after_cut scores o1_survivors halving_survivors =
     (let promoted = filter (\<lambda>m. m \<in> o1_survivors) halving_survivors;
          eliminated = fst ` set scores - set promoted
      in \<lparr>pl_promoted = promoted, pl_eliminated = eliminated,
          pl_reasons = (\<lambda>m. if m \<in> eliminated
             then Some (if m \<notin> o1_survivors then BelowSpread else BelowCutoff) else None),
          pl_specialty = [], pl_wins = []\<rparr>)"

text \<open>One iteration of the loop over the stage winners.\<close>

definition specialist_step ::
  "bool \<Rightarrow> (string, real) dict \<Rightarrow> string \<times> string \<Rightarrow> promote_locals \<Rightarrow> promote_locals" where
  "specialist_step is_final_round scores sw st =
     (case sw of (stage_id, winner_model) \<Rightarrow>
        if winner_model = [] then st
        else if map_of scores winner_model = None then st
        else
          let st1 = st\<lparr>pl_wins := dadd winner_model 1 (pl_wins st),
                       pl_specialty := dset winner_model
                          (case map_of (pl_specialty st) winner_model of
                             Some s \<Rightarrow> s @ '', '' @ stage_id | None \<Rightarrow> stage_id) (pl_specialty st)\<rparr>
          in if \<not> is_final_round \<and> winner_model \<notin> set (pl_promoted st)
             then st1\<lparr>pl_promoted := pl_promoted st @ [winner_model],
                      pl_eliminated := pl_eliminated st - {winner_model},
                      pl_reasons := (pl_reasons st)(winner_model := None)\<rparr>
             else st1)"

definition bonus_of_wins :: "(string, nat) dict \<Rightarrow> (string, real) dict" where
  "bonus_of_wins wins = map (\<lambda>(m, _). (m, 1 / 20)) (filter (\<lambda>(_, n_wins). n_wins \<ge> 2) wins)"

definition add_bonus :: "(string, real) dict \<Rightarrow> (string, real) dict \<Rightarrow> (string, real) dict" where
  "add_bonus bonus scores = map (\<lambda>(m, s). (m, min 1 (s + dget bonus m 0))) scores"

text \<open>One iteration of the alive/dead loop, over a copy of the promoted list.\<close>

definition alive_step ::
  "(string, string list) dict \<Rightarrow> string \<Rightarrow> promote_locals \<Rightarrow> promote_locals" where
  "alive_step error_history m st =
     (case alive_default error_history m of
        None \<Rightarrow> st
      | Some why \<Rightarrow> st\<lparr>pl_promoted := remove1 m (pl_promoted st),
                       pl_eliminated := insert m (pl_eliminated st),
                       pl_reasons := (pl_reasons st)(m \<mapsto> DeadCandidate why),
                       pl_specialty := AList.delete m (pl_specialty st)\<rparr>)"

definition merge_excluded ::
  "(string, elimination_reason) dict \<Rightarrow> promote_locals \<Rightarrow> promote_locals" where
  "merge_excluded excluded st =
     fold (\<lambda>(m, why) st. st\<lparr>pl_eliminated := insert m (pl_eliminated st),
                           pl_reasons := (pl_reasons st)(m \<mapsto> why)\<rparr>) excluded st"

text \<open>The loops of a promotion in their order, from the cut to the merged reasons.\<close>

definition promote_decide ::
  "halving \<Rightarrow> bool \<Rightarrow> (string, real) dict \<Rightarrow> (string, string) dict option
     \<Rightarrow> (string, elimination_reason) dict \<Rightarrow> string set \<Rightarrow> string list \<Rightarrow> promote_locals" where
  "promote_decide h is_final scores winners excluded o1_survivors survivors_of_cut =
     (let st1 = fold (specialist_step is_final scores) (case winners of None \<Rightarrow> [] | Some w \<Rightarrow> w)
                  (after_cut scores o1_survivors survivors_of_cut);
          st2 = fold (alive_step (hv_error_history h)) (pl_promoted st1) st1
      in merge_excluded excluded st2)"

text \<open>
  \<open>Halving.promote\<close>. The two early returns leave the driver as it was.
\<close>

definition promote ::
  "'g randbelow \<Rightarrow> 'g \<Rightarrow> halving \<Rightarrow> int \<Rightarrow> (string, real) dict \<Rightarrow> (string, real) dict
     \<Rightarrow> (string, string) dict option \<Rightarrow> (string, int) dict option \<Rightarrow> int option \<Rightarrow> real
     \<Rightarrow> (string, real) dict option \<Rightarrow> (string, real list) dict option \<Rightarrow> (round_result \<times> halving) result" where
  "promote rb g h round_idx scores eff_cost winners attempted n_total coverage_min lat ptu =
     (if scores = [] then
        Inr (\<lparr>rs_round_idx = round_idx, rs_candidates_in = [], rs_candidates_out = [], rs_eliminated = {},
              rs_eliminated_reasons = Map.empty, rs_scores = [], rs_effective_cost_per_call = [],
              rs_specialty_preserved = []\<rparr>, h)
      else case next_round_size (hv_schedule h) round_idx of
        Inl e \<Rightarrow> Inl e
      | Inr target_size \<Rightarrow>
          let excluded = coverage_gate scores attempted n_total coverage_min;
              scores' = without excluded scores;
              eff_cost' = without excluded eff_cost;
              lat' = map_option (without excluded) lat
          in if scores' = [] then
               Inr (\<lparr>rs_round_idx = round_idx, rs_candidates_in = map fst excluded, rs_candidates_out = [],
                     rs_eliminated = fst ` set excluded, rs_eliminated_reasons = map_of excluded,
                     rs_scores = [], rs_effective_cost_per_call = [], rs_specialty_preserved = []\<rparr>, h)
             else
               let units = map_option (filter (\<lambda>kv. map_of scores' (fst kv) \<noteq> None)) ptu
               in case prune_default rb g scores' units eff_cost' of
                 Inl e \<Rightarrow> Inl e
               | Inr (o1_survivors, _) \<Rightarrow>
                   let is_final = (round_idx = int (length (hs_round_sizes (hv_schedule h))));
                       survivors_of_cut = halving_cut target_size scores' eff_cost' lat';
                       st = promote_decide h is_final scores' winners excluded o1_survivors survivors_of_cut;
                       bonus = bonus_of_wins (pl_wins st)
                   in Inr (\<lparr>rs_round_idx = round_idx,
                            rs_candidates_in = map fst scores' @ map fst excluded,
                            rs_candidates_out = pl_promoted st, rs_eliminated = pl_eliminated st,
                            rs_eliminated_reasons = pl_reasons st,
                            rs_scores = add_bonus bonus scores',
                            rs_effective_cost_per_call = eff_cost',
                            rs_specialty_preserved = pl_specialty st\<rparr>,
                           h\<lparr>hv_survivors_by_round := dset round_idx (pl_promoted st) (hv_survivors_by_round h),
                             hv_last_eff_cost := eff_cost', hv_last_score_bonus := bonus\<rparr>))"

section \<open>The invariant of the loops\<close>

text \<open>
  Promoted and eliminated partition the models under decision, no model is promoted twice, and exactly
  the eliminated ones carry a reason.
\<close>

definition locals_ok :: "string set \<Rightarrow> promote_locals \<Rightarrow> bool" where
  "locals_ok K st \<longleftrightarrow> distinct (pl_promoted st) \<and> set (pl_promoted st) \<union> pl_eliminated st = K
     \<and> set (pl_promoted st) \<inter> pl_eliminated st = {} \<and> dom (pl_reasons st) = pl_eliminated st"

definition winner_models :: "(string, string) dict option \<Rightarrow> string set" where
  "winner_models winners = (case winners of None \<Rightarrow> {} | Some w \<Rightarrow> snd ` set w) - {[]}"

lemma without_keys [simp]: "fst ` set (without ex d) = fst ` set d - fst ` set ex"
  by (auto simp: without_def image_iff)

lemma dict_ok_without [simp, intro]: "dict_ok d \<Longrightarrow> dict_ok (without ex d)"
  by (simp add: without_def)

lemma map_of_without [dict_simps]:
  "map_of (without ex d) m = (if m \<in> fst ` set ex then None else map_of d m)"
  using map_of_filter_keys [of "\<lambda>k. k \<notin> fst ` set ex" d m] by (simp add: without_def)

lemma coverage_gate_keys:
  "fst ` set (coverage_gate scores att n_total cmin) \<subseteq> fst ` set scores"
  by (auto simp: coverage_gate_def split: option.splits if_splits)

lemma after_cut_ok:
  "distinct cs \<Longrightarrow> set cs \<subseteq> fst ` set scores \<Longrightarrow> locals_ok (fst ` set scores) (after_cut scores S cs)"
  by (auto simp: after_cut_def locals_ok_def Let_def dom_def split: if_splits)

lemma specialist_step_ok:
  assumes "locals_ok (fst ` set scores) st"
  shows "locals_ok (fst ` set scores) (specialist_step fin scores sw st)"
proof (cases sw)
  case (Pair s w)
  have "map_of scores w \<noteq> None \<Longrightarrow> w \<in> fst ` set scores" by (metis map_of_eq_None_iff)
  with assms Pair show ?thesis
    by (auto simp: specialist_step_def locals_ok_def Let_def dom_def split: if_splits)
qed

lemma fold_specialist_ok:
  "locals_ok (fst ` set scores) st \<Longrightarrow> locals_ok (fst ` set scores) (fold (specialist_step fin scores) ws st)"
  by (induction ws arbitrary: st) (auto simp: specialist_step_ok)

lemma alive_step_ok: "locals_ok K st \<Longrightarrow> m \<in> K \<Longrightarrow> locals_ok K (alive_step eh m st)"
  by (auto simp: alive_step_def locals_ok_def set_remove1_eq split: option.splits)

lemma fold_alive_ok: "locals_ok K st \<Longrightarrow> set ms \<subseteq> K \<Longrightarrow> locals_ok K (fold (alive_step eh) ms st)"
  by (induction ms arbitrary: st) (auto simp: alive_step_ok)

lemma merge_excluded_simps:
  "merge_excluded [] st = st"
  "merge_excluded ((m, why) # ex) st = merge_excluded ex
     (st\<lparr>pl_eliminated := insert m (pl_eliminated st), pl_reasons := (pl_reasons st)(m \<mapsto> why)\<rparr>)"
  by (simp_all add: merge_excluded_def)

lemma merge_excluded_fields [simp]:
  "pl_promoted (merge_excluded ex st) = pl_promoted st"
  "pl_wins (merge_excluded ex st) = pl_wins st"
  "pl_eliminated (merge_excluded ex st) = pl_eliminated st \<union> fst ` set ex"
  by (induction ex arbitrary: st) (force simp: merge_excluded_simps)+

lemma merge_excluded_reasons:
  "dict_ok ex \<Longrightarrow> pl_reasons (merge_excluded ex st) m =
     (case map_of ex m of Some why \<Rightarrow> Some why | None \<Rightarrow> pl_reasons st m)"
proof (induction ex arbitrary: st)
  case (Cons x ex)
  then show ?case
    using in_keys_iff [of "fst x" ex]
    by (cases x) (auto simp: merge_excluded_simps split: option.splits)
qed (simp add: merge_excluded_simps)

lemma merge_excluded_ok:
  assumes "locals_ok K st" "dict_ok ex" "K \<inter> fst ` set ex = {}"
  shows "locals_ok (K \<union> fst ` set ex) (merge_excluded ex st)"
proof -
  have "dom (pl_reasons (merge_excluded ex st)) = dom (pl_reasons st) \<union> fst ` set ex"
    unfolding dom_map_of_conv_image_fst [symmetric]
    by (auto simp: merge_excluded_reasons assms dom_def split: option.splits)
  with assms show ?thesis unfolding locals_ok_def by auto
qed

section \<open>What the loops compute\<close>

lemma promoted_specialist_step:
  "set (pl_promoted (specialist_step fin scores (s, w) st)) =
     set (pl_promoted st) \<union> (if \<not> fin \<and> w \<noteq> [] \<and> w \<in> fst ` set scores then {w} else {})"
  using map_of_eq_None_iff [of scores w] by (auto simp: specialist_step_def Let_def)

lemma promoted_fold_specialist:
  "set (pl_promoted (fold (specialist_step fin scores) ws st)) =
     set (pl_promoted st) \<union> (if fin then {} else (snd ` set ws - {[]}) \<inter> fst ` set scores)"
proof (induction ws arbitrary: st)
  case (Cons x ws)
  then show ?case by (cases x) (auto simp: promoted_specialist_step)
qed simp

lemma final_specialist_step [simp]: "pl_promoted (specialist_step True scores sw st) = pl_promoted st"
  by (simp add: specialist_step_def Let_def split: prod.splits)

lemma final_fold_specialist [simp]:
  "pl_promoted (fold (specialist_step True scores) ws st) = pl_promoted st"
  by (induction ws arbitrary: st) auto

lemma promoted_alive_step:
  "distinct (pl_promoted st) \<Longrightarrow> pl_promoted (alive_step eh m st) =
     filter (\<lambda>x. \<not> (x = m \<and> alive_default eh x \<noteq> None)) (pl_promoted st)"
  by (auto simp: alive_step_def distinct_remove1_removeAll removeAll_filter_not_eq
      split: option.splits intro!: filter_cong filter_True [symmetric])

lemma promoted_fold_alive:
  "distinct (pl_promoted st) \<Longrightarrow> pl_promoted (fold (alive_step eh) ms st) =
     filter (\<lambda>x. \<not> (x \<in> set ms \<and> alive_default eh x \<noteq> None)) (pl_promoted st)"
proof (induction ms arbitrary: st)
  case (Cons m ms)
  then show ?case by (auto simp: promoted_alive_step intro!: filter_cong)
qed simp

lemma promoted_alive [simp]:
  "distinct (pl_promoted st) \<Longrightarrow> pl_promoted (fold (alive_step eh) (pl_promoted st) st) =
     filter (\<lambda>x. alive_default eh x = None) (pl_promoted st)"
  by (auto simp: promoted_fold_alive intro: filter_cong)

lemma reasons_fold_specialist:
  assumes "locals_ok (fst ` set scores) st" and new: "st' = fold (specialist_step fin scores) ws st"
  shows "pl_reasons st' m = (if m \<in> set (pl_promoted st') then None else pl_reasons st m)"
proof -
  have step: "pl_reasons (specialist_step fin scores sw s) m = None
      \<or> pl_reasons (specialist_step fin scores sw s) m = pl_reasons s m" for sw s
    by (auto simp: specialist_step_def Let_def split: prod.splits)
  have keep: "pl_reasons (fold (specialist_step fin scores) ws st) m = None
      \<or> pl_reasons (fold (specialist_step fin scores) ws st) m = pl_reasons st m"
  proof (induction ws arbitrary: st)
    case (Cons x ws)
    then show ?case using step [of x st] by (metis fold_simps(2))
  qed simp
  have ok: "locals_ok (fst ` set scores) st'" unfolding new using assms(1) by (rule fold_specialist_ok)
  then have "pl_reasons st' m = None \<longleftrightarrow> m \<in> set (pl_promoted st') \<or> m \<notin> fst ` set scores"
    "pl_reasons st m = None" if "m \<notin> fst ` set scores"
    using assms(1) that unfolding locals_ok_def by blast+
  moreover have "pl_reasons st' m \<noteq> None" if "m \<notin> set (pl_promoted st')" "m \<in> fst ` set scores"
    using ok that unfolding locals_ok_def by blast
  moreover have "pl_reasons st' m = None" if "m \<in> set (pl_promoted st')"
    using ok that unfolding locals_ok_def by blast
  ultimately show ?thesis using keep unfolding new [symmetric] by metis
qed

lemma reasons_fold_alive:
  "pl_reasons (fold (alive_step eh) ms st) m =
     (case alive_default eh m of Some why \<Rightarrow> if m \<in> set ms then Some (DeadCandidate why) else pl_reasons st m
      | None \<Rightarrow> pl_reasons st m)"
proof (induction ms arbitrary: st)
  case (Cons x ms)
  have "pl_reasons (alive_step eh x st) m = (if m = x then (case alive_default eh m of None \<Rightarrow> pl_reasons st m
      | Some why \<Rightarrow> Some (DeadCandidate why)) else pl_reasons st m)"
    by (auto simp: alive_step_def split: option.splits)
  with Cons show ?case by (auto split: option.splits)
qed (simp split: option.splits)

text \<open>The candidates the loops promote before the alive filter.\<close>

definition force_promoted :: "bool \<Rightarrow> (string, real) dict \<Rightarrow> (string, string) dict option \<Rightarrow> string set" where
  "force_promoted is_final scores winners =
     (if is_final then {} else winner_models winners \<inter> fst ` set scores)"

lemma promote_decide_spec:
  fixes scores :: "(string, real) dict" and h :: halving and S :: "string set"
    and winners :: "(string, string) dict option" and fin :: bool
  assumes cs: "distinct cs" "set cs \<subseteq> fst ` set scores"
    and ex: "dict_ok ex" "fst ` set scores \<inter> fst ` set ex = {}"
  defines "st \<equiv> promote_decide h fin scores winners ex S cs"
    and "P \<equiv> set cs \<inter> S \<union> force_promoted fin scores winners"
  shows "locals_ok (fst ` set scores \<union> fst ` set ex) st"
    and "set (pl_promoted st) = {m \<in> P. alive_default (hv_error_history h) m = None}"
    and "fin \<Longrightarrow> pl_promoted st = filter (\<lambda>m. m \<in> S \<and> alive_default (hv_error_history h) m = None) cs"
    and "m \<in> fst ` set scores \<union> fst ` set ex \<Longrightarrow> pl_reasons st m =
      (case map_of ex m of Some why \<Rightarrow> Some why
       | None \<Rightarrow> if m \<in> P then map_option DeadCandidate (alive_default (hv_error_history h) m)
                 else if m \<in> S then Some BelowCutoff else Some BelowSpread)"
proof -
  let ?eh = "hv_error_history h" and ?K = "fst ` set scores"
  let ?ws = "case winners of None \<Rightarrow> [] | Some w \<Rightarrow> w"
  define st0 where "st0 = after_cut scores S cs"
  define st1 where "st1 = fold (specialist_step fin scores) ?ws st0"
  define st2 where "st2 = fold (alive_step ?eh) (pl_promoted st1) st1"
  have st: "st = merge_excluded ex st2"
    by (simp add: st_def promote_decide_def Let_def st0_def st1_def st2_def)
  have ok0: "locals_ok ?K st0" unfolding st0_def using cs by (rule after_cut_ok)
  have ok1: "locals_ok ?K st1" unfolding st1_def using ok0 by (rule fold_specialist_ok)
  have d1: "distinct (pl_promoted st1)" and sub1: "set (pl_promoted st1) \<subseteq> ?K"
    using ok1 by (auto simp: locals_ok_def)
  have p0: "set (pl_promoted st0) = set cs \<inter> S" by (auto simp: st0_def after_cut_def Let_def)
  have p1: "set (pl_promoted st1) = P"
    unfolding st1_def promoted_fold_specialist p0 P_def force_promoted_def winner_models_def
    by (auto split: option.splits)
  have p2: "pl_promoted st2 = filter (\<lambda>x. alive_default ?eh x = None) (pl_promoted st1)"
    unfolding st2_def using d1 by simp
  have ok2: "locals_ok ?K st2" unfolding st2_def using ok1 sub1 by (rule fold_alive_ok)
  show "locals_ok (?K \<union> fst ` set ex) st" unfolding st using ok2 ex by (rule merge_excluded_ok)
  show "set (pl_promoted st) = {m \<in> P. alive_default ?eh m = None}" using p1 p2 by (auto simp: st)
  show "pl_promoted st = filter (\<lambda>m. m \<in> S \<and> alive_default ?eh m = None) cs" if "fin"
    using that by (auto simp: st p2 st1_def st0_def after_cut_def Let_def intro: filter_cong)
  assume m: "m \<in> ?K \<union> fst ` set ex"
  show "pl_reasons st m = (case map_of ex m of Some why \<Rightarrow> Some why
       | None \<Rightarrow> if m \<in> P then map_option DeadCandidate (alive_default ?eh m)
                 else if m \<in> S then Some BelowCutoff else Some BelowSpread)"
  proof (cases "map_of ex m")
    case None
    then have mK: "m \<in> ?K" using m by (auto simp: map_of_eq_None_iff)
    have "pl_reasons st1 m = (if m \<in> P then None else pl_reasons st0 m)"
      using reasons_fold_specialist [OF ok0 st1_def, of m] p1 by simp
    moreover have "m \<notin> P \<Longrightarrow> pl_reasons st0 m = Some (if m \<in> S then BelowCutoff else BelowSpread)"
      using mK by (auto simp: P_def st0_def after_cut_def Let_def)
    ultimately show ?thesis using None p1
      by (auto simp: st merge_excluded_reasons ex st2_def reasons_fold_alive split: option.splits)
  qed (simp add: st merge_excluded_reasons ex)
qed

section \<open>The halving cut\<close>

lemma map_slice_to: "map f (slice_to n xs) = slice_to n (map f xs)"
  by (simp add: slice_to_def take_map)

lemma halving_cut_alt:
  assumes "dict_ok scores"
  shows "halving_cut n scores ec lat =
    slice_to n (sort_key (model_key (\<lambda>m. dget scores m 0) ec lat) (map fst scores))"
  unfolding halving_cut_def map_slice_to
proof (rule arg_cong [where f = "slice_to n"], rule map_sort_key)
  fix kv assume "kv \<in> set scores"
  with assms have "dget scores (fst kv) 0 = snd kv" by (intro dget_in) simp_all
  then show "cost_tiebreak_key (fst kv) (snd kv) ec True lat = model_key (\<lambda>m. dget scores m 0) ec lat (fst kv)"
    by (simp add: model_key_def)
qed

lemma halving_cut_facts:
  assumes "dict_ok scores"
  shows "distinct (halving_cut n scores ec lat)" "set (halving_cut n scores ec lat) \<subseteq> fst ` set scores"
    "0 \<le> n \<Longrightarrow> length (halving_cut n scores ec lat) \<le> nat n"
  using assms set_take_sort_key [of _ _ "map fst scores"]
  by (auto simp: halving_cut_alt slice_to_def dict_ok_def)

lemma mem_halving_cut:
  assumes "dict_ok scores" "0 \<le> n"
  shows "m \<in> set (halving_cut n scores ec lat) \<longleftrightarrow> m \<in> fst ` set scores \<and>
    card {x \<in> fst ` set scores. model_key (\<lambda>m. dget scores m 0) ec lat x < model_key (\<lambda>m. dget scores m 0) ec lat m} < nat n"
  using mk.mem_take_iff [of "map fst scores" m "nat n" "\<lambda>m. dget scores m 0" ec lat] assms
  by (simp add: halving_cut_alt slice_to_def dict_ok_def)

section \<open>Properties\<close>

text \<open>The inputs of the decision: the scores past the coverage gate, and the pruner's survivors on them.\<close>

definition gated_scores ::
  "(string, real) dict \<Rightarrow> (string, int) dict option \<Rightarrow> int option \<Rightarrow> real \<Rightarrow> (string, real) dict" where
  "gated_scores scores att n_total cmin = without (coverage_gate scores att n_total cmin) scores"

definition o1_result ::
  "'g randbelow \<Rightarrow> 'g \<Rightarrow> (string, real) dict \<Rightarrow> (string, real) dict \<Rightarrow> (string, elimination_reason) dict
     \<Rightarrow> (string, real list) dict option \<Rightarrow> (string set \<times> (string, real) dict) result" where
  "o1_result rb g sc eff_cost excluded ptu =
     prune_default rb g sc (map_option (filter (\<lambda>kv. map_of sc (fst kv) \<noteq> None)) ptu)
       (without excluded eff_cost)"

lemma o1_returns: "\<exists>S lb. o1_result rb g sc ec ex ptu = Inr (S, lb) \<and> S \<subseteq> fst ` set sc"
proof -
  obtain S lb where r: "o1_result rb g sc ec ex ptu = Inr (S, lb)"
    unfolding o1_result_def prune_default_def using prune_returns [of 1000] by fastforce
  from prune_shape [OF this [unfolded o1_result_def prune_default_def]] have "S \<subseteq> fst ` set sc" by simp
  with r show ?thesis by blast
qed

lemma coverage_gate_ok:
  assumes "dict_ok scores"
  shows "dict_ok (coverage_gate scores att n_total cmin)"
  using assms by (auto simp: coverage_gate_def dict_ok_def comp_def split: option.splits)

lemma gated_disjoint:
  "fst ` set (gated_scores scores att n_total cmin) \<inter> fst ` set (coverage_gate scores att n_total cmin) = {}"
  by (auto simp: gated_scores_def)

text \<open>The three ways through a promotion that returns.\<close>

lemma promote_cases:
  assumes "promote rb g h k scores ec winners att n_total cmin lat ptu = Inr (r, h')"
  obtains
    (empty) "scores = []" "rs_candidates_in r = []" "rs_candidates_out r = []" "rs_eliminated r = {}"
      "rs_eliminated_reasons r = Map.empty" "rs_scores r = []" "h' = h"
  | (degenerate) ex where "scores \<noteq> []" "ex = coverage_gate scores att n_total cmin"
      "gated_scores scores att n_total cmin = []"
      "rs_candidates_in r = map fst ex" "rs_candidates_out r = []" "rs_eliminated r = fst ` set ex"
      "rs_eliminated_reasons r = map_of ex" "rs_scores r = []" "h' = h"
  | (decided) n S lb ex sc st where "scores \<noteq> []" "next_round_size (hv_schedule h) k = Inr n"
      "ex = coverage_gate scores att n_total cmin" "sc = gated_scores scores att n_total cmin" "sc \<noteq> []"
      "o1_result rb g sc ec ex ptu = Inr (S, lb)"
      "st = promote_decide h (k = int (length (hs_round_sizes (hv_schedule h)))) sc winners ex S
              (halving_cut n sc (without ex ec) (map_option (without ex) lat))"
      "rs_candidates_in r = map fst sc @ map fst ex" "rs_candidates_out r = pl_promoted st"
      "rs_eliminated r = pl_eliminated st" "rs_eliminated_reasons r = pl_reasons st"
      "rs_scores r = add_bonus (bonus_of_wins (pl_wins st)) sc"
      "h' = h\<lparr>hv_survivors_by_round := dset k (pl_promoted st) (hv_survivors_by_round h),
              hv_last_eff_cost := without ex ec, hv_last_score_bonus := bonus_of_wins (pl_wins st)\<rparr>"
  using assms
  by (auto simp: promote_def Let_def gated_scores_def o1_result_def split: if_splits sum.splits)

lemma next_round_size_nonneg:
  "schedule_ok s \<Longrightarrow> next_round_size s k = Inr n \<Longrightarrow> 0 \<le> n"
  using schedule_ok_nth [of s "nat k"]
  by (auto simp: next_round_size_def nat_less_iff intro: order_less_imp_le split: if_splits)

text \<open>The facts of a decided promotion that the properties share.\<close>

lemma decided_spec:
  assumes d: "dict_ok scores" "ex = coverage_gate scores att n_total cmin" "sc = gated_scores scores att n_total cmin"
    and st: "st = promote_decide h fin sc winners ex S (halving_cut n sc ec' lat')"
  defines "P \<equiv> set (halving_cut n sc ec' lat') \<inter> S \<union> force_promoted fin sc winners"
  shows "locals_ok (fst ` set sc \<union> fst ` set ex) st"
    and "set (pl_promoted st) = {m \<in> P. alive_default (hv_error_history h) m = None}"
    and "fin \<Longrightarrow> pl_promoted st = filter (\<lambda>m. m \<in> S \<and> alive_default (hv_error_history h) m = None)
           (halving_cut n sc ec' lat')"
    and "m \<in> fst ` set sc \<union> fst ` set ex \<Longrightarrow> pl_reasons st m =
      (case map_of ex m of Some why \<Rightarrow> Some why
       | None \<Rightarrow> if m \<in> P then map_option DeadCandidate (alive_default (hv_error_history h) m)
                 else if m \<in> S then Some BelowCutoff else Some BelowSpread)"
    and "fst ` set sc \<union> fst ` set ex = fst ` set scores"
proof -
  have sc: "dict_ok sc" using d by (simp add: gated_scores_def dict_ok_without)
  have ex: "dict_ok ex" using d coverage_gate_ok by simp
  have dis: "fst ` set sc \<inter> fst ` set ex = {}" using d gated_disjoint by simp
  note spec = promote_decide_spec [OF halving_cut_facts(1,2) [OF sc] ex dis,
      where h = h and fin = fin and winners = winners and S = S, folded st]
  show "locals_ok (fst ` set sc \<union> fst ` set ex) st" by (simp only: st) (rule spec(1))
  show "set (pl_promoted st) = {m \<in> P. alive_default (hv_error_history h) m = None}"
    by (simp only: st P_def) (rule spec(2))
  show "pl_promoted st = filter (\<lambda>m. m \<in> S \<and> alive_default (hv_error_history h) m = None)
      (halving_cut n sc ec' lat')" if "fin"
    by (simp only: st) (rule spec(3) [OF that])
  show "pl_reasons st m =
      (case map_of ex m of Some why \<Rightarrow> Some why
       | None \<Rightarrow> if m \<in> P then map_option DeadCandidate (alive_default (hv_error_history h) m)
                 else if m \<in> S then Some BelowCutoff else Some BelowSpread)"
    if "m \<in> fst ` set sc \<union> fst ` set ex"
    by (simp only: st P_def) (rule spec(4) [OF that])
  show "fst ` set sc \<union> fst ` set ex = fst ` set scores"
    using d coverage_gate_keys [of scores att n_total cmin] by (auto simp: gated_scores_def)
qed

text \<open>
  C2: A promotion accounts for every candidate exactly once: those that came in are the scored models;
  each is either promoted (once) or eliminated, never both, and exactly the eliminated ones have a
  recorded reason.
\<close>

theorem promote_partitions:
  assumes "dict_ok scores"
    "promote rb g h k scores ec winners att n_total cmin lat ptu = Inr (r, h')"
  shows "set (rs_candidates_in r) = fst ` set scores
    \<and> distinct (rs_candidates_out r)
    \<and> set (rs_candidates_out r) \<union> rs_eliminated r = set (rs_candidates_in r)
    \<and> set (rs_candidates_out r) \<inter> rs_eliminated r = {}
    \<and> dom (rs_eliminated_reasons r) = rs_eliminated r"
  using assms(2)
proof (cases rule: promote_cases)
  case empty
  then show ?thesis by simp
next
  case (degenerate ex)
  then have "fst ` set scores - fst ` set ex = {}" by (metis gated_scores_def list.set(1) image_empty without_keys)
  then have "fst ` set ex = fst ` set scores"
    using degenerate(2) coverage_gate_keys [of scores att n_total cmin] by blast
  then show ?thesis using degenerate by (simp add: dom_map_of_conv_image_fst)
next
  case (decided n S lb ex sc st)
  note spec = decided_spec [OF assms(1) decided(3,4,7)]
  show ?thesis using spec(1,5) decided by (simp add: locals_ok_def)
qed

text \<open>
  C1: Who is promoted. A candidate of a decided round is promoted exactly if it passed the coverage gate,
  is alive in the error history, and either survived the statistical prune with fewer than the target
  number of gated candidates ahead of it in the (score, cost, id) order, or won a stage in a round that
  is not the last one.
\<close>

theorem promote_survivors:
  assumes "dict_ok scores" "schedule_ok (hv_schedule h)"
    "promote rb g h k scores ec winners att n_total cmin lat ptu = Inr (r, h')"
    "ex = coverage_gate scores att n_total cmin" "sc = gated_scores scores att n_total cmin"
    "next_round_size (hv_schedule h) k = Inr n" "o1_result rb g sc ec ex ptu = Inr (S, lb)"
    "key = model_key (\<lambda>m. dget sc m 0) (without ex ec) (map_option (without ex) lat)"
  shows "m \<in> set (rs_candidates_out r) \<longleftrightarrow>
    m \<in> fst ` set scores - fst ` set ex \<and> alive_default (hv_error_history h) m = None
    \<and> (m \<in> S \<and> card {x \<in> fst ` set sc. key x < key m} < nat n
       \<or> k \<noteq> int (length (hs_round_sizes (hv_schedule h))) \<and> m \<in> winner_models winners)"
  using assms(3)
proof (cases rule: promote_cases)
  case empty
  then show ?thesis by simp
next
  case (degenerate ex')
  then show ?thesis using assms(4,5) without_keys [of ex scores] by (auto simp: gated_scores_def)
next
  case (decided n' S' lb' ex' sc' st)
  have same: "n' = n" "S' = S" "ex' = ex" "sc' = sc" using decided assms by auto
  note spec = decided_spec [OF assms(1) decided(3,4,7)]
  have "dict_ok sc" "fst ` set sc = fst ` set scores - fst ` set ex" "0 \<le> n"
    using assms by (auto simp: gated_scores_def next_round_size_nonneg)
  note cut = mem_halving_cut [OF this(1,3)] and keys = this(2)
  show ?thesis using decided(9) spec(2) keys
    by (auto simp: same cut assms(8) force_promoted_def)
qed

text \<open>A run on two models, used by the witnesses: too few for the statistical prune to act.\<close>

definition two_scores :: "(string, real) dict" where
  "two_scores = [(''m/a'', 9 / 10), (''m/b'', 1 / 2)]"

definition fresh_halving :: "int list \<Rightarrow> int list \<Rightarrow> halving" where
  "fresh_halving sizes units = \<lparr>hv_schedule = \<lparr>hs_round_sizes = sizes, hs_units_per_arm = units, hs_pool_size = 12\<rparr>,
     hv_survivors_by_round = [], hv_error_history = [], hv_last_eff_cost = [], hv_last_score_bonus = []\<rparr>"

lemma prune_two: "prune_default rb g two_scores u c = Inr ({''m/a'', ''m/b''}, two_scores)"
  by (simp add: prune_default_def mad_bootstrap_prune_def two_scores_def)

lemma ungated: "coverage_gate scores None n_total cmin = []" "without [] d = d"
  by (simp_all add: coverage_gate_def without_def)

lemma promote_two:
  "\<exists>r h'. promote rb g (fresh_halving [2, 1] [4, 4]) 1 two_scores [] (Some [(''s'', ''m/b'')]) None None (7 / 10) None None
     = Inr (r, h')"
  by (simp add: promote_def Let_def fresh_halving_def next_round_size_def ungated prune_two)

theorem promote_partitions_witness:
  "\<exists>r h'. promote counter_rng 0 (fresh_halving [2, 1] [4, 4]) 1 two_scores [] (Some [(''s'', ''m/b'')])
       None None (7 / 10) None None = Inr (r, h')
     \<and> set (rs_candidates_out r) \<union> rs_eliminated r = {''m/a'', ''m/b''}"
proof -
  obtain r h' where r: "promote counter_rng (0::nat) (fresh_halving [2, 1] [4, 4]) 1 two_scores []
      (Some [(''s'', ''m/b'')]) None None (7 / 10) None None = Inr (r, h')"
    using promote_two [where rb = counter_rng and g = 0] by blast
  have "dict_ok two_scores" by (simp add: two_scores_def)
  from promote_partitions [OF this r] r show ?thesis by (auto simp: two_scores_def)
qed

theorem promote_survivors_witness:
  "\<exists>r h'. promote counter_rng 0 (fresh_halving [2, 1] [4, 4]) 1 two_scores [] (Some [(''s'', ''m/b'')])
       None None (7 / 10) None None = Inr (r, h')
     \<and> ''m/b'' \<in> set (rs_candidates_out r)"
proof -
  obtain r h' where r: "promote counter_rng (0::nat) (fresh_halving [2, 1] [4, 4]) 1 two_scores []
      (Some [(''s'', ''m/b'')]) None None (7 / 10) None None = Inr (r, h')"
    using promote_two [where rb = counter_rng and g = 0] by blast
  have d: "dict_ok two_scores" by (simp add: two_scores_def)
  have s: "schedule_ok (hv_schedule (fresh_halving [2, 1] [4, 4]))"
    by (simp add: fresh_halving_def schedule_ok_def)
  have g: "two_scores = gated_scores two_scores None None (7 / 10)"
    by (simp add: gated_scores_def ungated)
  have n: "next_round_size (hv_schedule (fresh_halving [2, 1] [4, 4])) 1 = Inr 1"
    by (simp add: fresh_halving_def next_round_size_def)
  have o: "o1_result counter_rng (0::nat) two_scores [] [] None = Inr ({''m/a'', ''m/b''}, two_scores)"
    by (simp add: o1_result_def prune_two)
  from promote_survivors [OF d s r ungated(1) [symmetric] g n o refl, of "''m/b''"] r show ?thesis
    by (auto simp: two_scores_def fresh_halving_def alive_default_def is_alive_candidate_def winner_models_def)
qed

text \<open>
  The size of the promoted set: at most the target of the schedule plus the number of stage winners,
  and after the last round at most one candidate.
\<close>

theorem promote_size:
  assumes "dict_ok scores" "schedule_ok (hv_schedule h)"
    "promote rb g h k scores ec winners att n_total cmin lat ptu = Inr (r, h')" "scores \<noteq> []"
  shows "\<exists>n. next_round_size (hv_schedule h) k = Inr n
    \<and> length (rs_candidates_out r) \<le> nat n + card (winner_models winners)
    \<and> (k = int (length (hs_round_sizes (hv_schedule h))) \<longrightarrow> length (rs_candidates_out r) \<le> 1)"
  using assms(3)
proof (cases rule: promote_cases)
  case empty
  with assms(4) show ?thesis by simp
next
  case (degenerate ex)
  with assms(3,4) show ?thesis by (auto simp: promote_def split: sum.splits)
next
  case (decided n S lb ex sc st)
  note spec = decided_spec [OF assms(1) decided(3,4,7)]
  let ?cut = "halving_cut n sc (without ex ec) (map_option (without ex) lat)"
  have "dict_ok sc" using decided(4) assms(1) by (simp add: gated_scores_def dict_ok_without)
  moreover have "0 \<le> n" using assms(2) decided(2) by (rule next_round_size_nonneg)
  ultimately have cut: "length ?cut \<le> nat n" by (rule halving_cut_facts(3))
  have fin: "finite (winner_models winners)" by (auto simp: winner_models_def split: option.splits)
  have "length (rs_candidates_out r) = card (set (pl_promoted st))"
    using spec(1) decided(9) by (simp add: locals_ok_def distinct_card)
  also have "\<dots> \<le> card (set ?cut \<union> winner_models winners)"
    using spec(2) fin by (intro card_mono) (auto simp: force_promoted_def split: if_splits)
  also have "\<dots> \<le> card (set ?cut) + card (winner_models winners)" by (rule card_Un_le)
  also have "\<dots> \<le> nat n + card (winner_models winners)" using cut card_length [of ?cut] by linarith
  finally have size: "length (rs_candidates_out r) \<le> nat n + card (winner_models winners)" .
  have "length (rs_candidates_out r) \<le> 1" if last: "k = int (length (hs_round_sizes (hv_schedule h)))"
  proof -
    have "n = 1" using decided(2) last by (simp add: next_round_size_def split: if_splits)
    moreover have "length (rs_candidates_out r) \<le> length ?cut"
      using spec(3) last decided(9) by simp
    ultimately show ?thesis using cut by simp
  qed
  with size decided(2) show ?thesis by blast
qed

theorem promote_size_witness:
  "\<exists>r h'. promote counter_rng 0 (fresh_halving [2, 1] [4, 4]) 1 two_scores [] (Some [(''s'', ''m/b'')])
       None None (7 / 10) None None = Inr (r, h')
     \<and> length (rs_candidates_out r) \<le> 2"
proof -
  obtain r h' where r: "promote counter_rng (0::nat) (fresh_halving [2, 1] [4, 4]) 1 two_scores []
      (Some [(''s'', ''m/b'')]) None None (7 / 10) None None = Inr (r, h')"
    using promote_two [where rb = counter_rng and g = 0] by blast
  have "dict_ok two_scores" "two_scores \<noteq> []" by (simp_all add: two_scores_def)
  moreover have "schedule_ok (hv_schedule (fresh_halving [2, 1] [4, 4]))"
    by (simp add: fresh_halving_def schedule_ok_def)
  ultimately show ?thesis using promote_size [OF _ _ r] r
    by (auto simp: fresh_halving_def next_round_size_def winner_models_def numeral_2_eq_2)
qed

text \<open>
  The reasons. An eliminated candidate is recorded as below coverage if the gate dropped it, else as
  dead if it would have been promoted but for its error history, else as below the spread if the
  statistical prune dropped it, and as below the cutoff otherwise; in that last case the target number
  of gated candidates is ahead of it and each of them scores at least as much.
\<close>

theorem promote_reasons:
  assumes "dict_ok scores" "schedule_ok (hv_schedule h)"
    "promote rb g h k scores ec winners att n_total cmin lat ptu = Inr (r, h')"
    "ex = coverage_gate scores att n_total cmin" "sc = gated_scores scores att n_total cmin" "sc \<noteq> []"
    "next_round_size (hv_schedule h) k = Inr n" "o1_result rb g sc ec ex ptu = Inr (S, lb)"
    "key = model_key (\<lambda>m. dget sc m 0) (without ex ec) (map_option (without ex) lat)"
    "near \<longleftrightarrow> m \<in> S \<and> card {x \<in> fst ` set sc. key x < key m} < nat n
       \<or> k \<noteq> int (length (hs_round_sizes (hv_schedule h))) \<and> m \<in> winner_models winners"
    "m \<in> rs_eliminated r"
  shows "rs_eliminated_reasons r m =
      (case map_of ex m of Some why \<Rightarrow> Some why
       | None \<Rightarrow> if near then map_option DeadCandidate (alive_default (hv_error_history h) m)
                 else if m \<in> S then Some BelowCutoff else Some BelowSpread)
    \<and> (rs_eliminated_reasons r m = Some BelowCutoff \<and> map_of ex m = None \<longrightarrow>
         (\<exists>X \<subseteq> fst ` set sc. card X = nat n \<and> (\<forall>x \<in> X. dget sc m 0 \<le> dget sc x 0)))"
  using assms(3)
proof (cases rule: promote_cases)
  case empty
  with assms(11) show ?thesis by simp
next
  case (degenerate ex')
  with assms(5,6) show ?thesis by simp
next
  case (decided n' S' lb' ex' sc' st)
  have same: "n' = n" "S' = S" "ex' = ex" "sc' = sc" using decided assms by auto
  note spec = decided_spec [OF assms(1) decided(3,4,7), unfolded same]
  have sc: "dict_ok sc" "0 \<le> n" using assms by (auto simp: gated_scores_def next_round_size_nonneg)
  note cut = mem_halving_cut [OF sc]
  let ?before = "{x \<in> fst ` set sc. key x < key m}"
  have m: "m \<in> fst ` set sc \<union> fst ` set ex" "m \<notin> set (pl_promoted st)"
    using spec(1) decided(10) assms(11) by (auto simp: locals_ok_def)
  have gated: "m \<in> fst ` set sc" if "map_of ex m = None"
    using m(1) that by (auto simp: map_of_eq_None_iff)
  have reason: "rs_eliminated_reasons r m = (case map_of ex m of Some why \<Rightarrow> Some why
      | None \<Rightarrow> if near then map_option DeadCandidate (alive_default (hv_error_history h) m)
          else if m \<in> S then Some BelowCutoff else Some BelowSpread)"
    using spec(4) [OF m(1)] gated decided(11) unfolding assms(10)
    by (cases "map_of ex m") (auto simp: cut assms(9) force_promoted_def)
  have "\<exists>X \<subseteq> fst ` set sc. card X = nat n \<and> (\<forall>x \<in> X. dget sc m 0 \<le> dget sc x 0)"
    if "rs_eliminated_reasons r m = Some BelowCutoff" "map_of ex m = None"
  proof -
    have "(if near then map_option DeadCandidate (alive_default (hv_error_history h) m)
        else if m \<in> S then Some BelowCutoff else Some BelowSpread) = Some BelowCutoff"
      using reason unfolding that option.case by (rule sym)
    then have "\<not> near" "m \<in> S"
      by (cases near; cases "m \<in> S"; simp)+
    then have "nat n \<le> card ?before" unfolding assms(10) by linarith
    then obtain X where "X \<subseteq> ?before" "card X = nat n"
      using obtain_subset_with_card_n [of "nat n" ?before] by auto
    moreover have "dget sc m 0 \<le> dget sc x 0" if "key x < key m" for x
      using that model_key_score unfolding assms(9) by (metis order_less_imp_le)
    ultimately show ?thesis by blast
  qed
  with reason show ?thesis by blast
qed

text \<open>A promotion raises exactly for scores of a round outside the schedule.\<close>

lemma promote_raises:
  "(\<exists>e. promote rb g h k scores ec winners att n_total cmin lat ptu = Inl e) \<longleftrightarrow>
     scores \<noteq> [] \<and> (k < 1 \<or> k > int (length (hs_round_sizes (hv_schedule h))))"
proof -
  have "\<exists>S lb. prune_default rb g sc u c = Inr (S, lb)" for sc u c
    unfolding prune_default_def using prune_returns [of 1000] by fastforce
  then have "prune_default rb g sc u c \<noteq> Inl e" for sc u c e by (metis sum.distinct(1))
  then show ?thesis
    by (auto simp: promote_def Let_def next_round_size_def split: sum.splits)
qed

definition stage_wins :: "(string, real) dict \<Rightarrow> (string, string) dict option \<Rightarrow> string \<Rightarrow> nat" where
  "stage_wins sc winners m =
     (if m = [] \<or> m \<notin> fst ` set sc then 0
      else length (filter (\<lambda>sw. snd sw = m) (case winners of None \<Rightarrow> [] | Some w \<Rightarrow> w)))"

lemma wins_fold_specialist:
  "dict_ok (pl_wins st) \<Longrightarrow> dict_ok (pl_wins (fold (specialist_step fin sc) ws st))
   \<and> dget (pl_wins (fold (specialist_step fin sc) ws st)) m 0 = dget (pl_wins st) m 0 + stage_wins sc (Some ws) m"
proof (induction ws arbitrary: st)
  case (Cons x ws)
  have "pl_wins (specialist_step fin sc x st) =
      (if snd x = [] \<or> snd x \<notin> fst ` set sc then pl_wins st else dadd (snd x) 1 (pl_wins st))"
    using map_of_eq_None_iff [of sc "snd x"] by (cases x) (auto simp: specialist_step_def Let_def)
  with Cons show ?case by (auto simp: stage_wins_def dget_dadd)
qed (simp add: stage_wins_def)

lemma wins_fold_alive [simp]: "pl_wins (fold (alive_step eh) ms st) = pl_wins st"
  by (induction ms arbitrary: st) (auto simp: alive_step_def split: option.splits)

lemma wins_promote_decide:
  "dict_ok (pl_wins (promote_decide h fin sc winners ex S cs))"
  "dget (pl_wins (promote_decide h fin sc winners ex S cs)) m 0 = stage_wins sc winners m"
  using wins_fold_specialist [of "after_cut sc S cs" fin sc "case winners of None \<Rightarrow> [] | Some w \<Rightarrow> w" m]
  by (auto simp: promote_decide_def Let_def after_cut_def stage_wins_def dget_def split: option.splits)

lemma bonus_lookup:
  "dict_ok w \<Longrightarrow> map_of (bonus_of_wins w) m = (if 2 \<le> dget w m 0 then Some (1 / 20) else None)"
proof -
  have "map_of (map (\<lambda>(m, _). (m, 1 / 20 :: real)) d) m = map_option (\<lambda>_. 1 / 20) (map_of d m)"
    for d :: "(string, nat) dict"
    using map_of_map [of "\<lambda>_. 1 / 20 :: real" d] by simp
  then show "dict_ok w \<Longrightarrow> ?thesis" unfolding bonus_of_wins_def
    using map_of_Some_filter [of w "\<lambda>(_, n). 2 \<le> n" m]
    by (simp add: dget_def split: option.splits)
qed

text \<open>
  The bonus. The driver hands to the next round a bonus of 0.05 for exactly the gated models that won
  at least two stages, and the scores it reports are the gated scores with that bonus, capped at 1.
\<close>

theorem promote_bonus:
  assumes "promote rb g h k scores ec winners att n_total cmin lat ptu = Inr (r, h')"
    "sc = gated_scores scores att n_total cmin" "sc \<noteq> []"
  shows "map_of (hv_last_score_bonus h') m = (if 2 \<le> stage_wins sc winners m then Some (1 / 20) else None)
    \<and> map_of (rs_scores r) m = map_option (\<lambda>s. min 1 (s + dget (hv_last_score_bonus h') m 0)) (map_of sc m)"
  using assms(1)
proof (cases rule: promote_cases)
  case empty
  with assms(2,3) show ?thesis by (simp add: gated_scores_def without_def)
next
  case (degenerate ex)
  with assms(2,3) show ?thesis by simp
next
  case (decided n S lb ex sc' st)
  have "map_of (add_bonus b sc) m = map_option (\<lambda>s. min 1 (s + dget b m 0)) (map_of sc m)" for b
    by (induction sc) (auto simp: add_bonus_def)
  moreover have "map_of (bonus_of_wins (pl_wins st)) m = (if 2 \<le> stage_wins sc winners m then Some (1 / 20) else None)"
    using decided(4,7) assms(2) by (simp add: bonus_lookup wins_promote_decide)
  ultimately show ?thesis using decided assms(2) by simp
qed

theorem promote_reasons_witness:
  "\<exists>r h'. promote counter_rng 0 (fresh_halving [2, 1] [4, 4]) 1 two_scores [] None None None (7 / 10) None None = Inr (r, h')
     \<and> rs_eliminated_reasons r ''m/b'' = Some BelowCutoff"
proof -
  let ?h = "fresh_halving [2, 1] [4, 4]" and ?key = "model_key (\<lambda>m. dget two_scores m 0) [] None"
  have d: "dict_ok two_scores" "two_scores \<noteq> []" by (simp_all add: two_scores_def)
  have s: "schedule_ok (hv_schedule ?h)" by (simp add: fresh_halving_def schedule_ok_def)
  have g: "two_scores = gated_scores two_scores None None (7 / 10)" by (simp add: gated_scores_def ungated)
  have n: "next_round_size (hv_schedule ?h) 1 = Inr 1" by (simp add: fresh_halving_def next_round_size_def)
  have o: "o1_result counter_rng (0::nat) two_scores [] [] None = Inr ({''m/a'', ''m/b''}, two_scores)"
    by (simp add: o1_result_def prune_two)
  have w: "winner_models None = {}" by (simp add: winner_models_def)
  obtain r h' where r: "promote counter_rng (0::nat) ?h 1 two_scores [] None None None (7 / 10) None None = Inr (r, h')"
    using promote_raises [of counter_rng 0 ?h 1 two_scores "[]" None None None "7 / 10" None None]
    by (cases "promote counter_rng (0::nat) ?h 1 two_scores [] None None None (7 / 10) None None")
       (auto simp: fresh_halving_def)
  have "rs_eliminated r = pl_eliminated (promote_decide ?h False two_scores None [] {''m/a'', ''m/b''}
      (halving_cut 1 two_scores [] None))"
    using r d(2) by (auto simp: promote_def Let_def fresh_halving_def next_round_size_def ungated prune_two)
  also have "halving_cut 1 two_scores [] None = [''m/a'']"
    by (simp add: halving_cut_def slice_to_def two_scores_def cost_tiebreak_key_def)
  also have "pl_eliminated (promote_decide ?h False two_scores None [] {''m/a'', ''m/b''} [''m/a'']) = {''m/b''}"
    by (auto simp: promote_decide_def after_cut_def merge_excluded_def two_scores_def Let_def
        alive_step_def alive_default_def is_alive_candidate_def fresh_halving_def)
  finally have elim: "''m/b'' \<in> rs_eliminated r" by simp
  have "{x \<in> fst ` set two_scores. ?key x < ?key ''m/b''} = {''m/a''}"
    by (auto simp: two_scores_def dget_def model_key_def cost_tiebreak_key_def)
  then have near: "False \<longleftrightarrow> ''m/b'' \<in> {''m/a'', ''m/b''}
      \<and> card {x \<in> fst ` set two_scores. ?key x < ?key ''m/b''} < nat 1
      \<or> 1 \<noteq> int (length (hs_round_sizes (hv_schedule ?h))) \<and> ''m/b'' \<in> winner_models None"
    by (simp add: w)
  have key: "?key = model_key (\<lambda>m. dget two_scores m 0) (without [] []) (map_option (without []) None)"
    by (simp add: ungated)
  from promote_reasons [OF d(1) s r ungated(1) [symmetric] g d(2) n o key near elim]
  have "rs_eliminated_reasons r ''m/b'' = Some BelowCutoff" by (auto simp del: One_nat_def)
  with r show ?thesis by blast
qed

theorem promote_bonus_witness:
  "\<exists>r h'. promote counter_rng 0 (fresh_halving [2, 1] [4, 4]) 1 two_scores []
       (Some [(''s'', ''m/a''), (''t'', ''m/a'')]) None None (7 / 10) None None = Inr (r, h')
     \<and> map_of (hv_last_score_bonus h') ''m/a'' = Some (1 / 20) \<and> map_of (rs_scores r) ''m/a'' = Some (19 / 20)"
proof -
  let ?h = "fresh_halving [2, 1] [4, 4]" and ?w = "Some [(''s'', ''m/a''), (''t'', ''m/a'')]"
  have g: "two_scores = gated_scores two_scores None None (7 / 10)" by (simp add: gated_scores_def ungated)
  have ne: "two_scores \<noteq> []" by (simp add: two_scores_def)
  obtain r h' where r: "promote counter_rng (0::nat) ?h 1 two_scores [] ?w None None (7 / 10) None None = Inr (r, h')"
    using promote_raises [of counter_rng 0 ?h 1 two_scores "[]" ?w None None "7 / 10" None None]
    by (cases "promote counter_rng (0::nat) ?h 1 two_scores [] ?w None None (7 / 10) None None")
       (auto simp: fresh_halving_def)
  from promote_bonus [OF r g ne, of "''m/a''"] r show ?thesis
    by (auto simp: stage_wins_def two_scores_def dget_def)
qed

text \<open>
  The last round can end without a winner although no candidate failed a call: with the default
  pruner the four close and noisy candidates of theory \<open>Mad_Pruner\<close> are all eliminated, the best one too.
\<close>

theorem last_round_without_winner:
  "\<exists>r h'. promote block_rng 0 (fresh_halving [4] [4]) 1 noisy_scores [] None None None (7 / 10) None (Some noisy_units)
     = Inr (r, h') \<and> rs_candidates_out r = [] \<and> rs_eliminated r = set (map fst noisy_scores)"
proof -
  let ?h = "fresh_halving [4] [4]"
  obtain r h' where r: "promote block_rng (0::nat) ?h 1 noisy_scores [] None None None (7 / 10) None (Some noisy_units) = Inr (r, h')"
    using promote_raises [of block_rng 0 ?h 1 noisy_scores "[]" None None None "7 / 10" None "Some noisy_units"]
    by (cases "promote block_rng (0::nat) ?h 1 noisy_scores [] None None None (7 / 10) None (Some noisy_units)")
       (auto simp: fresh_halving_def)
  have d: "dict_ok noisy_scores" by (simp add: noisy_scores_eval)
  have all: "filter (\<lambda>kv. map_of noisy_scores (fst kv) \<noteq> None) noisy_units = noisy_units"
    by (simp add: noisy_units_def noisy_scores_eval map_of_eq_None_iff del: not_None_eq)
  from r show ?thesis
  proof (cases rule: promote_cases)
    case empty
    then show ?thesis by (simp add: noisy_scores_eval)
  next
    case (degenerate ex)
    then show ?thesis by (simp add: gated_scores_def ungated noisy_scores_eval)
  next
    case (decided n S lb ex sc st)
    have ex: "ex = []" "sc = noisy_scores" using decided(3,4) by (simp_all add: ungated gated_scores_def)
    have "S = {}" using decided(6) noisy_prune unfolding o1_result_def ex ungated
      by (simp add: all del: not_None_eq)
    note spec = decided_spec [OF d decided(3,4,7), unfolded ex this]
    have "force_promoted fin noisy_scores None = {}" for fin
      by (simp add: force_promoted_def winner_models_def)
    then have "pl_promoted st = []" using spec(2) by simp
    moreover have "set (pl_promoted st) \<union> pl_eliminated st = fst ` set noisy_scores"
      using spec(1) by (simp add: locals_ok_def)
    ultimately show ?thesis using r decided(9,10) by simp
  qed
qed

end
