(* ===== verification/Storage_Contract.thy ===== *)
theory Storage_Contract
  imports Core_Scoring
begin

text \<open>
  \<open>storage/base.py\<close>: what every backend promises the runner about cached calls and winners, as locales,
  and what the runner may conclude from it. The backends interpret them in their own theories.
\<close>

text \<open>
  \<open>CachedResponse(...)\<close> built from a stored row, with the guard on a missing response
  that all backends share.
\<close>

definition cached_of_row :: "run_row \<Rightarrow> cached_response option" where
  "cached_of_row r =
     (case rr_response r of
        None \<Rightarrow> None
      | Some resp \<Rightarrow> Some \<lparr>cr_composite_hash = rr_composite_hash r, cr_response = resp,
          cr_input_tokens = or0 (rr_input_tokens r), cr_output_tokens = or0 (rr_output_tokens r),
          cr_reasoning_tokens = or0 (rr_reasoning_tokens r), cr_cost_usd = or0 (rr_cost_usd r),
          cr_thinking = rr_thinking r, cr_source_tag = Some (rr_experiment_tag r)\<rparr>)"

abbreviation usable :: "run_row \<Rightarrow> bool" where
  "usable \<equiv> row_usable MIN_USABLE_RESPONSE_LEN"

lemma usable_cached: "usable r \<Longrightarrow> \<exists>c. cached_of_row r = Some c"
  by (auto simp: row_usable_def is_row_usable_iff cached_of_row_def)

lemma cached_of_row_ts [simp]: "cached_of_row (r\<lparr>rr_ts := t\<rparr>) = cached_of_row r"
  by (simp add: cached_of_row_def split: option.splits)

section \<open>The resume cache law\<close>

text \<open>
  Invariants 1, 2 and 4 of the docstring in one equation: a write changes the cached response of its own
  key only, only from absent to present, and only when the row is usable; the tag of the row plays no
  part. \<open>accepts\<close> are the rows for which the backend promises it.
\<close>

definition record_all ::
  "(int \<Rightarrow> run_row \<Rightarrow> 's \<Rightarrow> 's) \<Rightarrow> (int \<times> run_row) list \<Rightarrow> 's \<Rightarrow> 's" where
  "record_all record_row ws s = fold (\<lambda>(now, r). record_row now r) ws s"

lemma record_all_simps [simp]:
  "record_all rec [] s = s" "record_all rec ((now, r) # ws) s = record_all rec ws (rec now r s)"
  by (simp_all add: record_all_def)

locale resume_store =
  fixes record_row :: "int \<Rightarrow> run_row \<Rightarrow> 's \<Rightarrow> 's"
    and cached :: "'s \<Rightarrow> cache_key \<Rightarrow> cached_response option"
    and inv :: "'s \<Rightarrow> bool"
    and accepts :: "run_row \<Rightarrow> bool"
  assumes inv_record: "inv s \<Longrightarrow> accepts r \<Longrightarrow> inv (record_row now r s)"
    and cached_record: "inv s \<Longrightarrow> accepts r \<Longrightarrow> cached (record_row now r s) k =
      (if row_cache_key r = k \<and> cached s k = None \<and> usable r then cached_of_row r else cached s k)"
begin

lemma inv_record_all: "inv s \<Longrightarrow> list_all (\<lambda>(now, r). accepts r) ws \<Longrightarrow> inv (record_all record_row ws s)"
  by (induction ws arbitrary: s) (auto simp: inv_record)

lemma hit_is_stable:
  "inv s \<Longrightarrow> accepts r \<Longrightarrow> cached s k = Some c \<Longrightarrow> cached (record_row now r s) k = Some c"
  by (simp add: cached_record)

lemma first_usable_wins:
  "inv s \<Longrightarrow> list_all (\<lambda>(now, r). accepts r) ws \<Longrightarrow> cached (record_all record_row ws s) k =
     (case cached s k of
        Some c \<Rightarrow> Some c
      | None \<Rightarrow> (case find (\<lambda>r. row_cache_key r = k \<and> usable r) (map snd ws) of
          None \<Rightarrow> None | Some r \<Rightarrow> cached_of_row r))"
proof (induction ws arbitrary: s)
  case Nil
  then show ?case by (simp split: option.splits)
next
  case (Cons w ws)
  obtain now r where w: "w = (now, r)" by fastforce
  with Cons show ?case
    using inv_record [of s r now] cached_record [of s r now k] usable_cached [of r]
    by (auto split: option.splits)
qed

end

text \<open>A backend that can also load the whole cache at once, with the default filter.\<close>

locale prefetch_store = resume_store record_row cached inv accepts
  for record_row :: "int \<Rightarrow> run_row \<Rightarrow> 's \<Rightarrow> 's"
    and cached :: "'s \<Rightarrow> cache_key \<Rightarrow> cached_response option"
    and inv :: "'s \<Rightarrow> bool"
    and accepts :: "run_row \<Rightarrow> bool" +
  fixes prefetch :: "'s \<Rightarrow> (cache_key, cached_response) dict"
  assumes prefetch_cached: "inv s \<Longrightarrow> map_of (prefetch s) k = cached s k"
begin

lemma prefetch_after_writes:
  "inv s \<Longrightarrow> list_all (\<lambda>(now, r). accepts r) ws \<Longrightarrow>
    map_of (prefetch (record_all record_row ws s)) k = cached (record_all record_row ws s) k"
  by (simp add: prefetch_cached inv_record_all)

end

text \<open>Two backends that obey the law cannot be told apart by a reader of the cache.\<close>

locale two_stores =
  a: resume_store record_a cached_a inv_a accepts_a + b: resume_store record_b cached_b inv_b accepts_b
  for record_a :: "int \<Rightarrow> run_row \<Rightarrow> 's \<Rightarrow> 's" and cached_a inv_a accepts_a
    and record_b :: "int \<Rightarrow> run_row \<Rightarrow> 't \<Rightarrow> 't" and cached_b inv_b accepts_b
begin

lemma same_cache:
  assumes "inv_a s" "inv_b t" "cached_a s k = cached_b t k"
    "list_all (\<lambda>(now, r). accepts_a r) ws" "list_all (\<lambda>(now, r). accepts_b r) ws"
  shows "cached_a (record_all record_a ws s) k = cached_b (record_all record_b ws t) k"
  by (simp only: a.first_usable_wins [OF assms(1,4)] b.first_usable_wins [OF assms(2,5)] assms(3))

end

section \<open>The attempts of a key\<close>

text \<open>
  The rows of a key that count: every failed attempt up to the first usable one, nothing after it.
\<close>

fun attempts :: "cache_key \<Rightarrow> run_row list \<Rightarrow> run_row list" where
  "attempts k [] = []"
| "attempts k (r # rs) =
     (if row_cache_key r = k then if usable r then [r] else r # attempts k rs else attempts k rs)"

definition settled :: "cache_key \<Rightarrow> run_row list \<Rightarrow> bool" where
  "settled k rs \<longleftrightarrow> list_ex (\<lambda>r. row_cache_key r = k \<and> usable r) rs"

lemma attempts_snoc:
  "attempts k (rs @ [r]) = attempts k rs @ (if row_cache_key r = k \<and> \<not> settled k rs then [r] else [])"
  by (induction rs) (auto simp: settled_def)

lemma settled_snoc: "settled k (rs @ [r]) \<longleftrightarrow> settled k rs \<or> row_cache_key r = k \<and> usable r"
  by (auto simp: settled_def)

lemma settled_attempts: "settled k rs \<Longrightarrow> attempts k rs \<noteq> []"
  by (induction rs) (auto simp: settled_def)

lemma usable_last_attempt: "attempts k rs \<noteq> [] \<Longrightarrow> usable (last (attempts k rs)) \<longleftrightarrow> settled k rs"
proof (induction rs)
  case (Cons r rs)
  then show ?case using settled_attempts [of k rs] by (auto simp: settled_def split: if_splits)
qed simp

lemma attempts_keys: "r \<in> set (attempts k rs) \<Longrightarrow> row_cache_key r = k \<and> r \<in> set rs"
  by (induction rs) (auto split: if_splits)

section \<open>The winners law\<close>

text \<open>Invariant 5: persisting overwrites the entry of its tag and round and touches no other.\<close>

locale winner_store =
  fixes persist :: "string \<Rightarrow> int \<Rightarrow> winner_set \<Rightarrow> 's \<Rightarrow> 's"
    and load :: "'s \<Rightarrow> string \<Rightarrow> int \<Rightarrow> winner_set option"
    and accepts :: "string \<Rightarrow> bool"
  assumes load_persist: "accepts t \<Longrightarrow> accepts t' \<Longrightarrow> load (persist t k w s) t' k' =
      (if t' = t \<and> k' = k then Some w else load s t' k')"
begin

lemma persist_idempotent:
  "accepts t \<Longrightarrow> accepts t' \<Longrightarrow> load (persist t k w (persist t k v s)) t' k' = load (persist t k w s) t' k'"
  by (simp add: load_persist)

lemma persist_commute:
  assumes "(t, k) \<noteq> (t', k')" "accepts t" "accepts t'" "accepts u"
  shows "load (persist t k v (persist t' k' w s)) u j = load (persist t' k' w (persist t k v s)) u j"
  using assms by (auto simp: load_persist)

end

section \<open>Rows for concrete runs\<close>

lemma sample_simps [simp]:
  "usable (good_row t)" "\<not> usable (failed_row t)"
  "row_cache_key (good_row t) = (''h'', ''p'', ''m'', [])" "row_cache_key (failed_row t) = (''h'', ''p'', ''m'', [])"
  "rr_experiment_tag (good_row t) = t" "rr_experiment_tag (failed_row t) = t"
  "rr_effective_cost_usd (good_row t) = Some 1" "rr_effective_cost_usd (failed_row t) = Some 1"
  by (simp_all add: good_row_def failed_row_def sample_row_def row_usable_def is_row_usable_def
      MIN_USABLE_RESPONSE_LEN_def row_cache_key_def make_cache_key_def)

end
