(* ===== verification/Memory_Storage.thy ===== *)
theory Memory_Storage
  imports Storage_Contract Core_Hashing
begin

text \<open>
  \<open>storage/memory.py\<close>. Each method runs under one lock, so it is one step on the state. Rows and winners
  are immutable values here, so the copies the code makes on reading are the values themselves. The
  clock that stamps a row without a timestamp is the argument \<open>now\<close>; the digest is the parameter
  of theory \<open>Core_Hashing\<close>.
\<close>

record mem_store =
  ms_prompts :: "(string, string \<times> string) dict"
  ms_rows :: "(cache_key, run_row) dict"
  ms_winners :: "(string \<times> int, winner_set) dict"
  ms_initialized :: bool
  ms_closed :: bool

definition mem_new :: mem_store where
  "mem_new = \<lparr>ms_prompts = [], ms_rows = [], ms_winners = [], ms_initialized = False, ms_closed = False\<rparr>"

definition mem_initialize :: "mem_store \<Rightarrow> mem_store" where
  "mem_initialize s = s\<lparr>ms_initialized := True\<rparr>"

definition mem_close :: "mem_store \<Rightarrow> mem_store" where
  "mem_close s = s\<lparr>ms_closed := True\<rparr>"

definition mem_upsert_prompts ::
  "(byte list \<Rightarrow> string) \<Rightarrow> string \<Rightarrow> string \<Rightarrow> mem_store \<Rightarrow> ((string \<times> string \<times> string) \<times> mem_store) result" where
  "mem_upsert_prompts sha system_text user_text s =
     (case prompt_hashes sha system_text user_text of
        Inl e \<Rightarrow> Inl e
      | Inr (sys_h, usr_h, comp_h) \<Rightarrow>
          Inr ((sys_h, usr_h, comp_h),
            if map_of (ms_prompts s) comp_h = None
            then s\<lparr>ms_prompts := dset comp_h (system_text, user_text) (ms_prompts s)\<rparr> else s))"

definition stamp :: "int \<Rightarrow> run_row \<Rightarrow> run_row" where
  "stamp now r = (if rr_ts r = None then r\<lparr>rr_ts := Some now\<rparr> else r)"

definition mem_record_call :: "int \<Rightarrow> run_row \<Rightarrow> mem_store \<Rightarrow> string \<times> mem_store" where
  "mem_record_call now row s =
     (let key = row_cache_key row in
      case map_of (ms_rows s) key of
        Some existing \<Rightarrow>
          if usable existing then (rr_composite_hash row, s)
          else (rr_composite_hash row, s\<lparr>ms_rows := dset key (stamp now row) (ms_rows s)\<rparr>)
      | None \<Rightarrow> (rr_composite_hash row, s\<lparr>ms_rows := dset key (stamp now row) (ms_rows s)\<rparr>))"

definition prefetch_keeps :: "bool \<Rightarrow> int \<Rightarrow> run_row \<Rightarrow> bool" where
  "prefetch_keeps only_successful min_response_len r =
     (if only_successful then row_usable min_response_len r
      else case rr_response r of None \<Rightarrow> False | Some resp \<Rightarrow> \<not> int (length resp) < min_response_len)"

definition mem_prefetch :: "bool \<Rightarrow> int \<Rightarrow> mem_store \<Rightarrow> (cache_key, cached_response) dict" where
  "mem_prefetch only_successful min_response_len s =
     fold (\<lambda>(key, r) out. if prefetch_keeps only_successful min_response_len r
             then (case cached_of_row r of None \<Rightarrow> out | Some c \<Rightarrow> dset key c out) else out) (ms_rows s) []"

definition mem_get_cached :: "mem_store \<Rightarrow> cache_key \<Rightarrow> cached_response option" where
  "mem_get_cached s key =
     (case map_of (ms_rows s) key of
        None \<Rightarrow> None
      | Some r \<Rightarrow> if \<not> usable r then None else cached_of_row r)"

section \<open>Analytics\<close>

definition mem_query_rows :: "string \<Rightarrow> string option \<Rightarrow> mem_store \<Rightarrow> run_row list" where
  "mem_query_rows tag stg s =
     filter (\<lambda>r. rr_experiment_tag r = tag \<and> (case stg of None \<Rightarrow> True | Some g \<Rightarrow> rr_stage r = g))
       (map snd (ms_rows s))"

definition mem_spend_total :: "string \<Rightarrow> mem_store \<Rightarrow> real" where
  "mem_spend_total tag s =
     sum_list (map (\<lambda>r. or0 (rr_effective_cost_usd r))
       (filter (\<lambda>r. rr_experiment_tag r = tag) (map snd (ms_rows s))))"

text \<open>The grouping loop: \<open>out[key(r)] += r.effective_cost_usd or 0.0\<close>.\<close>

definition spend_grouped :: "(run_row \<Rightarrow> string) \<Rightarrow> run_row list \<Rightarrow> (string, real) dict" where
  "spend_grouped key rows = fold (\<lambda>r out. dadd (key r) (or0 (rr_effective_cost_usd r)) out) rows []"

definition mem_spend_by_stage :: "string \<Rightarrow> mem_store \<Rightarrow> (string, real) dict" where
  "mem_spend_by_stage tag s =
     spend_grouped rr_stage (filter (\<lambda>r. rr_experiment_tag r = tag) (map snd (ms_rows s)))"

definition KNOWN_LANGS :: "string list" where
  "KNOWN_LANGS = [''en'', ''es'', ''fr'', ''it'', ''de'', ''ru'', ''ka'', ''pt'', ''ja'', ''zh'',
     ''uk'', ''pl'', ''nl'', ''tr'', ''ar'', ''ko'']"

text \<open>\<open>c.isalpha() and c.islower()\<close> on the code points a char has, Latin-1.\<close>

definition lower_letter :: "char \<Rightarrow> bool" where
  "lower_letter c = (let n = of_char c :: nat in (97 \<le> n \<and> n \<le> 122)
     \<or> n = 0xAA \<or> n = 0xB5 \<or> n = 0xBA \<or> (0xDF \<le> n \<and> n \<le> 0xFF \<and> n \<noteq> 0xF7))"

text \<open>\<open>stage.rpartition("_")\<close> on a stage that has an underscore: the parts around the last one.\<close>

definition rpartition :: "char \<Rightarrow> string \<Rightarrow> string \<times> string" where
  "rpartition c s = (let r = rev s; tl_part = takeWhile (\<lambda>x. x \<noteq> c) r in
     (rev (drop (Suc (length tl_part)) r), rev tl_part))"

definition stage_to_op :: "string \<Rightarrow> string" where
  "stage_to_op stg =
     (if CHR ''_'' \<notin> set stg then stg
      else case rpartition (CHR ''_'') stg of (head, tail) \<Rightarrow>
        if tail \<in> set KNOWN_LANGS \<or> (length tail = 2 \<and> list_all lower_letter tail) then head else stg)"

definition mem_spend_by_op :: "string \<Rightarrow> mem_store \<Rightarrow> (string, real) dict" where
  "mem_spend_by_op tag s =
     spend_grouped (\<lambda>r. stage_to_op (rr_stage r))
       (filter (\<lambda>r. rr_experiment_tag r = tag) (map snd (ms_rows s)))"

section \<open>Winners and deletion\<close>

definition mem_persist_winners :: "string \<Rightarrow> int \<Rightarrow> winner_set \<Rightarrow> mem_store \<Rightarrow> mem_store" where
  "mem_persist_winners tag round_idx w s = s\<lparr>ms_winners := dset (tag, round_idx) w (ms_winners s)\<rparr>"

definition mem_load_winners :: "mem_store \<Rightarrow> string \<Rightarrow> int \<Rightarrow> winner_set option" where
  "mem_load_winners s tag round_idx = map_of (ms_winners s) (tag, round_idx)"

definition mem_delete_experiment :: "string \<Rightarrow> mem_store \<Rightarrow> nat \<times> mem_store" where
  "mem_delete_experiment tag s =
     (let keys_to_drop = map fst (filter (\<lambda>kv. rr_experiment_tag (snd kv) = tag) (ms_rows s)) in
      (length keys_to_drop,
       s\<lparr>ms_rows := filter (\<lambda>(k, r). k \<notin> set keys_to_drop) (ms_rows s),
         ms_winners := filter (\<lambda>kv. fst (fst kv) \<noteq> tag) (ms_winners s)\<rparr>))"

section \<open>The contract\<close>

text \<open>Every row is stored under its own key, and no key twice.\<close>

definition mem_ok :: "mem_store \<Rightarrow> bool" where
  "mem_ok s \<longleftrightarrow> dict_ok (ms_rows s) \<and> list_all (\<lambda>(k, r). row_cache_key r = k) (ms_rows s)"

lemma stamp_simps [simp]:
  "row_cache_key (stamp now r) = row_cache_key r" "row_usable n (stamp now r) = row_usable n r"
  "cached_of_row (stamp now r) = cached_of_row r" "rr_ts (stamp now r) \<noteq> None"
  "rr_experiment_tag (stamp now r) = rr_experiment_tag r"
  "rr_effective_cost_usd (stamp now r) = rr_effective_cost_usd r"
  by (simp_all add: stamp_def)

lemma list_all_dset:
  "list_all P d \<Longrightarrow> P (k, v) \<Longrightarrow> list_all P (dset k v d)"
  by (induction d) auto

lemma mem_new_ok [simp]: "mem_ok mem_new"
  by (simp add: mem_ok_def mem_new_def)

lemma mem_record_ok: "mem_ok s \<Longrightarrow> mem_ok (snd (mem_record_call now row s))"
  by (auto simp: mem_ok_def mem_record_call_def Let_def list_all_dset split: option.splits)

lemma mem_get_record:
  "mem_get_cached (snd (mem_record_call now row s)) k =
     (if row_cache_key row = k \<and> mem_get_cached s k = None \<and> usable row then cached_of_row row
      else mem_get_cached s k)"
  by (auto simp: mem_get_cached_def mem_record_call_def Let_def dest: usable_cached split: option.splits)

lemma map_of_fold_dset_list:
  "dict_ok d \<Longrightarrow> map_of (fold (\<lambda>(k, r) out. case f r of None \<Rightarrow> out | Some c \<Rightarrow> dset k c out) d out) k =
     (case map_of d k of None \<Rightarrow> map_of out k
      | Some r \<Rightarrow> (case f r of None \<Rightarrow> map_of out k | Some c \<Rightarrow> Some c))"
proof (induction d arbitrary: out)
  case (Cons x d)
  obtain j r where x: "x = (j, r)" by fastforce
  with Cons.prems have "dict_ok d" "map_of d j = None" by (auto simp: map_of_eq_None_iff)
  with Cons.IH x show ?case by (auto split: option.splits)
qed simp

lemma map_of_mem_prefetch:
  assumes "mem_ok s"
  shows "map_of (mem_prefetch os n s) k =
    (case map_of (ms_rows s) k of None \<Rightarrow> None
     | Some r \<Rightarrow> if prefetch_keeps os n r then cached_of_row r else None)"
proof -
  let ?f = "\<lambda>r. if prefetch_keeps os n r then cached_of_row r else None"
  have "mem_prefetch os n s =
      fold (\<lambda>(k, r) out. case ?f r of None \<Rightarrow> out | Some c \<Rightarrow> dset k c out) (ms_rows s) []"
    unfolding mem_prefetch_def by (rule fold_cong) (auto split: option.splits)
  with map_of_fold_dset_list [of "ms_rows s" ?f "[]" k] assms show ?thesis
    by (auto simp: mem_ok_def split: option.splits)
qed

interpretation mem: prefetch_store "\<lambda>now r s. snd (mem_record_call now r s)" mem_get_cached mem_ok "\<lambda>_. True"
  "mem_prefetch True MIN_USABLE_RESPONSE_LEN"
proof unfold_locales
  fix s k assume "mem_ok s"
  then show "map_of (mem_prefetch True MIN_USABLE_RESPONSE_LEN s) k = mem_get_cached s k"
    by (simp add: map_of_mem_prefetch mem_get_cached_def prefetch_keeps_def split: option.splits)
qed (simp_all add: mem_record_ok mem_get_record)

interpretation memw: winner_store mem_persist_winners mem_load_winners "\<lambda>_. True"
  by unfold_locales (auto simp: mem_persist_winners_def mem_load_winners_def)

section \<open>Spending\<close>

lemma spend_grouped_lookup:
  "dget (spend_grouped key rows) k 0 =
     sum_list (map (\<lambda>r. or0 (rr_effective_cost_usd r)) (filter (\<lambda>r. key r = k) rows))"
proof -
  have "dget (fold (\<lambda>r out. dadd (key r) (or0 (rr_effective_cost_usd r)) out) rows d) k 0 =
      dget d k 0 + sum_list (map (\<lambda>r. or0 (rr_effective_cost_usd r)) (filter (\<lambda>r. key r = k) rows))" for d
    by (induction rows arbitrary: d) (auto simp: dget_dadd)
  from this [of "[]"] show ?thesis by (simp add: spend_grouped_def dget_def)
qed

lemma spend_grouped_sum:
  "sum_list (map snd (spend_grouped key rows)) = sum_list (map (\<lambda>r. or0 (rr_effective_cost_usd r)) rows)"
proof -
  have "sum_list (map snd (fold (\<lambda>r out. dadd (key r) (or0 (rr_effective_cost_usd r)) out) rows d)) =
      sum_list (map snd d) + sum_list (map (\<lambda>r. or0 (rr_effective_cost_usd r)) rows)" for d
    by (induction rows arbitrary: d) (auto simp: sum_dadd)
  from this [of "[]"] show ?thesis by (simp add: spend_grouped_def)
qed

lemma dict_ok_spend_grouped: "dict_ok (spend_grouped key rows)"
proof -
  have "dict_ok d \<Longrightarrow> dict_ok (fold (\<lambda>r out. dadd (key r) (or0 (rr_effective_cost_usd r)) out) rows d)" for d
    by (induction rows arbitrary: d) auto
  then show ?thesis by (simp add: spend_grouped_def)
qed

text \<open>Grouping by a function of another group's key adds up those groups.\<close>

lemma spend_coarser:
  assumes "\<And>r. coarse r = f (fine r)"
  shows "dget (spend_grouped coarse rows) k 0 =
    sum_list (map snd (filter (\<lambda>(j, v). f j = k) (spend_grouped fine rows)))"
proof -
  have step: "sum_list (map snd (filter (\<lambda>(j, v). f j = k) (dadd j w d))) =
      sum_list (map snd (filter (\<lambda>(j, v). f j = k) d)) + (if f j = k then w else (0::real))" for j w d
  proof -
    have "sum_list (map snd (filter (\<lambda>(j, v). f j = k) (dset j u d))) =
        sum_list (map snd (filter (\<lambda>(j, v). f j = k) d)) + (if f j = k then u - dget d j 0 else 0)" for u
      by (induction d) (auto simp: dget_def split: option.splits)
    then show ?thesis by (simp add: dadd_def)
  qed
  have "sum_list (map snd (filter (\<lambda>(j, v). f j = k)
          (fold (\<lambda>r out. dadd (fine r) (or0 (rr_effective_cost_usd r)) out) rows d))) =
      sum_list (map snd (filter (\<lambda>(j, v). f j = k) d))
      + sum_list (map (\<lambda>r. or0 (rr_effective_cost_usd r)) (filter (\<lambda>r. f (fine r) = k) rows))" for d
    by (induction rows arbitrary: d) (auto simp: step)
  from this [of "[]"] show ?thesis by (simp add: spend_grouped_lookup assms) (simp add: spend_grouped_def)
qed

text \<open>
  The three spend queries of a tag agree: the total is the sum over the stages and the sum over the
  ops, and an op's spend is the sum over the stages that map to it.
\<close>

theorem spend_queries_agree:
  "mem_spend_total tag s = sum_list (map snd (mem_spend_by_stage tag s))
   \<and> mem_spend_total tag s = sum_list (map snd (mem_spend_by_op tag s))
   \<and> dget (mem_spend_by_op tag s) op 0 =
       sum_list (map snd (filter (\<lambda>(stg, v). stage_to_op stg = op) (mem_spend_by_stage tag s)))"
  unfolding mem_spend_total_def mem_spend_by_stage_def mem_spend_by_op_def
  by (intro conjI) (simp_all add: spend_grouped_sum spend_coarser [where f = stage_to_op])

section \<open>Deletion\<close>

text \<open>
  Deleting an experiment reports the number of its rows, after which no row, winner or cached response
  of it is left, while rows, winners and cached responses of every other tag are untouched.
\<close>

theorem memory_delete_is_exact:
  assumes "mem_ok s" "mem_delete_experiment tag s = (n, s')"
  shows "n = length (mem_query_rows tag None s)
    \<and> mem_query_rows tag stg s' = [] \<and> mem_load_winners s' tag k = None
    \<and> (\<forall>t. t \<noteq> tag \<longrightarrow> mem_query_rows t stg s' = mem_query_rows t stg s
         \<and> mem_load_winners s' t k = mem_load_winners s t k)
    \<and> mem_get_cached s' key = (case mem_get_cached s key of None \<Rightarrow> None
         | Some c \<Rightarrow> if cr_source_tag c = Some tag then None else Some c)
    \<and> mem_ok s'"
proof -
  let ?drop = "map fst (filter (\<lambda>kv. rr_experiment_tag (snd kv) = tag) (ms_rows s))"
  have d: "dict_ok (ms_rows s)" using assms(1) by (simp add: mem_ok_def)
  have rows: "ms_rows s' = filter (\<lambda>kv. rr_experiment_tag (snd kv) \<noteq> tag) (ms_rows s)"
    using assms(2) filter_dropped_keys [OF d, of "\<lambda>kv. rr_experiment_tag (snd kv) = tag"]
    by (auto simp: mem_delete_experiment_def Let_def case_prod_beta)
  have win: "ms_winners s' = filter (\<lambda>kv. fst (fst kv) \<noteq> tag) (ms_winners s)" and n: "n = length ?drop"
    using assms(2) by (auto simp: mem_delete_experiment_def Let_def)
  have ok: "mem_ok s'" using assms(1) by (auto simp: mem_ok_def rows list_all_iff)
  have q: "mem_query_rows t stg s' = (if t = tag then [] else mem_query_rows t stg s)" for t stg
    by (auto simp: mem_query_rows_def rows filter_map comp_def case_prod_beta filter_empty_conv intro!: arg_cong [where f = "map snd"] filter_cong)
  have w: "mem_load_winners s' t k = (if t = tag then None else mem_load_winners s t k)" for t
    using map_of_filter_keys [of "\<lambda>wk. fst wk \<noteq> tag" "ms_winners s" "(t, k)"]
    by (simp add: mem_load_winners_def win case_prod_beta)
  have c: "mem_get_cached s' key = (case mem_get_cached s key of None \<Rightarrow> None
      | Some c \<Rightarrow> if cr_source_tag c = Some tag then None else Some c)"
    using map_of_Some_filter [OF d, of "\<lambda>kv. rr_experiment_tag (snd kv) \<noteq> tag" key]
    by (auto simp: mem_get_cached_def rows cached_of_row_def split: option.splits)
  have "n = length (mem_query_rows tag None s)"
    by (simp add: n mem_query_rows_def filter_map comp_def case_prod_beta)
  then show ?thesis using q w c ok by simp
qed

theorem memory_delete_is_exact_witness:
  "\<exists>n s'. mem_delete_experiment ''t'' mem_new = (n, s') \<and> n = 0 \<and> mem_ok s'"
proof -
  obtain n s' where r: "mem_delete_experiment ''t'' mem_new = (n, s')" by fastforce
  from memory_delete_is_exact [OF mem_new_ok r, of None 1 "(''h'', ''p'', ''m'', [])"] r show ?thesis
    by (auto simp: mem_new_def mem_query_rows_def)
qed

section \<open>Prompts\<close>

text \<open>
  Recording a prompt pair is idempotent and never rewrites a stored text: the second recording of the
  same pair returns the same three hashes and leaves the store alone, and recording another pair
  changes no stored entry. The hashes do not depend on the store.
\<close>

theorem prompts_are_write_once:
  assumes "mem_upsert_prompts sha system_text user_text s = Inr (hs, s')"
  shows "mem_upsert_prompts sha system_text user_text s' = Inr (hs, s')
    \<and> prompt_hashes sha system_text user_text = Inr hs
    \<and> (\<forall>h texts. map_of (ms_prompts s) h = Some texts \<longrightarrow> map_of (ms_prompts s') h = Some texts)
    \<and> map_of (ms_prompts s') (snd (snd hs)) \<noteq> None
    \<and> ms_rows s' = ms_rows s \<and> ms_winners s' = ms_winners s"
  using assms by (auto simp: mem_upsert_prompts_def split: sum.splits prod.splits if_splits)

theorem prompts_are_write_once_witness:
  "\<exists>hs s'. mem_upsert_prompts sha_chars ''a'' ''b'' mem_new = Inr (hs, s')
     \<and> mem_upsert_prompts sha_chars ''a'' ''b'' s' = Inr (hs, s')"
proof (cases "mem_upsert_prompts sha_chars ''a'' ''b'' mem_new")
  case (Inl e)
  have "length (utf8 ''a'') < 256 ^ 8" by (simp add: utf8_def utf8_char_def)
  with Inl show ?thesis
    by (simp add: mem_upsert_prompts_def prompt_hashes_def composite_hash_def composite_preimage_def
        to_bytes_big_def Let_def split: sum.splits prod.splits if_splits)
next
  case (Inr p)
  then show ?thesis
    using prompts_are_write_once [of sha_chars "''a''" "''b''" mem_new "fst p" "snd p"] by (cases p) auto
qed

end
