(* ===== verification/File_Storage.thy ===== *)
theory File_Storage
  imports Memory_Storage
begin

text \<open>
  \<open>storage/file.py\<close>: append-only result files per experiment tag and a SQLite index of the usable
  rows. Paths are lists of components below the storage root. A result file holds the rows themselves:
  the JSON text of a row is written by \<open>orjson\<close> and read back by it, which is taken to be exact. The
  index is a dictionary with the table's primary key. I/O failures, lock contention with
  other processes and symbolic links are left out here, and so is a tag named like the prompts file.
  Methods return their value or the exception together with the new state, because an operation can
  raise after \<open>initialize\<close> has run.
\<close>

record index_row =
  ix_response :: string
  ix_input_tokens :: int
  ix_output_tokens :: int
  ix_reasoning_tokens :: int
  ix_cost_usd :: real
  ix_error_class :: "string option"
  ix_source_tag :: string

record prompt_entry =
  pe_composite_hash :: string
  pe_system_hash :: string
  pe_user_hash :: string
  pe_system_text :: string
  pe_user_text :: string

type_synonym path = "string list"

record file_store =
  fs_prompts_file :: "prompt_entry list"
  fs_prompts_index :: "string set"
  fs_results :: "(path, run_row list) dict"
  fs_winners :: "(path \<times> int, winner_set) dict"
  fs_index :: "(cache_key, index_row) dict"
  fs_initialized :: bool

definition file_new :: file_store where
  "file_new = \<lparr>fs_prompts_file = [], fs_prompts_index = {}, fs_results = [], fs_winners = [],
     fs_index = [], fs_initialized = False\<rparr>"

definition file_initialize :: "file_store \<Rightarrow> file_store" where
  "file_initialize s = s\<lparr>fs_initialized := True\<rparr>"

definition file_close :: "file_store \<Rightarrow> file_store" where
  "file_close s = s\<lparr>fs_initialized := False\<rparr>"

text \<open>
  \<open>(root / tag).resolve()\<close> and \<open>is_relative_to(root)\<close>: a tag in the allowed alphabet has no separator,
  so only the two special names resolve to something else than the directory of that name; \<open>None\<close> is a
  path outside the root.
\<close>

definition resolve_under_root :: "string \<Rightarrow> path option" where
  "resolve_under_root t = (if t = ''..'' then None else if t = ''.'' then Some [] else Some [t])"

definition tag_dir :: "string \<Rightarrow> path result" where
  "tag_dir t =
     (case validate_experiment_tag t of
        Inl e \<Rightarrow> Inl e
      | Inr _ \<Rightarrow> case resolve_under_root t of None \<Rightarrow> Inl ValueError | Some p \<Rightarrow> Inr p)"

definition file_upsert_prompts ::
  "(byte list \<Rightarrow> string) \<Rightarrow> string \<Rightarrow> string \<Rightarrow> file_store \<Rightarrow> (string \<times> string \<times> string) result \<times> file_store" where
  "file_upsert_prompts sha system_text user_text s =
     (case prompt_hashes sha system_text user_text of
        Inl e \<Rightarrow> (Inl e, s)
      | Inr (sys_h, usr_h, comp_h) \<Rightarrow>
          let s1 = file_initialize s in
          if comp_h \<in> fs_prompts_index s1 then (Inr (sys_h, usr_h, comp_h), s1)
          else (Inr (sys_h, usr_h, comp_h),
            s1\<lparr>fs_prompts_file := fs_prompts_file s1 @
                 [\<lparr>pe_composite_hash = comp_h, pe_system_hash = sys_h, pe_user_hash = usr_h,
                   pe_system_text = system_text, pe_user_text = user_text\<rparr>],
               fs_prompts_index := insert comp_h (fs_prompts_index s1)\<rparr>))"

section \<open>Rows\<close>

definition index_row_of :: "run_row \<Rightarrow> string \<Rightarrow> index_row" where
  "index_row_of r resp =
     \<lparr>ix_response = resp, ix_input_tokens = or0 (rr_input_tokens r), ix_output_tokens = or0 (rr_output_tokens r),
      ix_reasoning_tokens = or0 (rr_reasoning_tokens r), ix_cost_usd = or0 (rr_cost_usd r),
      ix_error_class = rr_error_class r, ix_source_tag = rr_experiment_tag r\<rparr>"

text \<open>
  \<open>INSERT OR IGNORE\<close>: the conflict on the primary key is ruled out by the preceding \<open>SELECT\<close>; the missing
  response of the \<open>NOT NULL\<close> column by the usability test.
\<close>

definition index_insert :: "run_row \<Rightarrow> (cache_key, index_row) dict \<Rightarrow> (cache_key, index_row) dict" where
  "index_insert r ix =
     (case rr_response r of
        None \<Rightarrow> ix
      | Some resp \<Rightarrow> if map_of ix (row_cache_key r) = None
          then dset (row_cache_key r) (index_row_of r resp) ix else ix)"

definition file_record_call :: "int \<Rightarrow> run_row \<Rightarrow> file_store \<Rightarrow> string result \<times> file_store" where
  "file_record_call now row0 s0 =
     (let s = file_initialize s0; row = stamp now row0 in
      case tag_dir (rr_experiment_tag row) of
        Inl e \<Rightarrow> (Inl e, s)
      | Inr dir \<Rightarrow>
          if map_of (fs_index s) (row_cache_key row) \<noteq> None then (Inr (rr_composite_hash row), s)
          else
            let s1 = s\<lparr>fs_results := dappend dir row (fs_results s)\<rparr>
            in (Inr (rr_composite_hash row),
                if usable row then s1\<lparr>fs_index := index_insert row (fs_index s1)\<rparr> else s1))"

definition cached_of_index :: "cache_key \<Rightarrow> index_row \<Rightarrow> cached_response" where
  "cached_of_index k ix =
     (case k of (ch, pv, md, th) \<Rightarrow>
        \<lparr>cr_composite_hash = ch, cr_response = ix_response ix, cr_input_tokens = ix_input_tokens ix,
         cr_output_tokens = ix_output_tokens ix, cr_reasoning_tokens = ix_reasoning_tokens ix,
         cr_cost_usd = ix_cost_usd ix, cr_thinking = th, cr_source_tag = Some (ix_source_tag ix)\<rparr>)"

definition file_prefetch :: "bool \<Rightarrow> int \<Rightarrow> file_store \<Rightarrow> (cache_key, cached_response) dict \<times> file_store" where
  "file_prefetch only_successful min_response_len s0 =
     (let s = file_initialize s0 in
      (fold (\<lambda>(k, ix) out.
          if (if only_successful
              then is_row_usable (Some (ix_response ix)) (ix_error_class ix) None min_response_len
              else \<not> int (length (ix_response ix)) < min_response_len)
          then dset k (cached_of_index k ix) out else out) (fs_index s) [], s))"

definition file_get_cached :: "file_store \<Rightarrow> cache_key \<Rightarrow> cached_response option" where
  "file_get_cached s k =
     (case map_of (fs_index (file_initialize s)) k of
        None \<Rightarrow> None
      | Some ix \<Rightarrow>
          if \<not> is_row_usable (Some (ix_response ix)) (ix_error_class ix) None MIN_USABLE_RESPONSE_LEN
          then None else Some (cached_of_index k ix))"

text \<open>The read of a result file: a later line of the same key replaces an earlier one.\<close>

definition last_wins :: "string option \<Rightarrow> run_row list \<Rightarrow> (cache_key, run_row) dict" where
  "last_wins stg rows =
     fold (\<lambda>r by_key. case stg of
         Some g \<Rightarrow> if rr_stage r \<noteq> g then by_key else dset (row_cache_key r) r by_key
       | None \<Rightarrow> dset (row_cache_key r) r by_key) rows []"

definition file_query_rows :: "string \<Rightarrow> string option \<Rightarrow> file_store \<Rightarrow> run_row list result" where
  "file_query_rows tag stg s =
     (case tag_dir tag of
        Inl e \<Rightarrow> Inl e
      | Inr dir \<Rightarrow> Inr (map snd (last_wins stg (dget (fs_results s) dir []))))"

definition file_spend_total :: "string \<Rightarrow> file_store \<Rightarrow> real result" where
  "file_spend_total tag s =
     (case file_query_rows tag None s of
        Inl e \<Rightarrow> Inl e
      | Inr rows \<Rightarrow> Inr (fold (\<lambda>r t. t + or0 (rr_effective_cost_usd r)) rows 0))"

definition file_spend_grouped :: "string \<Rightarrow> (run_row \<Rightarrow> string) \<Rightarrow> file_store \<Rightarrow> (string, real) dict result" where
  "file_spend_grouped tag key_fn s =
     (case file_query_rows tag None s of Inl e \<Rightarrow> Inl e | Inr rows \<Rightarrow> Inr (spend_grouped key_fn rows))"

definition file_spend_by_stage :: "string \<Rightarrow> file_store \<Rightarrow> (string, real) dict result" where
  "file_spend_by_stage tag s = file_spend_grouped tag rr_stage s"

definition file_spend_by_op :: "string \<Rightarrow> file_store \<Rightarrow> (string, real) dict result" where
  "file_spend_by_op tag s = file_spend_grouped tag (\<lambda>r. stage_to_op (rr_stage r)) s"

section \<open>Winners and deletion\<close>

definition file_persist_winners :: "string \<Rightarrow> int \<Rightarrow> winner_set \<Rightarrow> file_store \<Rightarrow> unit result \<times> file_store" where
  "file_persist_winners tag round_idx w s0 =
     (let s = file_initialize s0 in
      case tag_dir tag of
        Inl e \<Rightarrow> (Inl e, s)
      | Inr dir \<Rightarrow> (Inr (), s\<lparr>fs_winners := dset (dir, round_idx) w (fs_winners s)\<rparr>))"

definition file_load_winners :: "file_store \<Rightarrow> string \<Rightarrow> int \<Rightarrow> winner_set option result" where
  "file_load_winners s tag round_idx =
     (case tag_dir tag of Inl e \<Rightarrow> Inl e | Inr dir \<Rightarrow> Inr (map_of (fs_winners s) (dir, round_idx)))"

text \<open>\<open>shutil.rmtree\<close>: everything below the directory goes.\<close>

definition below :: "path \<Rightarrow> path \<Rightarrow> bool" where
  "below p q \<longleftrightarrow> take (length p) q = p"

definition rmtree :: "path \<Rightarrow> file_store \<Rightarrow> file_store" where
  "rmtree p s = s\<lparr>
     fs_results := filter (\<lambda>kv. \<not> below p (fst kv)) (fs_results s),
     fs_winners := filter (\<lambda>kv. \<not> below p (fst (fst kv))) (fs_winners s),
     fs_prompts_file := (if p = [] then [] else fs_prompts_file s)\<rparr>"

definition file_delete_experiment :: "string \<Rightarrow> file_store \<Rightarrow> nat result \<times> file_store" where
  "file_delete_experiment tag s0 =
     (let s = file_initialize s0 in
      case tag_dir tag of
        Inl e \<Rightarrow> (Inl e, s)
      | Inr dir \<Rightarrow>
          (case file_query_rows tag None s of
             Inl e \<Rightarrow> (Inl e, s)
           | Inr rows \<Rightarrow>
               (Inr (length rows),
                rmtree dir (s\<lparr>fs_index := filter (\<lambda>kv. ix_source_tag (snd kv) \<noteq> tag) (fs_index s)\<rparr>))))"

section \<open>The contract\<close>

definition tag_accepted :: "string \<Rightarrow> bool" where
  "tag_accepted t \<longleftrightarrow> tag_matches t \<and> t \<noteq> ''..''"

lemma tag_dir_Inr: "tag_dir t = Inr p \<longleftrightarrow> tag_accepted t \<and> p = (if t = ''.'' then [] else [t])"
  by (auto simp: tag_dir_def tag_accepted_def resolve_under_root_def validate_experiment_tag_def)

lemma tag_dir_Inl: "tag_dir t = Inl e \<longleftrightarrow> \<not> tag_accepted t \<and> e = ValueError"
  by (auto simp: tag_dir_def tag_accepted_def resolve_under_root_def validate_experiment_tag_def)

lemma tag_dir_cases:
  obtains (refused) "\<not> tag_accepted t" "tag_dir t = Inl ValueError"
  | (accepted) "tag_accepted t" "tag_dir t = Inr (if t = ''.'' then [] else [t])"
  by (cases "tag_accepted t") (simp_all add: tag_dir_Inl tag_dir_Inr)

definition index_ok :: "index_row \<Rightarrow> bool" where
  "index_ok ix \<longleftrightarrow> is_row_usable (Some (ix_response ix)) (ix_error_class ix) None MIN_USABLE_RESPONSE_LEN"

definition file_ok :: "file_store \<Rightarrow> bool" where
  "file_ok s \<longleftrightarrow> dict_ok (fs_index s) \<and> list_all (\<lambda>(k, ix). index_ok ix) (fs_index s)"

lemma file_initialize_simps [simp]:
  "fs_index (file_initialize s) = fs_index s" "fs_results (file_initialize s) = fs_results s"
  "fs_winners (file_initialize s) = fs_winners s" "fs_prompts_file (file_initialize s) = fs_prompts_file s"
  "fs_prompts_index (file_initialize s) = fs_prompts_index s"
  by (simp_all add: file_initialize_def)

lemma stamp_fields [simp]:
  "rr_composite_hash (stamp now r) = rr_composite_hash r" "rr_response (stamp now r) = rr_response r"
  by (simp_all add: stamp_def)

lemma index_row_of_stamp [simp]: "index_row_of (stamp now r) resp = index_row_of r resp"
  by (simp add: stamp_def index_row_of_def)

lemma index_insert_stamp [simp]: "index_insert (stamp now r) ix = index_insert r ix"
  by (auto simp: index_insert_def split: option.splits)

lemma index_ok_usable: "usable r \<Longrightarrow> rr_response r = Some resp \<Longrightarrow> index_ok (index_row_of r resp)"
  by (simp add: index_ok_def index_row_of_def row_usable_def is_row_usable_iff)

lemma file_record_index:
  "fs_index (snd (file_record_call now r s)) =
     (if tag_accepted (rr_experiment_tag r) \<and> usable r then index_insert r (fs_index s) else fs_index s)"
  by (rule tag_dir_cases [of "rr_experiment_tag r"])
     (auto simp: file_record_call_def Let_def index_insert_def split: option.splits)

lemma file_record_ok:
  assumes "file_ok s"
  shows "file_ok (snd (file_record_call now r s))"
proof -
  have "usable r \<Longrightarrow> dict_ok (index_insert r (fs_index s)) \<and> list_all (\<lambda>(k, ix). index_ok ix) (index_insert r (fs_index s))"
    using assms by (auto simp: file_ok_def index_insert_def index_ok_usable list_all_dset split: option.splits)
  then show ?thesis using assms by (simp add: file_ok_def file_record_index)
qed

lemma file_get_index:
  assumes "file_ok s"
  shows "file_get_cached s k = map_option (cached_of_index k) (map_of (fs_index s) k)"
proof -
  have "index_ok ix" if "map_of (fs_index s) k = Some ix" for ix
    using assms that by (auto simp: file_ok_def list_all_iff dest: map_of_SomeD)
  then show ?thesis by (auto simp: file_get_cached_def index_ok_def split: option.splits)
qed

lemma cached_of_index_row:
  "rr_response r = Some resp \<Longrightarrow> cached_of_row r = Some (cached_of_index (row_cache_key r) (index_row_of r resp))"
  by (simp add: cached_of_row_def cached_of_index_def index_row_of_def row_cache_key_def make_cache_key_def)

lemma file_get_record:
  assumes "file_ok s"
  shows "file_get_cached (snd (file_record_call now r s)) k =
    (if tag_accepted (rr_experiment_tag r) \<and> row_cache_key r = k \<and> file_get_cached s k = None \<and> usable r
     then cached_of_row r else file_get_cached s k)"
proof -
  obtain resp where "usable r \<Longrightarrow> rr_response r = Some resp"
    by (auto simp: row_usable_def is_row_usable_iff)
  then show ?thesis
    by (auto simp: file_get_index assms file_record_ok file_record_index index_insert_def cached_of_index_row
        split: option.splits)
qed

interpretation fstore: prefetch_store "\<lambda>now r s. snd (file_record_call now r s)" file_get_cached file_ok
  "\<lambda>r. tag_accepted (rr_experiment_tag r)" "\<lambda>s. fst (file_prefetch True MIN_USABLE_RESPONSE_LEN s)"
proof unfold_locales
  fix s k assume ok: "file_ok s"
  have keep: "fold (\<lambda>(k, ix) out. if is_row_usable (Some (ix_response ix)) (ix_error_class ix) None MIN_USABLE_RESPONSE_LEN
          then dset k (cached_of_index k ix) out else out) d out =
      fold (\<lambda>(k, ix) out. dset k (cached_of_index k ix) out) d out"
    if "list_all (\<lambda>(k, ix). index_ok ix) d" for d out
    using that by (induction d arbitrary: out) (auto simp: index_ok_def)
  have look: "map_of (fold (\<lambda>(k, ix) out. dset k (cached_of_index k ix) out) d out) k =
      (case map_of d k of None \<Rightarrow> map_of out k | Some ix \<Rightarrow> Some (cached_of_index k ix))" if "dict_ok d" for d out
    using that
  proof (induction d arbitrary: out)
    case (Cons x d)
    then have "map_of d (fst x) = None" by (auto simp: map_of_eq_None_iff)
    with Cons show ?case by (cases x) (auto split: option.splits)
  qed simp
  have "fst (file_prefetch True MIN_USABLE_RESPONSE_LEN s) =
      fold (\<lambda>(k, ix) out. dset k (cached_of_index k ix) out) (fs_index s) []"
    using ok keep [of "fs_index s" "[]"] by (simp add: file_prefetch_def file_ok_def Let_def)
  then show "map_of (fst (file_prefetch True MIN_USABLE_RESPONSE_LEN s)) k = file_get_cached s k"
    using ok look [of "fs_index s" "[]"] by (simp add: file_get_index file_ok_def split: option.splits)
qed (simp_all add: file_record_ok file_get_record)

interpretation mem_file: two_stores "\<lambda>now r s. snd (mem_record_call now r s)" mem_get_cached mem_ok "\<lambda>_. True"
  "\<lambda>now r s. snd (file_record_call now r s)" file_get_cached file_ok "\<lambda>r. tag_accepted (rr_experiment_tag r)"
  by unfold_locales

interpretation filew: winner_store "\<lambda>t k w s. snd (file_persist_winners t k w s)"
  "\<lambda>s t k. case file_load_winners s t k of Inr w \<Rightarrow> w | Inl e \<Rightarrow> None" tag_accepted
proof unfold_locales
  fix t t' k k' w s
  assume "tag_accepted t" "tag_accepted t'"
  then have "tag_dir t = Inr (if t = ''.'' then [] else [t])" "tag_dir t' = Inr (if t' = ''.'' then [] else [t'])"
    by (simp_all add: tag_dir_Inr)
  then show "(case file_load_winners (snd (file_persist_winners t k w s)) t' k' of Inr w \<Rightarrow> w | Inl e \<Rightarrow> None) =
      (if t' = t \<and> k' = k then Some w else (case file_load_winners s t' k' of Inr w \<Rightarrow> w | Inl e \<Rightarrow> None))"
    by (auto simp: file_persist_winners_def file_load_winners_def Let_def)
qed

section \<open>What a row listing shows\<close>

text \<open>
  Runs from an empty store, on rows the file backend accepts. The result file of a tag holds, per key, the
  counted attempts under that tag, in order.
\<close>

definition file_run :: "(int \<times> run_row) list \<Rightarrow> file_store" where
  "file_run ws = record_all (\<lambda>now r s. snd (file_record_call now r s)) ws file_new"

definition mem_run :: "(int \<times> run_row) list \<Rightarrow> mem_store" where
  "mem_run ws = record_all (\<lambda>now r s. snd (mem_record_call now r s)) ws mem_new"

lemma run_snoc:
  "file_run (ws @ [(now, r)]) = snd (file_record_call now r (file_run ws))"
  "mem_run (ws @ [(now, r)]) = snd (mem_record_call now r (mem_run ws))"
  by (simp_all add: file_run_def mem_run_def record_all_def)

lemma file_new_ok [simp]: "file_ok file_new"
  by (simp add: file_ok_def file_new_def)

lemma file_run_ok [simp]: "file_ok (file_run ws)"
proof (induction ws rule: rev_induct)
  case (snoc w ws)
  then show ?case by (cases w) (simp add: run_snoc file_record_ok)
qed (simp add: file_run_def)

lemma mem_run_ok [simp]: "mem_ok (mem_run ws)"
  unfolding mem_run_def by (rule mem.inv_record_all) (simp_all add: list_all_iff)

definition all_accepted :: "(int \<times> run_row) list \<Rightarrow> bool" where
  "all_accepted ws = list_all (\<lambda>(now, r). tag_accepted (rr_experiment_tag r)) ws"

lemma map_of_index_insert:
  "usable r \<Longrightarrow> map_of (index_insert r ix) k \<noteq> None \<longleftrightarrow> map_of ix k \<noteq> None \<or> row_cache_key r = k"
  by (auto simp: index_insert_def row_usable_def is_row_usable_iff split: option.splits)

lemma file_run_settled:
  "all_accepted ws \<Longrightarrow> map_of (fs_index (file_run ws)) k \<noteq> None \<longleftrightarrow> settled k (map snd ws)"
proof (induction ws rule: rev_induct)
  case Nil
  then show ?case by (simp add: file_run_def file_new_def settled_def)
next
  case (snoc w ws)
  obtain now r where w: "w = (now, r)" by fastforce
  with snoc have acc: "tag_accepted (rr_experiment_tag r)" "all_accepted ws" by (simp_all add: all_accepted_def)
  show ?case
    using snoc.IH [OF acc(2)] acc(1) map_of_index_insert [of r "fs_index (file_run ws)" k]
    by (cases "usable r") (simp_all add: w run_snoc file_record_index settled_snoc del: not_None_eq)
qed

lemma last_wins_snoc:
  "last_wins None (rs @ [r]) = dset (row_cache_key r) r (last_wins None rs)"
  by (simp add: last_wins_def)

lemma last_wins_lookup:
  "map_of (last_wins None rs) k =
     (let hits = filter (\<lambda>r. row_cache_key r = k) rs in if hits = [] then None else Some (last hits))"
proof (induction rs rule: rev_induct)
  case Nil
  then show ?case by (simp add: last_wins_def)
next
  case (snoc r rs)
  then show ?case by (simp add: last_wins_snoc Let_def)
qed

definition unstamp :: "run_row \<Rightarrow> run_row" where
  "unstamp r = r\<lparr>rr_ts := None\<rparr>"

lemma unstamp_stamp [simp]: "unstamp (stamp now r) = unstamp r"
  by (simp add: unstamp_def stamp_def)

lemma file_results_run:
  assumes "all_accepted ws" "tag_dir t = Inr dir"
  shows "map unstamp (filter (\<lambda>r. row_cache_key r = k) (dget (fs_results (file_run ws)) dir []))
    = map unstamp (filter (\<lambda>r. rr_experiment_tag r = t) (attempts k (map snd ws)))"
  using assms(1)
proof (induction ws rule: rev_induct)
  case Nil
  then show ?case by (simp add: file_run_def file_new_def dget_def)
next
  case (snoc w ws)
  obtain now r where w: "w = (now, r)" by fastforce
  with snoc have acc: "tag_accepted (rr_experiment_tag r)" "all_accepted ws" by (simp_all add: all_accepted_def)
  let ?d = "if rr_experiment_tag r = ''.'' then [] else [rr_experiment_tag r]"
  have dir: "tag_dir (rr_experiment_tag r) = Inr ?d" using acc(1) by (simp add: tag_dir_Inr)
  have same: "dir = ?d \<longleftrightarrow> rr_experiment_tag r = t" using assms(2) by (auto simp: tag_dir_Inr)
  have res: "fs_results (file_run (ws @ [(now, r)])) =
      (if settled (row_cache_key r) (map snd ws) then fs_results (file_run ws)
       else dappend ?d (stamp now r) (fs_results (file_run ws)))"
    using file_run_settled [OF acc(2), of "row_cache_key r"] dir
    by (auto simp: w run_snoc file_record_call_def Let_def)
  show ?case using snoc.IH [OF acc(2)] same
    by (auto simp: res w attempts_snoc dget_dappend)
qed

lemma keyed_rows_filter:
  assumes "dict_ok d" "list_all (\<lambda>(k, r). row_cache_key r = k) d"
  shows "filter (\<lambda>r. row_cache_key r = k) (map snd d) = (case map_of d k of None \<Rightarrow> [] | Some r \<Rightarrow> [r])"
  using assms
proof (induction d)
  case (Cons x d)
  then have "map_of d (fst x) = None" by (auto simp: map_of_eq_None_iff)
  with Cons show ?case by (cases x) (auto split: option.splits)
qed simp

lemma last_wins_keyed: "dict_ok (last_wins None rs) \<and> list_all (\<lambda>(k, r). row_cache_key r = k) (last_wins None rs)"
proof (induction rs rule: rev_induct)
  case Nil
  then show ?case by (simp add: last_wins_def)
next
  case (snoc r rs)
  then show ?case by (simp add: last_wins_snoc list_all_dset)
qed

lemma mem_run_rows:
  "map_option unstamp (map_of (ms_rows (mem_run ws)) k) =
     (if attempts k (map snd ws) = [] then None else Some (unstamp (last (attempts k (map snd ws)))))"
proof (induction ws rule: rev_induct)
  case Nil
  then show ?case by (simp add: mem_run_def mem_new_def)
next
  case (snoc w ws)
  obtain now r where w: "w = (now, r)" by fastforce
  let ?a = "attempts k (map snd ws)"
  have us: "usable (unstamp x) = usable x" for x by (simp add: unstamp_def)
  have u: "usable x \<longleftrightarrow> settled k (map snd ws)" if "map_of (ms_rows (mem_run ws)) k = Some x" for x
  proof -
    from snoc.IH that have "?a \<noteq> []" "unstamp x = unstamp (last ?a)" by (auto split: if_splits)
    then show ?thesis using usable_last_attempt [of k "map snd ws"] us by metis
  qed
  have none: "?a = [] \<longleftrightarrow> map_of (ms_rows (mem_run ws)) k = None" using snoc.IH by (auto split: if_splits)
  then have ns: "\<not> settled k (map snd ws)" if "map_of (ms_rows (mem_run ws)) k = None"
    using that settled_attempts [of k "map snd ws"] by blast
  show ?case
  proof (cases "row_cache_key r = k")
    case True
    then show ?thesis using u ns snoc.IH
      by (cases "map_of (ms_rows (mem_run ws)) k")
         (auto simp: w run_snoc attempts_snoc mem_record_call_def Let_def)
  next
    case False
    then have "map_of (ms_rows (mem_run (ws @ [w]))) k = map_of (ms_rows (mem_run ws)) k"
      by (auto simp: w run_snoc mem_record_call_def Let_def split: option.splits)
    with False snoc.IH show ?thesis by (simp add: w attempts_snoc)
  qed
qed

lemma map_last_eq:
  "map f xs = map f ys \<Longrightarrow> map f (if xs = [] then [] else [last xs]) = (if ys = [] then [] else [f (last ys)])"
  by (cases xs rule: rev_cases; cases ys rule: rev_cases) auto

text \<open>
  What the file backend lists. After any writes to an empty store, the rows of a tag hold for every key
  exactly one row, the last of the counted attempts made under that tag (all failed ones and the first usable
  one, of any tag), and no row for a key without such an attempt.
\<close>

theorem file_lists_last_attempt:
  assumes "all_accepted ws" "file_query_rows t None (file_run ws) = Inr rows"
  shows "map unstamp (filter (\<lambda>r. row_cache_key r = k) rows) =
    (let a = filter (\<lambda>r. rr_experiment_tag r = t) (attempts k (map snd ws))
     in if a = [] then [] else [unstamp (last a)])"
proof -
  obtain dir where dir: "tag_dir t = Inr dir"
    and rows: "rows = map snd (last_wins None (dget (fs_results (file_run ws)) dir []))"
    using assms(2) by (auto simp: file_query_rows_def split: sum.splits)
  let ?hits = "filter (\<lambda>r. row_cache_key r = k) (dget (fs_results (file_run ws)) dir [])"
  note m = file_results_run [OF assms(1) dir, of k]
  have "filter (\<lambda>r. row_cache_key r = k) rows = (if ?hits = [] then [] else [last ?hits])"
    unfolding rows using keyed_rows_filter [of "last_wins None (dget (fs_results (file_run ws)) dir [])" k] last_wins_keyed
    by (simp add: last_wins_lookup Let_def)
  then show ?thesis using map_last_eq [OF m] by (simp add: Let_def)
qed

lemma tag_accepted_t [simp]: "tag_accepted ''t''" "tag_accepted ''u''"
  by (simp_all add: tag_accepted_def tag_matches_def tag_char_def)

lemma query_accepted:
  "tag_accepted t \<Longrightarrow> \<exists>rows. file_query_rows t stg s = Inr rows"
  by (rule tag_dir_cases [of t]) (auto simp: file_query_rows_def)

theorem file_lists_last_attempt_witness:
  "\<exists>rows. file_query_rows ''t'' None (file_run [(1, failed_row ''t''), (2, good_row ''u'')]) = Inr rows
     \<and> map unstamp (filter (\<lambda>r. row_cache_key r = (''h'', ''p'', ''m'', [])) rows) = [unstamp (failed_row ''t'')]"
proof -
  let ?ws = "[(1, failed_row ''t''), (2, good_row ''u'')]"
  obtain rows where r: "file_query_rows ''t'' None (file_run ?ws) = Inr rows" using query_accepted by fastforce
  have "all_accepted ?ws" by (simp add: all_accepted_def)
  from file_lists_last_attempt [OF this r, of "(''h'', ''p'', ''m'', [])"] r show ?thesis by (simp add: Let_def)
qed

text \<open>
  What the memory backend lists: one row per key, the last counted attempt, under the tag of that
  attempt only.
\<close>

theorem memory_lists_last_attempt:
  "map unstamp (filter (\<lambda>r. row_cache_key r = k) (mem_query_rows t None (mem_run ws))) =
    (let a = attempts k (map snd ws)
     in if a = [] \<or> rr_experiment_tag (last a) \<noteq> t then [] else [unstamp (last a)])"
proof -
  let ?d = "ms_rows (mem_run ws)" and ?a = "attempts k (map snd ws)"
  have ok: "dict_ok ?d" "list_all (\<lambda>(k, r). row_cache_key r = k) ?d"
    using mem_run_ok [of ws] by (simp_all add: mem_ok_def)
  have tag: "rr_experiment_tag (unstamp r) = rr_experiment_tag r" for r by (simp add: unstamp_def)
  have "filter (\<lambda>r. row_cache_key r = k) (mem_query_rows t None (mem_run ws)) =
      filter (\<lambda>r. rr_experiment_tag r = t) (filter (\<lambda>r. row_cache_key r = k) (map snd ?d))"
    by (simp add: mem_query_rows_def conj_commute)
  also have "filter (\<lambda>r. row_cache_key r = k) (map snd ?d) = (case map_of ?d k of None \<Rightarrow> [] | Some r \<Rightarrow> [r])"
    by (rule keyed_rows_filter [OF ok])
  finally show ?thesis using mem_run_rows [of ws k] tag
    by (cases "map_of ?d k") (auto simp: Let_def split: if_splits, metis+)
qed

text \<open>
  C10: The cache does not depend on the backend: after the same writes of rows with accepted tags to an empty
  store, the memory and the file backend return the same cached response for every key, namely the first usable
  row written for that key, whatever its tag.
\<close>

theorem backends_agree_on_cache:
  assumes "all_accepted ws"
  shows "mem_get_cached (mem_run ws) k = file_get_cached (file_run ws) k
    \<and> mem_get_cached (mem_run ws) k =
        (case find (\<lambda>r. row_cache_key r = k \<and> usable r) (map snd ws) of None \<Rightarrow> None | Some r \<Rightarrow> cached_of_row r)
    \<and> map_of (mem_prefetch True MIN_USABLE_RESPONSE_LEN (mem_run ws)) k = mem_get_cached (mem_run ws) k
    \<and> map_of (fst (file_prefetch True MIN_USABLE_RESPONSE_LEN (file_run ws))) k = file_get_cached (file_run ws) k"
proof -
  have empty: "mem_get_cached mem_new k = None" "file_get_cached file_new k = None"
    by (simp_all add: mem_get_cached_def mem_new_def file_get_cached_def file_new_def)
  have "mem_get_cached (mem_run ws) k = file_get_cached (file_run ws) k"
    unfolding mem_run_def file_run_def using assms
    by (intro mem_file.same_cache) (auto simp: empty all_accepted_def list_all_iff)
  moreover have "list_all (\<lambda>(now, r). True) ws" by (simp add: list_all_iff)
  ultimately show ?thesis
    using mem.first_usable_wins [OF mem_new_ok, of ws k] mem.prefetch_after_writes [OF mem_new_ok, of ws k]
      fstore.prefetch_after_writes [OF file_new_ok assms [unfolded all_accepted_def], of k]
    by (simp add: empty mem_run_def file_run_def)
qed

theorem backends_agree_on_cache_witness:
  "all_accepted [(1, failed_row ''t''), (2, good_row ''u''), (3, good_row ''t'')]
   \<and> file_get_cached (file_run [(1, failed_row ''t''), (2, good_row ''u''), (3, good_row ''t'')]) (''h'', ''p'', ''m'', [])
     = cached_of_row (good_row ''u'')"
proof -
  let ?ws = "[(1, failed_row ''t''), (2, good_row ''u''), (3, good_row ''t'')]" and ?k = "(''h'', ''p'', ''m'', [])"
  have acc: "all_accepted ?ws" by (simp add: all_accepted_def)
  note agree = backends_agree_on_cache [OF acc, of ?k]
  from agree have "file_get_cached (file_run ?ws) ?k = mem_get_cached (mem_run ?ws) ?k" by (elim conjE) (rule sym)
  also from agree have "mem_get_cached (mem_run ?ws) ?k = cached_of_row (good_row ''u'')" by (elim conjE) simp
  finally show ?thesis using acc by blast
qed

text \<open>
  A retry under a second tag: the file backend keeps listing the stale failure, and its cost, under the
  first tag, where the memory backend lists nothing.
\<close>

theorem retagged_retry_diverges:
  "let ws = [(1, failed_row ''t''), (2, good_row ''u'')] in
   mem_query_rows ''t'' None (mem_run ws) = [] \<and> mem_spend_total ''t'' (mem_run ws) = 0
   \<and> file_query_rows ''t'' None (file_run ws) = Inr [stamp 1 (failed_row ''t'')]
   \<and> file_spend_total ''t'' (file_run ws) = Inr 1"
proof -
  let ?ws = "[(1, failed_row ''t''), (2, good_row ''u'')]"
  have dirs: "tag_dir ''t'' = Inr [''t'']" "tag_dir ''u'' = Inr [''u'']" by (simp_all add: tag_dir_Inr)
  have rows: "ms_rows (mem_run ?ws) = [((''h'', ''p'', ''m'', []), stamp 2 (good_row ''u''))]"
    by (simp add: mem_run_def mem_new_def mem_record_call_def Let_def)
  have "mem_query_rows ''t'' None (mem_run ?ws) = []" "mem_spend_total ''t'' (mem_run ?ws) = 0"
    by (simp_all add: mem_query_rows_def mem_spend_total_def rows)
  moreover have "fs_results (file_run ?ws) = [([''t''], [stamp 1 (failed_row ''t'')]), ([''u''], [stamp 2 (good_row ''u'')])]"
    by (simp add: file_run_def file_new_def file_record_call_def Let_def dirs dappend_def dget_def)
  then have "file_query_rows ''t'' None (file_run ?ws) = Inr [stamp 1 (failed_row ''t'')]"
    by (simp add: file_query_rows_def dirs dget_def last_wins_def)
  ultimately show ?thesis by (simp add: file_spend_total_def)
qed

section \<open>Deletion\<close>

text \<open>
  Deleting an experiment with an ordinary tag removes its rows, winners and cached responses, reports how
  many rows there were, and leaves the rows, winners and cached responses of every other ordinary tag and the
  recorded prompts alone.
\<close>

theorem file_delete_is_exact:
  assumes "file_ok s" "tag_accepted t" "t \<noteq> ''.''" "file_delete_experiment t s = (res, s')"
    "tag_accepted u" "u \<noteq> ''.''"
  shows "res = map_sum id length (file_query_rows t None s)
    \<and> file_query_rows u stg s' = (if u = t then Inr [] else file_query_rows u stg s)
    \<and> file_load_winners s' u k = (if u = t then Inr None else file_load_winners s u k)
    \<and> file_get_cached s' key = (case file_get_cached s key of None \<Rightarrow> None
         | Some c \<Rightarrow> if cr_source_tag c = Some t then None else Some c)
    \<and> fs_prompts_file s' = fs_prompts_file s \<and> file_ok s'"
proof -
  have dirs: "tag_dir t = Inr [t]" "tag_dir u = Inr [u]" using assms by (simp_all add: tag_dir_Inr)
  have s': "s' = rmtree [t] ((file_initialize s)\<lparr>fs_index := filter (\<lambda>kv. ix_source_tag (snd kv) \<noteq> t) (fs_index s)\<rparr>)"
    and res: "res = map_sum id length (file_query_rows t None s)"
    using assms(4) dirs by (auto simp: file_delete_experiment_def Let_def file_query_rows_def split: sum.splits)
  have b: "below [t] [u] \<longleftrightarrow> u = t" by (auto simp: below_def)
  have ok: "file_ok s'" using assms(1) by (auto simp: s' rmtree_def file_ok_def list_all_iff)
  have look: "dget (fs_results s') [u] [] = (if u = t then [] else dget (fs_results s) [u] [])"
    using map_of_filter_keys [of "\<lambda>p. \<not> below [t] p" "fs_results s" "[u]"] b
    by (simp add: s' rmtree_def dget_def)
  have win: "map_of (fs_winners s') ([u], k) = (if u = t then None else map_of (fs_winners s) ([u], k))"
    using map_of_filter_keys [of "\<lambda>pk. \<not> below [t] (fst pk)" "fs_winners s" "([u], k)"] b
    by (simp add: s' rmtree_def)
  have "map_of (fs_index s') key = (case map_of (fs_index s) key of None \<Rightarrow> None
      | Some ix \<Rightarrow> if ix_source_tag ix = t then None else Some ix)"
    using map_of_Some_filter [of "fs_index s" "\<lambda>kv. ix_source_tag (snd kv) \<noteq> t" key] assms(1)
    by (auto simp: s' rmtree_def file_ok_def split: option.splits)
  then have "file_get_cached s' key = (case file_get_cached s key of None \<Rightarrow> None
      | Some c \<Rightarrow> if cr_source_tag c = Some t then None else Some c)"
    by (auto simp: file_get_index [OF ok] file_get_index [OF assms(1)] cached_of_index_def
        split: option.splits prod.splits)
  then show ?thesis using res ok look win
    by (simp add: file_query_rows_def file_load_winners_def dirs last_wins_def s' rmtree_def)
qed

theorem file_delete_is_exact_witness:
  "\<exists>res s'. file_delete_experiment ''t'' (file_run [(1, good_row ''u'')]) = (res, s')
     \<and> file_query_rows ''u'' None s' = Inr [stamp 1 (good_row ''u'')]"
proof -
  let ?s = "file_run [(1, good_row ''u'')]"
  obtain res s' where r: "file_delete_experiment ''t'' ?s = (res, s')" by fastforce
  have dir: "tag_dir ''u'' = Inr [''u'']" by (simp add: tag_dir_Inr)
  have "file_query_rows ''u'' None ?s = Inr [stamp 1 (good_row ''u'')]"
    by (simp add: file_query_rows_def dir file_run_def file_new_def file_record_call_def Let_def dappend_def
        dget_def last_wins_def)
  with file_delete_is_exact [OF file_run_ok _ _ r, of "''u''" None 1 "(''h'', ''p'', ''m'', [])"] r
  show ?thesis by auto
qed

text \<open>
  The tag consisting of one dot is accepted, and deleting that experiment removes the results, the winners
  and the prompts of every other experiment.
\<close>

theorem delete_dot_removes_everything:
  "file_query_rows ''u'' None (file_run [(1, good_row ''u'')]) = Inr [stamp 1 (good_row ''u'')]
   \<and> (\<exists>n s'. file_delete_experiment ''.'' (file_run [(1, good_row ''u'')]) = (Inr n, s')
       \<and> fs_results s' = [] \<and> fs_winners s' = [] \<and> fs_prompts_file s' = []
       \<and> file_query_rows ''u'' None s' = Inr [])"
proof -
  have dirs: "tag_dir ''.'' = Inr []" "tag_dir ''u'' = Inr [''u'']"
    by (simp_all add: tag_dir_Inr) (simp add: tag_accepted_def tag_matches_def)
  show ?thesis
    by (simp add: file_query_rows_def dirs file_run_def file_new_def file_record_call_def Let_def dappend_def
        dget_def last_wins_def file_delete_experiment_def rmtree_def below_def)
qed

end
