(* ===== verification/Postgres_Storage.thy ===== *)
theory Postgres_Storage
  imports File_Storage
begin

text \<open>
  \<open>storage/postgres.py\<close>. A table is a dictionary from its primary key, and every SQL statement of the file
  is a step on the tables with the meaning of its text: \<open>ON CONFLICT DO NOTHING\<close>, the conditional
  \<open>DO UPDATE\<close>, the \<open>CHECK\<close> constraints (evaluated on the proposed row before the conflict), \<open>WHERE\<close>
  filters and \<open>GROUP BY\<close>. Columns come back as they were written. Connection failures are not modelled;
  a missing pool raises as in the code.
\<close>

record pg_store =
  pg_connected :: bool
  pg_version :: "int option"
  pg_system_prompts :: "(string, string) dict"
  pg_user_prompts :: "(string, string) dict"
  pg_prompts :: "(string, string \<times> string) dict"
  pg_results :: "(cache_key, run_row) dict"
  pg_winners :: "(string \<times> int, winner_set) dict"

definition SCHEMA_VERSION :: int where
  "SCHEMA_VERSION = 1"

text \<open>\<open>_SCHEMA_NAME_RE.fullmatch\<close> for \<open>^[A-Za-z_][A-Za-z0-9_]{0,62}$\<close>, and the check of the constructor.\<close>

definition ident_start :: "char \<Rightarrow> bool" where
  "ident_start c = (let n = of_char c :: nat in (65 \<le> n \<and> n \<le> 90) \<or> (97 \<le> n \<and> n \<le> 122) \<or> n = 95)"

definition ident_char :: "char \<Rightarrow> bool" where
  "ident_char c = (let n = of_char c :: nat in ident_start c \<or> (48 \<le> n \<and> n \<le> 57))"

definition schema_name_ok :: "string \<Rightarrow> bool" where
  "schema_name_ok s = (case s of [] \<Rightarrow> False
     | c # cs \<Rightarrow> ident_start c \<and> list_all ident_char cs \<and> length cs \<le> 62)"

definition pg_new :: "string \<Rightarrow> pg_store result" where
  "pg_new schema_name =
     (if \<not> schema_name_ok schema_name then Inl ValueError
      else Inr \<lparr>pg_connected = False, pg_version = None, pg_system_prompts = [], pg_user_prompts = [],
        pg_prompts = [], pg_results = [], pg_winners = []\<rparr>)"

definition check_or_stamp_schema_version :: "pg_store \<Rightarrow> pg_store result" where
  "check_or_stamp_schema_version s =
     (case pg_version s of
        None \<Rightarrow> Inr (s\<lparr>pg_version := Some SCHEMA_VERSION\<rparr>)
      | Some deployed \<Rightarrow> if deployed \<noteq> SCHEMA_VERSION then Inl RuntimeError else Inr s)"

definition pg_initialize :: "pg_store \<Rightarrow> pg_store result" where
  "pg_initialize s =
     (if pg_connected s then Inr s
      else case check_or_stamp_schema_version s of
        Inl e \<Rightarrow> Inl e
      | Inr s1 \<Rightarrow> Inr (s1\<lparr>pg_connected := True\<rparr>))"

definition pg_close :: "pg_store \<Rightarrow> pg_store" where
  "pg_close s = s\<lparr>pg_connected := False\<rparr>"

text \<open>\<open>_require_pool\<close> in front of an operation.\<close>

definition with_pool :: "pg_store \<Rightarrow> 'a result \<Rightarrow> 'a result" where
  "with_pool s k = (if \<not> pg_connected s then Inl RuntimeError else k)"

definition insert_or_ignore :: "'k \<Rightarrow> 'v \<Rightarrow> ('k, 'v) dict \<Rightarrow> ('k, 'v) dict" where
  "insert_or_ignore k v d = (if map_of d k = None then dset k v d else d)"

definition pg_upsert_prompts ::
  "(byte list \<Rightarrow> string) \<Rightarrow> string \<Rightarrow> string \<Rightarrow> pg_store \<Rightarrow> ((string \<times> string \<times> string) \<times> pg_store) result" where
  "pg_upsert_prompts sha system_text user_text s =
     (case prompt_hashes sha system_text user_text of
        Inl e \<Rightarrow> Inl e
      | Inr (sys_h, usr_h, comp_h) \<Rightarrow> with_pool s (Inr ((sys_h, usr_h, comp_h),
          s\<lparr>pg_system_prompts := insert_or_ignore sys_h system_text (pg_system_prompts s),
            pg_user_prompts := insert_or_ignore usr_h user_text (pg_user_prompts s),
            pg_prompts := insert_or_ignore comp_h (sys_h, usr_h) (pg_prompts s)\<rparr>)))"

section \<open>Rows\<close>

text \<open>The \<open>CHECK\<close> constraints of \<open>benchmark_results\<close>.\<close>

definition null_or_nonneg :: "'a::{zero,ord} option \<Rightarrow> bool" where
  "null_or_nonneg x = (case x of None \<Rightarrow> True | Some v \<Rightarrow> 0 \<le> v)"

definition row_checks :: "run_row \<Rightarrow> bool" where
  "row_checks r \<longleftrightarrow> null_or_nonneg (rr_cost_usd r) \<and> null_or_nonneg (rr_effective_cost_usd r)
     \<and> null_or_nonneg (rr_input_tokens r) \<and> null_or_nonneg (rr_output_tokens r)
     \<and> null_or_nonneg (rr_reasoning_tokens r) \<and> null_or_nonneg (rr_cache_hit_tokens r)
     \<and> null_or_nonneg (rr_cache_write_tokens r) \<and> null_or_nonneg (rr_cache_discount_usd r)
     \<and> null_or_nonneg (rr_mean_attempt_duration_sec r) \<and> null_or_nonneg (rr_n_attempts r)"

text \<open>The \<open>WHERE\<close> of the \<open>DO UPDATE\<close>: the stored row has an error class or a parse failure.\<close>

definition flagged :: "run_row \<Rightarrow> bool" where
  "flagged r \<longleftrightarrow> truthy (rr_error_class r) \<or> truthy (rr_parse_failure_prefix r)"

definition pg_record_call :: "int \<Rightarrow> run_row \<Rightarrow> pg_store \<Rightarrow> (string \<times> pg_store) result" where
  "pg_record_call now row s = with_pool s
     (if \<not> row_checks row then Inl DatabaseError
      else Inr (rr_composite_hash row,
        case map_of (pg_results s) (row_cache_key row) of
          None \<Rightarrow> s\<lparr>pg_results := dset (row_cache_key row) (stamp now row) (pg_results s)\<rparr>
        | Some existing \<Rightarrow>
            if flagged existing
            then s\<lparr>pg_results := dset (row_cache_key row) (stamp now row) (pg_results s)\<rparr> else s))"

definition sql_prefetch_where :: "bool \<Rightarrow> int \<Rightarrow> run_row \<Rightarrow> bool" where
  "sql_prefetch_where only_successful min_response_len r =
     ((case rr_response r of None \<Rightarrow> False | Some resp \<Rightarrow> int (length resp) \<ge> min_response_len)
      \<and> (only_successful \<longrightarrow> (rr_error_class r = None \<or> rr_error_class r = Some [])
           \<and> (rr_parse_failure_prefix r = None \<or> rr_parse_failure_prefix r = Some [])))"

definition pg_prefetch :: "bool \<Rightarrow> int \<Rightarrow> pg_store \<Rightarrow> (cache_key, cached_response) dict result" where
  "pg_prefetch only_successful min_response_len s = with_pool s (Inr
     (fold (\<lambda>(key, r) out. if sql_prefetch_where only_successful min_response_len r
             then (case cached_of_row r of None \<Rightarrow> out | Some c \<Rightarrow> dset key c out) else out) (pg_results s) []))"

definition pg_get_cached :: "pg_store \<Rightarrow> cache_key \<Rightarrow> cached_response option result" where
  "pg_get_cached s key = with_pool s (Inr
     (case map_of (pg_results s) key of
        None \<Rightarrow> None
      | Some r \<Rightarrow> if \<not> usable r then None else cached_of_row r))"

definition pg_query_rows :: "string \<Rightarrow> string option \<Rightarrow> pg_store \<Rightarrow> run_row list result" where
  "pg_query_rows tag stg s = with_pool s (Inr
     (filter (\<lambda>r. rr_experiment_tag r = tag \<and> (case stg of None \<Rightarrow> True | Some g \<Rightarrow> rr_stage r = g))
       (map snd (pg_results s))))"

definition pg_spend_total :: "string \<Rightarrow> pg_store \<Rightarrow> real result" where
  "pg_spend_total tag s = with_pool s (Inr
     (sum_list (map (\<lambda>r. or0 (rr_effective_cost_usd r))
       (filter (\<lambda>r. rr_experiment_tag r = tag) (map snd (pg_results s))))))"

definition pg_spend_by_stage :: "string \<Rightarrow> pg_store \<Rightarrow> (string, real) dict result" where
  "pg_spend_by_stage tag s = with_pool s (Inr
     (spend_grouped rr_stage (filter (\<lambda>r. rr_experiment_tag r = tag) (map snd (pg_results s)))))"

definition pg_spend_by_op :: "string \<Rightarrow> pg_store \<Rightarrow> (string, real) dict result" where
  "pg_spend_by_op tag s =
     (case pg_spend_by_stage tag s of
        Inl e \<Rightarrow> Inl e
      | Inr by_stage \<Rightarrow> Inr (fold (\<lambda>(stg, spent) out. dadd (stage_to_op stg) spent out) by_stage []))"

definition pg_persist_winners :: "string \<Rightarrow> int \<Rightarrow> winner_set \<Rightarrow> pg_store \<Rightarrow> pg_store result" where
  "pg_persist_winners tag round_idx w s = with_pool s (Inr (s\<lparr>pg_winners := dset (tag, round_idx) w (pg_winners s)\<rparr>))"

definition pg_load_winners :: "pg_store \<Rightarrow> string \<Rightarrow> int \<Rightarrow> winner_set option result" where
  "pg_load_winners s tag round_idx = with_pool s (Inr (map_of (pg_winners s) (tag, round_idx)))"

definition pg_delete_experiment :: "string \<Rightarrow> pg_store \<Rightarrow> (nat \<times> pg_store) result" where
  "pg_delete_experiment tag s = with_pool s (Inr
     (length (filter (\<lambda>kv. rr_experiment_tag (snd kv) = tag) (pg_results s)),
      s\<lparr>pg_results := filter (\<lambda>kv. rr_experiment_tag (snd kv) \<noteq> tag) (pg_results s),
        pg_winners := filter (\<lambda>kv. fst (fst kv) \<noteq> tag) (pg_winners s)\<rparr>))"

section \<open>Where the contract holds\<close>

text \<open>
  The resume law holds on rows that are usable or flagged; the code also writes rows that are
  neither, with a short response and no error.
\<close>

definition pg_row_ok :: "run_row \<Rightarrow> bool" where
  "pg_row_ok r \<longleftrightarrow> row_checks r \<and> (usable r \<or> flagged r)"

definition pg_ok :: "pg_store \<Rightarrow> bool" where
  "pg_ok s \<longleftrightarrow> pg_connected s \<and> dict_ok (pg_results s)
     \<and> list_all (\<lambda>(k, r). row_cache_key r = k \<and> (usable r \<or> flagged r)) (pg_results s)"

definition pg_record_state :: "int \<Rightarrow> run_row \<Rightarrow> pg_store \<Rightarrow> pg_store" where
  "pg_record_state now r s = (case pg_record_call now r s of Inr (h, s') \<Rightarrow> s' | Inl e \<Rightarrow> s)"

definition pg_cached :: "pg_store \<Rightarrow> cache_key \<Rightarrow> cached_response option" where
  "pg_cached s k = (case pg_get_cached s k of Inr c \<Rightarrow> c | Inl e \<Rightarrow> None)"

definition pg_prefetched :: "pg_store \<Rightarrow> (cache_key, cached_response) dict" where
  "pg_prefetched s = (case pg_prefetch True MIN_USABLE_RESPONSE_LEN s of Inr d \<Rightarrow> d | Inl e \<Rightarrow> [])"

lemma flagged_stamp [simp]: "flagged (stamp now r) = flagged r"
  by (simp add: flagged_def stamp_def)

lemma usable_not_flagged: "usable r \<Longrightarrow> \<not> flagged r"
  by (auto simp: row_usable_def is_row_usable_iff flagged_def)

lemma pg_results_ok:
  "pg_ok s \<Longrightarrow> map_of (pg_results s) k = Some r \<Longrightarrow> usable r \<longleftrightarrow> \<not> flagged r"
  using usable_not_flagged by (force simp: pg_ok_def list_all_iff dest: map_of_SomeD)

lemma pg_prefetched_cached:
  assumes "pg_connected s" "dict_ok (pg_results s)"
  shows "map_of (pg_prefetched s) k = pg_cached s k"
proof -
  have w: "sql_prefetch_where True n r = row_usable n r" for n r
    by (auto simp: sql_prefetch_where_def row_usable_def is_row_usable_iff truthy_def split: option.splits)
  let ?f = "\<lambda>r. if usable r then cached_of_row r else None"
  have "pg_prefetched s = fold (\<lambda>(k, r) out. case ?f r of None \<Rightarrow> out | Some c \<Rightarrow> dset k c out) (pg_results s) []"
    using assms(1) unfolding pg_prefetched_def pg_prefetch_def with_pool_def w
    by (auto intro!: fold_cong split: option.splits)
  with map_of_fold_dset_list [of "pg_results s" ?f "[]" k] assms
  show ?thesis
    by (auto simp: pg_cached_def pg_get_cached_def with_pool_def split: option.splits)
qed

interpretation pg: prefetch_store pg_record_state pg_cached pg_ok pg_row_ok pg_prefetched
proof unfold_locales
  fix s r now k
  assume s: "pg_ok s" and r: "pg_row_ok r"
  then show "pg_ok (pg_record_state now r s)"
    by (auto simp: pg_record_state_def pg_record_call_def with_pool_def pg_ok_def pg_row_ok_def list_all_dset
        split: option.splits)
  show "pg_cached (pg_record_state now r s) k =
      (if row_cache_key r = k \<and> pg_cached s k = None \<and> usable r then cached_of_row r else pg_cached s k)"
    using s r pg_results_ok [OF s, of "row_cache_key r"] usable_not_flagged
    by (auto simp: pg_record_state_def pg_record_call_def with_pool_def pg_ok_def pg_row_ok_def pg_cached_def
        pg_get_cached_def dest: usable_cached split: option.splits)
next
  fix s k
  assume "pg_ok s"
  then show "map_of (pg_prefetched s) k = pg_cached s k" by (simp add: pg_ok_def pg_prefetched_cached)
qed

interpretation mem_pg: two_stores "\<lambda>now r s. snd (mem_record_call now r s)" mem_get_cached mem_ok "\<lambda>_. True"
  pg_record_state pg_cached pg_ok pg_row_ok
  by unfold_locales


section \<open>Properties\<close>

definition pg_empty :: pg_store where
  "pg_empty = \<lparr>pg_connected = True, pg_version = Some SCHEMA_VERSION, pg_system_prompts = [], pg_user_prompts = [],
     pg_prompts = [], pg_results = [], pg_winners = []\<rparr>"

lemma pg_empty_reached: "pg_new ''llm_bench'' = Inr s \<Longrightarrow> pg_initialize s = Inr pg_empty"
  by (auto simp: pg_new_def pg_initialize_def check_or_stamp_schema_version_def pg_empty_def split: if_splits)

lemma pg_empty_ok [simp]: "pg_ok pg_empty"
  by (simp add: pg_ok_def pg_empty_def)

text \<open>
  On rows that satisfy the column constraints and are usable or carry an error or parse failure, the Postgres
  backend caches exactly what the memory backend caches, and its bulk load returns the same as its single lookups.
\<close>

theorem postgres_agrees_on_cache:
  assumes "list_all (\<lambda>(now, r). pg_row_ok r) ws"
  shows "pg_cached (record_all pg_record_state ws pg_empty) k = mem_get_cached (mem_run ws) k
    \<and> map_of (pg_prefetched (record_all pg_record_state ws pg_empty)) k = mem_get_cached (mem_run ws) k"
proof -
  have "pg_cached pg_empty k = None" "mem_get_cached mem_new k = None"
    by (simp_all add: pg_cached_def pg_get_cached_def with_pool_def pg_empty_def mem_get_cached_def mem_new_def)
  moreover have "list_all (\<lambda>(now, r). True) ws" by (simp add: list_all_iff)
  ultimately have "mem_get_cached (mem_run ws) k = pg_cached (record_all pg_record_state ws pg_empty) k"
    unfolding mem_run_def using assms by (intro mem_pg.same_cache) auto
  with pg.prefetch_after_writes [OF pg_empty_ok assms, of k] show ?thesis by simp
qed

lemma sample_pg_ok [simp]: "pg_row_ok (good_row t)" "pg_row_ok (failed_row t)"
  by (simp_all add: pg_row_ok_def row_checks_def null_or_nonneg_def)
     (simp_all add: good_row_def failed_row_def sample_row_def flagged_def)

theorem postgres_agrees_on_cache_witness:
  "list_all (\<lambda>(now, r). pg_row_ok r) [(1, failed_row ''t''), (2, good_row ''u'')]
   \<and> pg_cached (record_all pg_record_state [(1, failed_row ''t''), (2, good_row ''u'')] pg_empty) (''h'', ''p'', ''m'', [])
     = mem_get_cached (mem_run [(1, failed_row ''t''), (2, good_row ''u'')]) (''h'', ''p'', ''m'', [])"
proof -
  have ok: "list_all (\<lambda>(now, r). pg_row_ok r) [(1, failed_row ''t''), (2, good_row ''u'')]" by simp
  with postgres_agrees_on_cache [OF ok] show ?thesis by blast
qed

lemma not_flagged_iff:
  "\<not> flagged r \<longleftrightarrow> rr_error_class r \<in> {None, Some []} \<and> rr_parse_failure_prefix r \<in> {None, Some []}"
  by (cases "rr_error_class r"; cases "rr_parse_failure_prefix r") (auto simp: flagged_def)

lemma not_usable_iff:
  assumes "rr_error_class r \<in> {None, Some []}" "rr_parse_failure_prefix r \<in> {None, Some []}"
  shows "\<not> usable r \<longleftrightarrow> (case rr_response r of None \<Rightarrow> True | Some t \<Rightarrow> length t < 20)"
  using assms by (auto simp: row_usable_def is_row_usable_iff MIN_USABLE_RESPONSE_LEN_def split: option.splits)

text \<open>
  C27: The upsert of the Postgres backend writes the new row if the key has no stored row, or a stored row
  with a non-empty error class or a non-empty parse failure; otherwise the stored row stays, and no other
  key changes. So a usable retry is lost (its key has no cached response afterwards) exactly if the
  stored row has neither, and its response is missing or shorter than 20 characters.
\<close>

theorem postgres_retry_lost_iff:
  assumes "pg_connected s" "row_checks r"
  defines "stored \<equiv> map_of (pg_results s) (row_cache_key r)"
  shows "\<exists>s'. pg_record_call now r s = Inr (rr_composite_hash r, s')
    \<and> map_of (pg_results s') = (map_of (pg_results s))(row_cache_key r \<mapsto>
         (case stored of None \<Rightarrow> stamp now r
          | Some old \<Rightarrow>
              if rr_error_class old \<in> {None, Some []} \<and> rr_parse_failure_prefix old \<in> {None, Some []}
              then old else stamp now r))
    \<and> (usable r \<longrightarrow> (pg_get_cached s' (row_cache_key r) = Inr None \<longleftrightarrow>
         (\<exists>old. stored = Some old
            \<and> rr_error_class old \<in> {None, Some []} \<and> rr_parse_failure_prefix old \<in> {None, Some []}
            \<and> (case rr_response old of None \<Rightarrow> True | Some t \<Rightarrow> length t < 20))))"
proof (cases stored)
  case None
  with assms(1,2) show ?thesis
    by (auto simp: stored_def pg_record_call_def with_pool_def pg_get_cached_def dest: usable_cached)
next
  case (Some old)
  show ?thesis
  proof (cases "flagged old")
    case True
    with assms(1,2) Some have "pg_record_call now r s = Inr (rr_composite_hash r,
        s\<lparr>pg_results := dset (row_cache_key r) (stamp now r) (pg_results s)\<rparr>)"
      by (simp add: stored_def pg_record_call_def with_pool_def)
    with assms(1) Some True not_flagged_iff [of old] show ?thesis
      by (auto simp: with_pool_def pg_get_cached_def dest: usable_cached)
  next
    case False
    note plain = False [unfolded not_flagged_iff]
    with assms(1,2) Some False have "pg_record_call now r s = Inr (rr_composite_hash r, s)"
      by (simp add: stored_def pg_record_call_def with_pool_def)
    moreover have "pg_get_cached s (row_cache_key r) = Inr None \<longleftrightarrow> \<not> usable old"
      using assms(1) Some by (auto simp: stored_def pg_get_cached_def with_pool_def dest: usable_cached)
    ultimately show ?thesis
      using Some plain not_usable_iff [of old] by (auto simp: stored_def)
  qed
qed

definition short_row :: "string \<Rightarrow> run_row" where
  "short_row tag = sample_row tag (Some ''ok'') None"

definition unparsed_row :: "string \<Rightarrow> run_row" where
  "unparsed_row tag = (sample_row tag (Some ''this reply has no JSON in it'') None)\<lparr>rr_parse_failure_prefix := Some ''this''\<rparr>"

theorem postgres_retry_lost_iff_witness:
  "(\<exists>s'. pg_record_call 2 (good_row ''t'') (pg_record_state 1 (short_row ''t'') pg_empty) = Inr (''h'', s')
      \<and> pg_get_cached s' (''h'', ''p'', ''m'', []) = Inr None)
   \<and> (\<exists>s'. pg_record_call 2 (good_row ''t'') (pg_record_state 1 (unparsed_row ''t'') pg_empty) = Inr (''h'', s')
      \<and> pg_get_cached s' (''h'', ''p'', ''m'', []) \<noteq> Inr None)"
proof -
  let ?k = "(''h'', ''p'', ''m'', [])"
  have stored: "pg_connected (pg_record_state 1 x pg_empty)"
      "map_of (pg_results (pg_record_state 1 x pg_empty)) ?k = Some (stamp 1 x)"
    if "row_checks x" "row_cache_key x = ?k" for x
    using that by (simp_all add: pg_record_state_def pg_record_call_def with_pool_def pg_empty_def)
  have s: "row_checks (short_row ''t'')" "row_cache_key (short_row ''t'') = ?k"
    "row_checks (unparsed_row ''t'')" "row_cache_key (unparsed_row ''t'') = ?k"
    by (simp_all add: row_checks_def null_or_nonneg_def short_row_def unparsed_row_def sample_row_def
        row_cache_key_def make_cache_key_def)
  have r: "row_checks (good_row ''t'')" "rr_composite_hash (good_row ''t'') = ''h''" "row_cache_key (good_row ''t'') = ?k"
    using sample_pg_ok(1) [of "''t''"]
    by (simp_all add: pg_row_ok_def) (simp_all add: good_row_def sample_row_def row_cache_key_def make_cache_key_def)
  have old: "rr_error_class (stamp 1 (short_row ''t'')) = None" "rr_parse_failure_prefix (stamp 1 (short_row ''t'')) = None"
    "rr_response (stamp 1 (short_row ''t'')) = Some ''ok''"
    "rr_parse_failure_prefix (stamp 1 (unparsed_row ''t'')) = Some ''this''"
    by (simp_all add: stamp_def short_row_def unparsed_row_def sample_row_def)
  show ?thesis
    using postgres_retry_lost_iff [OF stored(1) [OF s(1,2)] r(1), of 2]
      postgres_retry_lost_iff [OF stored(1) [OF s(3,4)] r(1), of 2]
      stored(2) [OF s(1,2)] stored(2) [OF s(3,4)] r(2,3) old sample_simps(1) [of "''t''"]
    by auto
qed

end
