(* ===== verification/Resume_Cache.thy ===== *)
theory Resume_Cache
  imports Postgres_Storage
begin

text \<open>
  \<open>runner/resume.py\<close>: the in-memory mirror of the cached responses, loaded once from the storage and extended
  by completed calls. Each method runs under the lock of the cache. What the mirror is good for is proved
  of the rounds that use it (\<open>Session_Cache\<close>).
\<close>

type_synonym resume_cache = "(cache_key, cached_response) dict"

definition resume_new :: resume_cache where
  "resume_new = []"

definition resume_populate :: "(bool \<Rightarrow> int \<Rightarrow> resume_cache) \<Rightarrow> bool \<Rightarrow> int \<Rightarrow> nat \<times> resume_cache" where
  "resume_populate prefetch only_successful min_response_len =
     (let entries = prefetch only_successful min_response_len in (length entries, entries))"

definition resume_get :: "resume_cache \<Rightarrow> string \<Rightarrow> string \<Rightarrow> string \<Rightarrow> string \<Rightarrow> cached_response option" where
  "resume_get c chash provider model thinking =
     map_of c (make_cache_key chash provider model thinking)"

definition resume_put :: "cached_response \<Rightarrow> string \<Rightarrow> string \<Rightarrow> resume_cache \<Rightarrow> resume_cache" where
  "resume_put r provider model c =
     dset (make_cache_key (cr_composite_hash r) provider model (cr_thinking r)) r c"

lemma resume_get_put:
  "resume_get (resume_put r p m c) ch pv md th =
     (if ch = cr_composite_hash r \<and> pv = p \<and> md = m \<and> th = cr_thinking r then Some r else resume_get c ch pv md th)"
  by (simp add: resume_get_def resume_put_def make_cache_key_def)

end
