(* ===== verification/Budget_Gate.thy ===== *)
theory Budget_Gate
  imports Prelude
begin

text \<open>
  \<open>runner/budget.py\<close>: the spend cap per op. \<open>check\<close> and \<open>record_cost\<close> each run under one lock, so each is
  one step on the gate, and concurrent pipelines are any interleaving of such steps. The spend query of the storage is
  the parameter \<open>query\<close>, which may raise.
\<close>

record stage_budget =
  sb_cap_usd :: real
  sb_headroom_factor :: real

type_synonym budget_key = "string \<times> string"

record budget_gate =
  bg_budgets_by_op :: "(string, stage_budget) dict"
  bg_last_call_cost_by_op :: "(string, real) dict"
  bg_spent_by_key :: "(budget_key, real) dict"
  bg_reserved_by_key :: "(budget_key, real) dict"
  bg_seeded_keys :: "budget_key set"

definition gate_new :: "(string, stage_budget) dict \<Rightarrow> budget_gate" where
  "gate_new budgets = \<lparr>bg_budgets_by_op = budgets, bg_last_call_cost_by_op = [], bg_spent_by_key = [],
     bg_reserved_by_key = [], bg_seeded_keys = {}\<rparr>"

text \<open>The answer of \<open>check\<close>: admitted, spend with reservations, cap, reservation.\<close>

record gate_answer =
  ga_can_proceed :: bool
  ga_spend :: real
  ga_cap :: xreal
  ga_reservation :: real

definition projected_cost :: "stage_budget \<Rightarrow> real \<Rightarrow> real option \<Rightarrow> real" where
  "projected_cost budget last_cost stage_budget_per_call =
     (let floor_cost = (case stage_budget_per_call of Some f \<Rightarrow> if last_cost = 0 then f else 0 | None \<Rightarrow> 0)
      in max (max (last_cost * sb_headroom_factor budget) floor_cost) (1 / 100))"

text \<open>The seeding block: once per key, the running total is read from storage.\<close>

definition seed_key ::
  "(string \<Rightarrow> (string, real) dict result) \<Rightarrow> budget_key \<Rightarrow> budget_gate \<Rightarrow> budget_gate result" where
  "seed_key query key g =
     (if key \<in> bg_seeded_keys g then Inr g
      else case query (fst key) of
        Inl e \<Rightarrow> Inl e
      | Inr spent_by_op \<Rightarrow>
          Inr (g\<lparr>bg_spent_by_key := dset key (dget spent_by_op (snd key) 0) (bg_spent_by_key g),
                bg_seeded_keys := insert key (bg_seeded_keys g)\<rparr>))"

definition gate_check ::
  "(string \<Rightarrow> (string, real) dict result) \<Rightarrow> string \<Rightarrow> string \<Rightarrow> real option \<Rightarrow> budget_gate
     \<Rightarrow> (gate_answer \<times> budget_gate) result" where
  "gate_check query tag op stage_budget_per_call g0 =
     (case map_of (bg_budgets_by_op g0) op of
        None \<Rightarrow> Inr (\<lparr>ga_can_proceed = True, ga_spend = 0, ga_cap = PInf, ga_reservation = 0\<rparr>, g0)
      | Some budget \<Rightarrow>
          let key = (tag, op) in
          case seed_key query key g0 of
            Inl e \<Rightarrow> Inl e
          | Inr g \<Rightarrow>
              let spent = dget (bg_spent_by_key g) key 0;
                  reserved = dget (bg_reserved_by_key g) key 0;
                  projected = projected_cost budget (dget (bg_last_call_cost_by_op g) op 0) stage_budget_per_call
              in if spent + reserved + projected > sb_cap_usd budget
                 then Inr (\<lparr>ga_can_proceed = False, ga_spend = spent + reserved,
                            ga_cap = Fin (sb_cap_usd budget), ga_reservation = 0\<rparr>, g)
                 else Inr (\<lparr>ga_can_proceed = True, ga_spend = spent + reserved,
                            ga_cap = Fin (sb_cap_usd budget), ga_reservation = projected\<rparr>,
                           g\<lparr>bg_reserved_by_key := dset key (reserved + projected) (bg_reserved_by_key g)\<rparr>))"

definition record_cost ::
  "string \<Rightarrow> string \<Rightarrow> real \<Rightarrow> real option \<Rightarrow> real \<Rightarrow> budget_gate \<Rightarrow> budget_gate" where
  "record_cost tag op cost_usd effective_cost_usd reservation g =
     (let key = (tag, op);
          eff = (case effective_cost_usd of Some e \<Rightarrow> e | None \<Rightarrow> cost_usd)
      in g\<lparr>bg_last_call_cost_by_op := dset op cost_usd (bg_last_call_cost_by_op g),
           bg_spent_by_key := dset key (dget (bg_spent_by_key g) key 0 + eff) (bg_spent_by_key g),
           bg_reserved_by_key := dset key (max 0 (dget (bg_reserved_by_key g) key 0 - reservation)) (bg_reserved_by_key g)\<rparr>)"

section \<open>Interleaved use of the gate\<close>

text \<open>
  The observer beside the gate: the reservations handed out and not yet reconciled, the value each key was
  seeded with, and how far recorded costs went beyond their reservations.
\<close>

record gate_run =
  gr_gate :: budget_gate
  gr_open :: "(budget_key \<times> real) multiset"
  gr_seed :: "budget_key \<Rightarrow> real"
  gr_over :: "budget_key \<Rightarrow> real"

definition run_start :: "(string, stage_budget) dict \<Rightarrow> gate_run" where
  "run_start budgets = \<lparr>gr_gate = gate_new budgets, gr_open = {#}, gr_seed = (\<lambda>_. 0), gr_over = (\<lambda>_. 0)\<rparr>"

definition seeds_after :: "(string \<Rightarrow> (string, real) dict result) \<Rightarrow> budget_gate \<Rightarrow> budget_key
     \<Rightarrow> (budget_key \<Rightarrow> real) \<Rightarrow> budget_key \<Rightarrow> real" where
  "seeds_after query g key sd =
     (if map_of (bg_budgets_by_op g) (snd key) = None \<or> key \<in> bg_seeded_keys g then sd
      else case query (fst key) of Inl e \<Rightarrow> sd | Inr d \<Rightarrow> sd(key := dget d (snd key) 0))"

text \<open>
  One step of any pipeline: it asks and is admitted, asks and is turned away, or reconciles a
  reservation it holds with the cost of the call it made.
\<close>

inductive gate_step :: "gate_run \<Rightarrow> gate_run \<Rightarrow> bool" where
  admitted: "gate_check query tag op floor_cost (gr_gate r) = Inr (ans, g') \<Longrightarrow> ga_can_proceed ans \<Longrightarrow>
     gate_step r \<lparr>gr_gate = g', gr_open = add_mset ((tag, op), ga_reservation ans) (gr_open r),
       gr_seed = seeds_after query (gr_gate r) (tag, op) (gr_seed r), gr_over = gr_over r\<rparr>"
| skipped: "gate_check query tag op floor_cost (gr_gate r) = Inr (ans, g') \<Longrightarrow> \<not> ga_can_proceed ans \<Longrightarrow>
     gate_step r \<lparr>gr_gate = g', gr_open = gr_open r,
       gr_seed = seeds_after query (gr_gate r) (tag, op) (gr_seed r), gr_over = gr_over r\<rparr>"
| reconciled: "((tag, op), resv) \<in># gr_open r \<Longrightarrow> e = (case eff of Some x \<Rightarrow> x | None \<Rightarrow> cost) \<Longrightarrow>
     gate_step r \<lparr>gr_gate = record_cost tag op cost eff resv (gr_gate r),
       gr_open = gr_open r - {#((tag, op), resv)#}, gr_seed = gr_seed r,
       gr_over = (gr_over r)((tag, op) := gr_over r (tag, op) + max 0 (e - resv))\<rparr>"

inductive_cases gate_stepE: "gate_step r r'"

definition open_sum :: "budget_key \<Rightarrow> (budget_key \<times> real) multiset \<Rightarrow> real" where
  "open_sum key M = sum_mset (image_mset snd (filter_mset (\<lambda>kr. fst kr = key) M))"

definition committed :: "budget_gate \<Rightarrow> budget_key \<Rightarrow> real" where
  "committed g key = dget (bg_spent_by_key g) key 0 + dget (bg_reserved_by_key g) key 0"

definition key_ok ::
  "stage_budget option \<Rightarrow> real \<Rightarrow> real \<Rightarrow> real \<Rightarrow> bool \<Rightarrow> bool \<Rightarrow> real \<Rightarrow> real \<Rightarrow> bool" where
  "key_ok budget reserved spent outstanding seeded pending sd ov \<longleftrightarrow>
     reserved = outstanding \<and> 0 \<le> ov
     \<and> (case budget of None \<Rightarrow> True
        | Some b \<Rightarrow> if seeded then spent + reserved \<le> max (sb_cap_usd b) sd + ov else \<not> pending \<and> ov = 0)"

definition key_inv :: "(string, stage_budget) dict \<Rightarrow> gate_run \<Rightarrow> budget_key \<Rightarrow> bool" where
  "key_inv budgets r key \<longleftrightarrow>
     key_ok (map_of budgets (snd key)) (dget (bg_reserved_by_key (gr_gate r)) key 0)
       (dget (bg_spent_by_key (gr_gate r)) key 0) (open_sum key (gr_open r))
       (key \<in> bg_seeded_keys (gr_gate r)) (key \<in> fst ` set_mset (gr_open r)) (gr_seed r key) (gr_over r key)"

lemma key_ok_mono: "key_ok b rs sp os se p sd ov \<Longrightarrow> (p' \<longrightarrow> p) \<Longrightarrow> key_ok b rs sp os se p' sd ov"
  by (auto simp: key_ok_def split: option.splits if_splits)

lemma key_ok_reconcile:
  "key_ok b rs sp os se True sd ov \<Longrightarrow> resv \<le> os \<Longrightarrow>
    key_ok b (max 0 (rs - resv)) (sp + e) (os - resv) se p sd (ov + max 0 (e - resv))"
  by (auto simp: key_ok_def split: option.splits if_splits)

definition gate_inv :: "(string, stage_budget) dict \<Rightarrow> gate_run \<Rightarrow> bool" where
  "gate_inv budgets r \<longleftrightarrow> bg_budgets_by_op (gr_gate r) = budgets
     \<and> (\<forall>kr. kr \<in># gr_open r \<longrightarrow> 0 \<le> snd kr) \<and> (\<forall>key. key_inv budgets r key)"

text \<open>What a key's invariant reads; steps on other keys leave it.\<close>

lemma key_inv_cong:
  assumes "key_inv budgets r key"
    "dget (bg_reserved_by_key (gr_gate r')) key 0 = dget (bg_reserved_by_key (gr_gate r)) key 0"
    "dget (bg_spent_by_key (gr_gate r')) key 0 = dget (bg_spent_by_key (gr_gate r)) key 0"
    "open_sum key (gr_open r') = open_sum key (gr_open r)"
    "key \<in> bg_seeded_keys (gr_gate r') \<longleftrightarrow> key \<in> bg_seeded_keys (gr_gate r)"
    "key \<in> fst ` set_mset (gr_open r') \<Longrightarrow> key \<in> fst ` set_mset (gr_open r)"
    "gr_seed r' key = gr_seed r key" "gr_over r' key = gr_over r key"
  shows "key_inv budgets r' key"
  using assms(1) unfolding key_inv_def assms(2-5,7-8) by (rule key_ok_mono) (use assms(6) in blast)

lemma open_sum_simps [simp]:
  "open_sum key {#} = 0"
  "open_sum key (add_mset kr M) = open_sum key M + (if fst kr = key then snd kr else 0)"
  by (simp_all add: open_sum_def)

lemma open_sum_remove:
  "kr \<in># M \<Longrightarrow> open_sum key (M - {#kr#}) = open_sum key M - (if fst kr = key then snd kr else 0)"
  using open_sum_simps(2) [of key kr "M - {#kr#}"] by simp

lemma open_sum_nonneg:
  "(\<And>x. x \<in># M \<Longrightarrow> 0 \<le> snd x) \<Longrightarrow> 0 \<le> open_sum key M"
  by (induction M) auto

lemma open_sum_member:
  assumes "kr \<in># M" "\<And>x. x \<in># M \<Longrightarrow> 0 \<le> snd x"
  shows "snd kr \<le> open_sum (fst kr) M"
proof -
  have "0 \<le> open_sum (fst kr) (M - {#kr#})"
    using assms(2) by (intro open_sum_nonneg) (auto dest: in_diffD)
  with open_sum_remove [OF assms(1), of "fst kr"] show ?thesis by simp
qed

lemma projected_pos [simp]: "0 < projected_cost b l f"
  by (simp add: projected_cost_def Let_def less_max_iff_disj)

lemma seed_key_facts:
  assumes "seed_key query key g = Inr g1"
  shows "bg_budgets_by_op g1 = bg_budgets_by_op g" "bg_reserved_by_key g1 = bg_reserved_by_key g"
    "bg_seeded_keys g1 = insert key (bg_seeded_keys g)"
    "bg_last_call_cost_by_op g1 = bg_last_call_cost_by_op g"
    "k \<noteq> key \<Longrightarrow> dget (bg_spent_by_key g1) k 0 = dget (bg_spent_by_key g) k 0"
    "key \<in> bg_seeded_keys g \<Longrightarrow> g1 = g"
    "key \<notin> bg_seeded_keys g \<Longrightarrow> \<exists>d. query (fst key) = Inr d \<and> dget (bg_spent_by_key g1) key 0 = dget d (snd key) 0"
  using assms by (auto simp: seed_key_def dget_dset split: if_splits sum.splits)

lemma gate_check_cases:
  assumes "gate_check query tag op f g = Inr (ans, g')"
  obtains
    (unlimited) "map_of (bg_budgets_by_op g) op = None" "g' = g" "ga_can_proceed ans" "ga_reservation ans = 0"
  | (turned_away) b where "map_of (bg_budgets_by_op g) op = Some b" "seed_key query (tag, op) g = Inr g'"
      "\<not> ga_can_proceed ans"
  | (limited) b g1 where "map_of (bg_budgets_by_op g) op = Some b" "seed_key query (tag, op) g = Inr g1"
      "ga_can_proceed ans" "0 < ga_reservation ans"
      "committed g1 (tag, op) + ga_reservation ans \<le> sb_cap_usd b"
      "g' = g1\<lparr>bg_reserved_by_key := dset (tag, op)
         (dget (bg_reserved_by_key g1) (tag, op) 0 + ga_reservation ans) (bg_reserved_by_key g1)\<rparr>"
  using assms
  by (auto simp: gate_check_def Let_def committed_def split: option.splits sum.splits if_splits)

lemma open_sum_absent: "key \<notin> fst ` set_mset M \<Longrightarrow> open_sum key M = 0"
  by (induction M) auto

text \<open>The invariant after seeding.\<close>

lemma gate_inv_seed:
  assumes inv: "gate_inv budgets r" and seed: "seed_key query (tag, op) (gr_gate r) = Inr g1"
    and b: "map_of budgets op = Some b"
  shows "gate_inv budgets \<lparr>gr_gate = g1, gr_open = gr_open r,
    gr_seed = seeds_after query (gr_gate r) (tag, op) (gr_seed r), gr_over = gr_over r\<rparr>"
    (is "gate_inv budgets ?r'")
proof (cases "(tag, op) \<in> bg_seeded_keys (gr_gate r)")
  case True
  then show ?thesis using inv seed_key_facts(6) [OF seed] by (cases r) (simp add: seeds_after_def)
next
  case False
  note f = seed_key_facts [OF seed]
  from f(7) [OF False] obtain d where d: "query tag = Inr d"
    "dget (bg_spent_by_key g1) (tag, op) 0 = dget d op 0" by auto
  have bud: "bg_budgets_by_op (gr_gate r) = budgets" and key: "key_inv budgets r k" for k
    using inv unfolding gate_inv_def by blast+
  have "key_inv budgets ?r' k" for k
  proof (cases "k = (tag, op)")
    case True
    have "gr_seed ?r' (tag, op) = dget d op 0" using False d(1) b bud by (simp add: seeds_after_def)
    then show ?thesis using key [of k] True False b d(2) f(2,3) open_sum_absent
      by (auto simp: key_inv_def key_ok_def committed_def)
  next
    case other: False
    then have "gr_seed ?r' k = gr_seed r k" by (auto simp: seeds_after_def split: sum.splits)
    then show ?thesis by (intro key_inv_cong [OF key [of k]]) (use f other in auto)
  qed
  then show ?thesis using inv f(1) by (simp add: gate_inv_def)
qed

lemma gate_step_inv:
  assumes "gate_step r r'" "gate_inv budgets r"
  shows "gate_inv budgets r'"
  using assms(1)
proof (cases rule: gate_step.cases)
  case (admitted query tag op f ans g')
  from admitted(2) show ?thesis
  proof (cases rule: gate_check_cases)
    case unlimited
    have key: "key_inv budgets r k" and bud: "bg_budgets_by_op (gr_gate r) = budgets" for k
      using assms(2) unfolding gate_inv_def by blast+
    have "key_inv budgets r' k" for k
      using key [of k] unlimited bud
      by (cases "k = (tag, op)") (auto simp: admitted(1) key_inv_def key_ok_def seeds_after_def split: option.splits)
    then show ?thesis using assms(2) unlimited by (auto simp: gate_inv_def admitted(1))
  next
    case (turned_away b)
    with admitted(3) show ?thesis by simp
  next
    case (limited b g1)
    have b: "map_of budgets op = Some b" using limited(1) assms(2) by (simp add: gate_inv_def)
    let ?r1 = "\<lparr>gr_gate = g1, gr_open = gr_open r,
      gr_seed = seeds_after query (gr_gate r) (tag, op) (gr_seed r), gr_over = gr_over r\<rparr>"
    have inv1: "gate_inv budgets ?r1" by (rule gate_inv_seed [OF assms(2) limited(2) b])
    then have key: "key_inv budgets ?r1 k" for k unfolding gate_inv_def by blast
    have seeded: "(tag, op) \<in> bg_seeded_keys g1" using seed_key_facts(3) [OF limited(2)] by simp
    have "key_inv budgets r' k" for k
    proof (cases "k = (tag, op)")
      case True
      then show ?thesis using key [of k] seeded limited(5) b
        by (auto simp: admitted(1) limited(6) key_inv_def key_ok_def committed_def dget_dset)
    next
      case False
      then show ?thesis
        by (intro key_inv_cong [OF key [of k]]) (auto simp: admitted(1) limited(6) dget_dset)
    qed
    then show ?thesis using inv1 limited(4) by (auto simp: gate_inv_def admitted(1) limited(6))
  qed
next
  case (skipped query tag op f ans g')
  from skipped(2) show ?thesis
  proof (cases rule: gate_check_cases)
    case (turned_away b)
    moreover have "map_of budgets op = Some b" using turned_away(1) assms(2) by (simp add: gate_inv_def)
    ultimately show ?thesis using gate_inv_seed [OF assms(2)] skipped(1) by simp
  qed (use skipped(3) in simp_all)
next
  case (reconciled tag op resv e eff cost)
  have key: "key_inv budgets r k" for k using assms(2) unfolding gate_inv_def by blast
  have pos: "\<And>x. x \<in># gr_open r \<Longrightarrow> 0 \<le> snd x" using assms(2) unfolding gate_inv_def by blast
  have le: "resv \<le> open_sum (tag, op) (gr_open r)"
    using open_sum_member [OF reconciled(2) pos] by simp
  have mem: "(tag, op) \<in> fst ` set_mset (gr_open r)" using reconciled(2) by force
  have "key_inv budgets r' k" for k
  proof (cases "k = (tag, op)")
    case True
    have "key_ok (map_of budgets op) (dget (bg_reserved_by_key (gr_gate r)) (tag, op) 0)
        (dget (bg_spent_by_key (gr_gate r)) (tag, op) 0) (open_sum (tag, op) (gr_open r))
        ((tag, op) \<in> bg_seeded_keys (gr_gate r)) True (gr_seed r (tag, op)) (gr_over r (tag, op))"
      using key [of "(tag, op)"] mem by (simp add: key_inv_def)
    from key_ok_reconcile [OF this le, where e = e] show ?thesis
      unfolding True key_inv_def reconciled(1)
      by (simp add: record_cost_def Let_def dget_dset open_sum_remove [OF reconciled(2)] reconciled(3))
  next
    case False
    then show ?thesis
      by (intro key_inv_cong [OF key [of k]])
         (auto simp: reconciled(1) record_cost_def Let_def dget_dset open_sum_remove [OF reconciled(2)]
           dest: in_diffD)
  qed
  moreover have "bg_budgets_by_op (gr_gate r') = budgets"
    using assms(2) unfolding gate_inv_def by (simp add: reconciled(1) record_cost_def Let_def)
  moreover have "0 \<le> snd kr" if "kr \<in># gr_open r'" for kr
    using pos [of kr] in_diffD [of kr "gr_open r"] that unfolding reconciled(1) gate_run.simps by blast
  ultimately show ?thesis unfolding gate_inv_def by blast
qed

lemma gate_run_inv: "gate_step\<^sup>*\<^sup>* (run_start budgets) r \<Longrightarrow> gate_inv budgets r"
proof (induction rule: rtranclp_induct)
  case base
  show ?case by (auto simp: gate_inv_def key_inv_def key_ok_def run_start_def gate_new_def dget_def split: option.splits)
next
  case (step r r')
  then show ?case by (blast intro: gate_step_inv)
qed

section \<open>Properties\<close>

text \<open>
  C29: The cap holds under concurrency. However the checks and reconciliations of any number of pipelines
  interleave, what is spent and what is reserved of a capped op together never exceed the cap (or the spend the key
  was seeded with, if that was higher) by more than the recorded costs went beyond their reservations; and the
  reserved amount is exactly the sum of the reservations not yet reconciled.
\<close>

theorem budget_cap_respected:
  assumes "gate_step\<^sup>*\<^sup>* (run_start budgets) r" "map_of budgets op = Some b"
    "(tag, op) \<in> bg_seeded_keys (gr_gate r)"
  shows "dget (bg_spent_by_key (gr_gate r)) (tag, op) 0 + open_sum (tag, op) (gr_open r)
      \<le> max (sb_cap_usd b) (gr_seed r (tag, op)) + gr_over r (tag, op)
    \<and> dget (bg_reserved_by_key (gr_gate r)) (tag, op) 0 = open_sum (tag, op) (gr_open r)
    \<and> 0 \<le> open_sum (tag, op) (gr_open r)"
proof -
  have inv: "gate_inv budgets r" using assms(1) by (rule gate_run_inv)
  then have "key_inv budgets r (tag, op)" and pos: "\<And>x. x \<in># gr_open r \<Longrightarrow> 0 \<le> snd x"
    unfolding gate_inv_def by blast+
  then show ?thesis using assms(2,3) open_sum_nonneg [OF pos]
    by (simp add: key_inv_def key_ok_def)
qed

text \<open>
  Nothing stays reserved: once every admitted call has been reconciled, no key has a reservation left, so the
  next check sees exactly what was spent.
\<close>

theorem reconciled_gate_has_no_reservations:
  assumes "gate_step\<^sup>*\<^sup>* (run_start budgets) r" "gr_open r = {#}"
  shows "dget (bg_reserved_by_key (gr_gate r)) key 0 = 0"
proof -
  have "key_inv budgets r key" using gate_run_inv [OF assms(1)] unfolding gate_inv_def by blast
  then show ?thesis using assms(2) by (simp add: key_inv_def key_ok_def)
qed

definition dollar_budget :: "(string, stage_budget) dict" where
  "dollar_budget = [(''op'', \<lparr>sb_cap_usd = 1, sb_headroom_factor = 3 / 2\<rparr>)]"

definition no_spend :: "string \<Rightarrow> (string, real) dict result" where
  "no_spend t = Inr []"

text \<open>A run of one call: admitted with the declared floor of 50 cents, then reconciled at 20 cents.\<close>

lemma one_call_run:
  "\<exists>r1 r2. gate_step (run_start dollar_budget) r1 \<and> gate_step r1 r2
     \<and> gr_open r1 = {#((''t'', ''op''), 1 / 2)#} \<and> gr_open r2 = {#}
     \<and> (''t'', ''op'') \<in> bg_seeded_keys (gr_gate r1) \<and> gr_seed r1 (''t'', ''op'') = 0 \<and> gr_over r1 (''t'', ''op'') = 0"
proof -
  let ?r0 = "run_start dollar_budget"
  obtain ans g1 where c: "gate_check no_spend ''t'' ''op'' (Some (1 / 2)) (gr_gate ?r0) = Inr (ans, g1)"
    and a: "ga_can_proceed ans" "ga_reservation ans = 1 / 2" "bg_seeded_keys g1 = {(''t'', ''op'')}"
    by (simp add: gate_check_def run_start_def gate_new_def dollar_budget_def seed_key_def no_spend_def
        Let_def projected_cost_def dget_def)
  let ?r1 = "\<lparr>gr_gate = g1, gr_open = {#((''t'', ''op''), 1 / 2)#},
    gr_seed = seeds_after no_spend (gr_gate ?r0) (''t'', ''op'') (gr_seed ?r0), gr_over = gr_over ?r0\<rparr>"
  have s1: "gate_step ?r0 ?r1" using gate_step.admitted [OF c a(1)] a(2) by (simp add: run_start_def)
  have "((''t'', ''op''), 1 / 2) \<in># gr_open ?r1" by simp
  from gate_step.reconciled [where eff = None and cost = "1 / 5", OF this refl]
  obtain r2 where s2: "gate_step ?r1 r2" "gr_open r2 = {#}" by fastforce
  have "gr_seed ?r1 (''t'', ''op'') = 0" "gr_over ?r1 (''t'', ''op'') = 0"
    by (simp_all add: run_start_def seeds_after_def no_spend_def dget_def split: sum.splits)
  with s1 s2 a(3) show ?thesis by (intro exI [of _ ?r1] exI [of _ r2]) simp
qed

theorem budget_cap_respected_witness:
  "\<exists>r. gate_step\<^sup>*\<^sup>* (run_start dollar_budget) r \<and> gr_open r = {#((''t'', ''op''), 1 / 2)#}
     \<and> dget (bg_spent_by_key (gr_gate r)) (''t'', ''op'') 0 + 1 / 2 \<le> 1"
proof -
  obtain r1 r2 where s: "gate_step (run_start dollar_budget) r1" "gr_open r1 = {#((''t'', ''op''), 1 / 2)#}"
    "(''t'', ''op'') \<in> bg_seeded_keys (gr_gate r1)" "gr_seed r1 (''t'', ''op'') = 0" "gr_over r1 (''t'', ''op'') = 0"
    using one_call_run by blast
  have "map_of dollar_budget ''op'' = Some \<lparr>sb_cap_usd = 1, sb_headroom_factor = 3 / 2\<rparr>" by (simp add: dollar_budget_def)
  from budget_cap_respected [OF r_into_rtranclp [where r = gate_step, OF s(1)] this s(3)] r_into_rtranclp [where r = gate_step, OF s(1)] s show ?thesis by auto
qed

theorem reconciled_gate_has_no_reservations_witness:
  "\<exists>r. gate_step\<^sup>*\<^sup>* (run_start dollar_budget) r \<and> r \<noteq> run_start dollar_budget \<and> gr_open r = {#}
     \<and> dget (bg_reserved_by_key (gr_gate r)) (''t'', ''op'') 0 = 0"
proof -
  obtain r1 r2 where s: "gate_step (run_start dollar_budget) r1" "gate_step r1 r2" "gr_open r2 = {#}"
    "(''t'', ''op'') \<in> bg_seeded_keys (gr_gate r1)"
    using one_call_run by blast
  then have run: "gate_step\<^sup>*\<^sup>* (run_start dollar_budget) r2" by (meson r_into_rtranclp rtranclp.rtrancl_into_rtrancl)
  have "bg_seeded_keys (gr_gate r1) \<subseteq> bg_seeded_keys (gr_gate r2)" using s(2)
    by (auto elim!: gate_stepE gate_check_cases dest: seed_key_facts(3) simp: record_cost_def Let_def)
  then have "r2 \<noteq> run_start dollar_budget" using s(4) by (auto simp: run_start_def gate_new_def)
  with reconciled_gate_has_no_reservations [OF run s(3)] run s(3) show ?thesis by blast
qed

end
