(* ===== verification/Error_Classify.thy ===== *)
theory Error_Classify
  imports Alive_Filter
begin

text \<open>
  \<open>runner/classify.py\<close>: provider exceptions to stable labels, by an ordered list of substring tests on the
  lowered message.
\<close>

definition has_any :: "string list \<Rightarrow> string \<Rightarrow> bool" where
  "has_any needles msg = list_ex (\<lambda>n. str_in n msg) needles"

definition classify_provider_error :: "string \<Rightarrow> string option \<Rightarrow> string" where
  "classify_provider_error name_of_exc message =
     (let msg = lower (case message of None \<Rightarrow> [] | Some m \<Rightarrow> m) in
      if name_of_exc = ''LLMStreamInterruptedError'' then ''StreamInterrupted''
      else if has_any [''requested parameters'', ''require_parameters''] msg then ''ParametersUnsupported''
      else if has_any [''api error 404'', ''api error 405'', ''api error 410'', ''method not allowed'',
                       ''no endpoints found'', '' not found''] msg then ''ModelNotFound''
      else if has_any [''maximum context length'', ''context length is''] msg then ''ContextOverflow''
      else if has_any [''returned no choices'', ''empty choices''] msg then ''EmptyChoices''
      else if str_in ''json'' msg \<and> has_any [''not support'', ''unsupported'', ''response_format''] msg
        then ''JsonModeUnsupported''
      else if has_any [''429'', ''rate limit'', ''too many requests''] msg
           \<or> str_in ''quota'' msg \<and> has_any [''exceed'', ''exhaust''] msg then ''RateLimited''
      else if str_in ''provider returned error'' msg then ''ProviderError''
      else name_of_exc)"

definition ERROR_LABELS :: "string list" where
  "ERROR_LABELS = [''StreamInterrupted'', ''ParametersUnsupported'', ''ModelNotFound'', ''ContextOverflow'',
     ''EmptyChoices'', ''JsonModeUnsupported'', ''RateLimited'', ''ProviderError'']"

lemma lower_char_idem: "lower_char (lower_char c) = lower_char c"
proof -
  have "of_char (char_of (n + 32) :: char) = n + 32" if "n \<le> 90" for n :: nat
    using that by (simp add: of_char_of)
  then show ?thesis by (auto simp: lower_char_def Let_def)
qed

lemma lower_idem [simp]: "lower (lower s) = lower s"
  by (simp add: lower_def lower_char_idem)

text \<open>
  The label depends on the message up to case only, is one of eight or the exception's own name, and the
  tests have the stated priority: whatever else the message says, a message about unsupported request parameters
  is never taken for a missing model, and one about a missing model never for a provider error or a
  rate limit.
\<close>

theorem classification_priority:
  "classify_provider_error e (Some (lower m)) = classify_provider_error e (Some m)
   \<and> (classify_provider_error e (Some m) \<in> set ERROR_LABELS \<or> classify_provider_error e (Some m) = e)
   \<and> (e = ''LLMStreamInterruptedError'' \<or>
      classify_provider_error e (Some (p @ ''requested parameters'' @ q)) = ''ParametersUnsupported'')
   \<and> classify_provider_error e (Some (p @ ''api error 404'' @ q))
        \<in> {''StreamInterrupted'', ''ParametersUnsupported'', ''ModelNotFound''}"
proof -
  have low: "lower (p @ x @ q) = lower p @ lower x @ lower q" for x by (simp add: lower_def)
  have "lower ''requested parameters'' = ''requested parameters''" "lower ''api error 404'' = ''api error 404''"
    by (simp_all add: lower_def lower_char_def)
  then have "has_any [''requested parameters'', ''require_parameters''] (lower (p @ ''requested parameters'' @ q))"
    "has_any [''api error 404'', ''api error 405'', ''api error 410'', ''method not allowed'',
       ''no endpoints found'', '' not found''] (lower (p @ ''api error 404'' @ q))"
    unfolding low by (auto simp: has_any_def str_in_iff)
  then have "e = ''LLMStreamInterruptedError'' \<or>
      classify_provider_error e (Some (p @ ''requested parameters'' @ q)) = ''ParametersUnsupported''"
    "classify_provider_error e (Some (p @ ''api error 404'' @ q))
      \<in> {''StreamInterrupted'', ''ParametersUnsupported'', ''ModelNotFound''}"
    by (simp_all add: classify_provider_error_def Let_def)
  moreover have "classify_provider_error e (Some (lower m)) = classify_provider_error e (Some m)"
    by (simp add: classify_provider_error_def Let_def)
  moreover have "classify_provider_error e (Some m) \<in> set ERROR_LABELS \<or> classify_provider_error e (Some m) = e"
    by (simp add: classify_provider_error_def Let_def ERROR_LABELS_def)
  ultimately show ?thesis by blast
qed

end
