(* ===== verification/Stage_Kwargs.thy ===== *)
theory Stage_Kwargs
  imports Core_Types
begin

text \<open>
  \<open>runner/stage_kwargs.py\<close>: the provider kwargs of one stage call, and the log-once helper with its global set.
\<close>

definition dupdate :: "('k, 'v) dict \<Rightarrow> ('k, 'v) dict \<Rightarrow> ('k, 'v) dict" where
  "dupdate d new = fold (\<lambda>(k, v) out. dset k v out) new d"

definition resolve_kwarg :: "string \<Rightarrow> string \<Rightarrow> string \<Rightarrow> kwval \<Rightarrow> json" where
  "resolve_kwarg model system user v = (case v of KCall f \<Rightarrow> f model system user | KVal j \<Rightarrow> j)"

definition stage_generate_kwargs :: "'p stage \<Rightarrow> string \<Rightarrow> string \<Rightarrow> string \<Rightarrow> (string, json) dict" where
  "stage_generate_kwargs stg model system user =
     (let kwargs0 = (case sg_json_schema stg of None \<Rightarrow> [] | Some js \<Rightarrow> [(''json_schema'', KVal js)]);
          kwargs = dupdate kwargs0 (sg_generate_kwargs stg)
      in map (\<lambda>(key, v). (key, resolve_kwarg model system user v)) kwargs)"

text \<open>\<open>warn_once\<close>: whether the line is logged, and the set of messages already logged.\<close>

definition warn_once :: "string \<Rightarrow> string set \<Rightarrow> bool \<times> string set" where
  "warn_once message warned = (if message \<in> warned then (False, warned) else (True, insert message warned))"

lemma map_of_dupdate:
  "dict_ok new \<Longrightarrow> map_of (dupdate d new) k = (case map_of new k of Some v \<Rightarrow> Some v | None \<Rightarrow> map_of d k)"
proof (induction new arbitrary: d)
  case (Cons x new)
  then have "map_of new (fst x) = None" by (simp add: map_of_eq_None_iff)
  with Cons show ?case by (cases x) (auto simp: dupdate_def split: option.splits)
qed (simp add: dupdate_def)

lemma dict_ok_dupdate: "dict_ok d \<Longrightarrow> dict_ok (dupdate d new)"
  by (induction new arbitrary: d) (auto simp: dupdate_def)

text \<open>
  The precedence of a stage's kwargs: a key the consumer set in \<open>generate_kwargs\<close> wins, \<open>json_schema\<close> included,
  its callable values are resolved with the model and prompts of the call, and no key appears twice.
\<close>

theorem stage_kwargs_precedence:
  assumes "dict_ok (sg_generate_kwargs stg)"
  shows "map_of (stage_generate_kwargs stg model system user) k =
      (case map_of (sg_generate_kwargs stg) k of
         Some v \<Rightarrow> Some (resolve_kwarg model system user v)
       | None \<Rightarrow> if k = ''json_schema'' then sg_json_schema stg else None)
    \<and> dict_ok (stage_generate_kwargs stg model system user)"
proof -
  define d where "d = (case sg_json_schema stg of None \<Rightarrow> [] | Some js \<Rightarrow> [(''json_schema'', KVal js)])"
  have d: "dict_ok d" "map_of d k = (if k = ''json_schema'' then map_option KVal (sg_json_schema stg) else None)"
    by (simp_all add: d_def split: option.splits)
  let ?f = "resolve_kwarg model system user" and ?e = "dupdate d (sg_generate_kwargs stg)"
  have res: "stage_generate_kwargs stg model system user = map (\<lambda>(key, v). (key, ?f v)) ?e"
    by (simp add: stage_generate_kwargs_def Let_def d_def)
  have "dict_ok (stage_generate_kwargs stg model system user)"
    using dict_ok_dupdate [OF d(1)] by (simp add: res dict_ok_def case_prod_beta comp_def)
  moreover have "map_of (stage_generate_kwargs stg model system user) k = map_option ?f (map_of ?e k)"
    unfolding res using map_of_map [of ?f ?e] by simp
  moreover have "map_option ?f (map_option KVal x) = x" for x by (cases x) (simp_all add: resolve_kwarg_def)
  ultimately show ?thesis
    using d(2) by (cases "map_of (sg_generate_kwargs stg) k") (auto simp: map_of_dupdate [OF assms])
qed

definition schema_stage :: "unit stage" where
  "schema_stage = \<lparr>sg_id = ''s'', sg_op = ''s'', sg_prompt_builder = (\<lambda>_ _ _. Inr None), sg_parser = (\<lambda>_ _ _ _. Inr None),
     sg_parent_stage = None, sg_is_validator = False, sg_lang = None, sg_budget_per_call = 0,
     sg_json_schema = Some (JBool True),
     sg_generate_kwargs = [(''max_tokens'', KCall (\<lambda>m s u. JNum (real (length u))))]\<rparr>"

theorem stage_kwargs_precedence_witness:
  "map_of (stage_generate_kwargs schema_stage ''m'' ''s'' ''user'') ''max_tokens'' = Some (JNum 4)
   \<and> map_of (stage_generate_kwargs schema_stage ''m'' ''s'' ''user'') ''json_schema'' = Some (JBool True)"
proof -
  have d: "dict_ok (sg_generate_kwargs schema_stage)" by (simp add: schema_stage_def)
  show ?thesis
    using stage_kwargs_precedence [OF d, of "''m''" "''s''" "''user''" "''max_tokens''"]
      stage_kwargs_precedence [OF d, of "''m''" "''s''" "''user''" "''json_schema''"]
    by (simp add: schema_stage_def resolve_kwarg_def)
qed

end
