(* ===== verification/Ranker.thy ===== *)
theory Ranker
  imports Core_Scoring
begin

text \<open>
  \<open>ranking/ranker.py\<close>: \<open>compute_ranking\<close> groups the rows of one experiment by stage, scores each
  row, averages per model, optionally blends in a gold accuracy, and picks the winner of each stage
  by the shared cost key. The row scorer, the gold checker and the task unit lookup are the
  consumer's, and so function parameters; they may return any float, \<open>nan\<close> and the infinities
  included. The rows are what the storage backend's \<open>query_rows\<close> yields, in an order the storage
  interface leaves open.
\<close>

section \<open>Scoring one row\<close>

fun clamp_score :: "pyfloat \<Rightarrow> real" where
  "clamp_score NaN = 0"
| "clamp_score (Num v) = max 0 (min 1 v)"
| "clamp_score PlusInf = 1"
| "clamp_score MinusInf = 0"

lemma clamp_score_bounds [simp]: "0 \<le> clamp_score v" "clamp_score v \<le> 1"
  by (cases v; simp)+

type_synonym row_scorer = "run_row \<Rightarrow> pyfloat"
type_synonym gold_checker = "task_unit option \<Rightarrow> string \<Rightarrow> string option \<Rightarrow> pyfloat"

definition default_row_scorer :: row_scorer where
  "default_row_scorer r =
     (if is_row_usable (rr_response r) (rr_error_class r) (rr_parse_failure_prefix r)
           MIN_USABLE_RESPONSE_LEN then Num 1 else Num 0)"

section \<open>The report\<close>

record stage_ranking =
  sr_stage :: string
  sr_rows :: "run_row list"
  sr_model_scores :: "(string, real) dict"
  sr_model_cost :: "(string, real) dict"
  sr_model_eff_cost :: "(string, real) dict"
  sr_model_avg_input_tokens :: "(string, real) dict"
  sr_model_avg_output_tokens :: "(string, real) dict"
  sr_model_avg_reasoning_tokens :: "(string, real) dict"
  sr_model_avg_latency_sec :: "(string, real) dict"
  sr_model_task_unit_scores :: "(string, (string, real) dict) dict"
  sr_winner :: "string option"

record ranking_report =
  rp_experiment_tag :: string
  rp_stages :: "(string, stage_ranking) dict"
  rp_per_model_summary :: "(string, (string, real) dict) dict"
  rp_gold_accuracy :: "(string \<times> string, nat \<times> real) dict"
  rp_n_rows :: nat

section \<open>The accumulators of one stage\<close>

record stage_acc =
  ac_scores :: "(string, real list) dict"
  ac_unit_scores :: "(string, (string, real list) dict) dict"
  ac_cost :: "(string, real list) dict"
  ac_eff_cost :: "(string, real list) dict"
  ac_in_tok :: "(string, real list) dict"
  ac_out_tok :: "(string, real list) dict"
  ac_rsn_tok :: "(string, real list) dict"
  ac_lat :: "(string, real list) dict"

definition acc_new :: stage_acc where
  "acc_new = \<lparr>ac_scores = [], ac_unit_scores = [], ac_cost = [], ac_eff_cost = [], ac_in_tok = [],
     ac_out_tok = [], ac_rsn_tok = [], ac_lat = []\<rparr>"

text \<open>\<open>if v is not None: d[k].append(v)\<close>.\<close>

definition dappend_opt :: "'k \<Rightarrow> 'v option \<Rightarrow> ('k, 'v list) dict \<Rightarrow> ('k, 'v list) dict" where
  "dappend_opt k v d = (case v of None \<Rightarrow> d | Some x \<Rightarrow> dappend k x d)"

definition acc_row :: "row_scorer \<Rightarrow> run_row \<Rightarrow> stage_acc \<Rightarrow> stage_acc" where
  "acc_row scorer r a =
     (let m = rr_model r; s = clamp_score (scorer r)
      in \<lparr>ac_scores = dappend m s (ac_scores a),
          ac_unit_scores = dset m (dappend (rr_task_unit_id r) s (dget (ac_unit_scores a) m []))
            (ac_unit_scores a),
          ac_cost = dappend_opt m (rr_cost_usd r) (ac_cost a),
          ac_eff_cost = dappend_opt m (rr_effective_cost_usd r) (ac_eff_cost a),
          ac_in_tok = dappend_opt m (map_option real_of_int (rr_input_tokens r)) (ac_in_tok a),
          ac_out_tok = dappend_opt m (map_option real_of_int (rr_output_tokens r)) (ac_out_tok a),
          ac_rsn_tok = dappend_opt m (map_option real_of_int (rr_reasoning_tokens r)) (ac_rsn_tok a),
          ac_lat = dappend_opt m (rr_mean_attempt_duration_sec r) (ac_lat a)\<rparr>)"

definition accumulate :: "row_scorer \<Rightarrow> run_row list \<Rightarrow> stage_acc" where
  "accumulate scorer rows = fold (acc_row scorer) rows acc_new"

definition means :: "('k, real list) dict \<Rightarrow> ('k, real) dict" where
  "means d = map (\<lambda>kv. (fst kv, fmean (snd kv))) (filter (\<lambda>kv. snd kv \<noteq> []) d)"

definition dsums :: "('k, real list) dict \<Rightarrow> ('k, real) dict" where
  "dsums d = map (\<lambda>kv. (fst kv, sum_list (snd kv))) d"

text \<open>The relative score: a model without values would score 0.\<close>

definition relative :: "('k, real list) dict \<Rightarrow> ('k, real) dict" where
  "relative d = map (\<lambda>kv. (fst kv, if snd kv \<noteq> [] then fmean (snd kv) else 0)) d"

definition unit_means :: "('k, ('u, real list) dict) dict \<Rightarrow> ('k, ('u, real) dict) dict" where
  "unit_means d = map (\<lambda>kv. (fst kv, map (\<lambda>uv. (fst uv, fmean (snd uv))) (snd kv))) d"

section \<open>The gold blend\<close>

text \<open>
  The task unit handed to the gold checker: looked up (the lookup may know none), or without a lookup
  a minimal one with the row's stratum.
\<close>

definition gold_task_unit :: "(string \<Rightarrow> task_unit option) option \<Rightarrow> run_row \<Rightarrow> task_unit option" where
  "gold_task_unit look r =
     (case look of Some f \<Rightarrow> f (rr_task_unit_id r)
      | None \<Rightarrow> Some \<lparr>tu_id = rr_task_unit_id r,
          tu_metadata = (if truthy (rr_stratum r) then [(''stratum'', JStr (the (rr_stratum r)))] else []),
          tu_stratum = rr_stratum r\<rparr>)"

definition gold_score :: "gold_checker \<Rightarrow> (string \<Rightarrow> task_unit option) option \<Rightarrow> run_row \<Rightarrow> real" where
  "gold_score checker look r =
     clamp_score (checker (gold_task_unit look r) (rr_stage r) (rr_response r))"

definition gold_scores ::
  "gold_checker \<Rightarrow> (string \<Rightarrow> task_unit option) option \<Rightarrow> run_row list \<Rightarrow> (string, real list) dict" where
  "gold_scores checker look rows = fold (\<lambda>r. dappend (rr_model r) (gold_score checker look r)) rows []"

text \<open>One pass of \<open>for m, gold_vals in gold_scores.items()\<close>.\<close>

definition blend_model ::
  "real \<Rightarrow> string \<times> real list \<Rightarrow> (string, real) dict \<Rightarrow> (string, real) dict" where
  "blend_model w = (\<lambda>(m, vals) rel.
     if vals = [] then rel else dset m ((1 - w) * dget rel m 0 + w * fmean vals) rel)"

definition blend :: "real \<Rightarrow> (string, real list) dict \<Rightarrow> (string, real) dict \<Rightarrow> (string, real) dict" where
  "blend w gold rel = fold (blend_model w) gold rel"

section \<open>One stage, and the whole report\<close>

definition pick_winner ::
  "(string, real) dict \<Rightarrow> (string, real) dict \<Rightarrow> (string, real) dict \<Rightarrow> string option" where
  "pick_winner scores eff_cost latency =
     (if scores = [] then None
      else Some (fst (hd (sort_key
        (\<lambda>kv. cost_tiebreak_key (fst kv) (snd kv) eff_cost True (Some latency)) scores))))"

definition rank_stage ::
  "row_scorer \<Rightarrow> gold_checker option \<Rightarrow> real \<Rightarrow> (string \<Rightarrow> task_unit option) option \<Rightarrow> string \<Rightarrow> run_row list
     \<Rightarrow> stage_ranking" where
  "rank_stage scorer checker w look stage rows =
     (let a = accumulate scorer rows;
          rel = relative (ac_scores a);
          scores = (case checker of None \<Rightarrow> rel | Some c \<Rightarrow> blend w (gold_scores c look rows) rel);
          eff = means (ac_eff_cost a);
          lat = means (ac_lat a)
      in \<lparr>sr_stage = stage, sr_rows = rows, sr_model_scores = scores,
          sr_model_cost = dsums (ac_cost a), sr_model_eff_cost = eff,
          sr_model_avg_input_tokens = means (ac_in_tok a),
          sr_model_avg_output_tokens = means (ac_out_tok a),
          sr_model_avg_reasoning_tokens = means (ac_rsn_tok a),
          sr_model_avg_latency_sec = lat,
          sr_model_task_unit_scores = unit_means (ac_unit_scores a),
          sr_winner = pick_winner scores eff lat\<rparr>)"

definition stage_gold ::
  "gold_checker option \<Rightarrow> (string \<Rightarrow> task_unit option) option \<Rightarrow> string \<Rightarrow> run_row list
     \<Rightarrow> (string \<times> string, nat \<times> real) dict \<Rightarrow> (string \<times> string, nat \<times> real) dict" where
  "stage_gold checker look stage rows acc =
     (case checker of None \<Rightarrow> acc
      | Some c \<Rightarrow> fold (\<lambda>(m, vals) d. if vals = [] then d
          else dset (m, stage) (length vals, fmean vals) d) (gold_scores c look rows) acc)"

definition group_by_stage :: "run_row list \<Rightarrow> (string, run_row list) dict" where
  "group_by_stage rows = fold (\<lambda>r. dappend (rr_stage r) r) rows []"

text \<open>\<open>summary.setdefault(m, {})[stage] = s\<close> for every model of every stage.\<close>

definition put2 :: "'m \<Rightarrow> 's \<Rightarrow> 'v \<Rightarrow> ('m, ('s, 'v) dict) dict \<Rightarrow> ('m, ('s, 'v) dict) dict" where
  "put2 m s v d = dset m (dset s v (dget d m [])) d"

definition summary :: "(string, stage_ranking) dict \<Rightarrow> (string, (string, real) dict) dict" where
  "summary stages = fold (\<lambda>(st, sr). fold (\<lambda>(m, v). put2 m st v) (sr_model_scores sr)) stages []"

definition pick_scorer :: "row_scorer option \<Rightarrow> row_scorer" where
  "pick_scorer scorer = (case scorer of None \<Rightarrow> default_row_scorer | Some f \<Rightarrow> f)"

definition compute_ranking ::
  "string \<Rightarrow> row_scorer option \<Rightarrow> gold_checker option \<Rightarrow> real \<Rightarrow> (string \<Rightarrow> task_unit option) option
     \<Rightarrow> run_row list \<Rightarrow> ranking_report" where
  "compute_ranking tag scorer checker w look rows =
     (let sc = pick_scorer scorer;
          groups = group_by_stage rows;
          stages = fold (\<lambda>(st, rs). dset st (rank_stage sc checker w look st rs)) groups []
      in \<lparr>rp_experiment_tag = tag, rp_stages = stages, rp_per_model_summary = summary stages,
          rp_gold_accuracy = fold (\<lambda>(st, rs). stage_gold checker look st rs) groups [],
          rp_n_rows = length rows\<rparr>)"

section \<open>Grouping\<close>

lemma groups_ok_dappend_opt [simp]: "groups_ok d \<Longrightarrow> groups_ok (dappend_opt k v d)"
  by (simp add: dappend_opt_def split: option.splits)

lemma dget_fold_dappend_opt:
  "dget (fold (\<lambda>x. dappend_opt (k x) (v x)) xs d) j [] =
     dget d j [] @ List.map_filter v (filter (\<lambda>x. k x = j) xs)"
  by (induction xs arbitrary: d)
    (auto simp: dappend_opt_def dict_simps List.map_filter_simps split: option.splits)

lemma means_eq: "groups_ok d \<Longrightarrow> means d = map (\<lambda>kv. (fst kv, fmean (snd kv))) d"
proof -
  assume "groups_ok d"
  then have "\<forall>kv\<in>set d. snd kv \<noteq> []" unfolding groups_ok_def dict_ok_def by force
  then show ?thesis by (simp add: means_def)
qed

lemma map_of_means:
  "groups_ok d \<Longrightarrow> map_of (means d) k =
     (if dget d k [] = [] then None else Some (fmean (dget d k [])))"
  by (simp add: means_eq map_of_map_values map_of_groups)

lemma relative_eq: "groups_ok d \<Longrightarrow> relative d = means d"
proof -
  assume g: "groups_ok d"
  then have "\<forall>kv\<in>set d. snd kv \<noteq> []" unfolding groups_ok_def dict_ok_def by force
  with g show ?thesis by (simp add: means_eq relative_def)
qed

lemma dict_ok_means [simp]: "groups_ok d \<Longrightarrow> dict_ok (means d)"
  by (simp add: means_eq groups_ok_def dict_ok_def comp_def)

text \<open>What the accumulators hold.\<close>

definition rows_of :: "string \<Rightarrow> run_row list \<Rightarrow> run_row list" where
  "rows_of m rows = filter (\<lambda>r. rr_model r = m) rows"

lemma rows_of_mset: "mset rows = mset rows' \<Longrightarrow> mset (rows_of m rows) = mset (rows_of m rows')"
  by (simp add: rows_of_def)

lemma fold_acc_row:
  "ac_scores (fold (acc_row sc) rows a) =
     fold (\<lambda>r. dappend (rr_model r) (clamp_score (sc r))) rows (ac_scores a)"
  "ac_cost (fold (acc_row sc) rows a) =
     fold (\<lambda>r. dappend_opt (rr_model r) (rr_cost_usd r)) rows (ac_cost a)"
  "ac_eff_cost (fold (acc_row sc) rows a) =
     fold (\<lambda>r. dappend_opt (rr_model r) (rr_effective_cost_usd r)) rows (ac_eff_cost a)"
  "ac_lat (fold (acc_row sc) rows a) =
     fold (\<lambda>r. dappend_opt (rr_model r) (rr_mean_attempt_duration_sec r)) rows (ac_lat a)"
  by (induction rows arbitrary: a) (simp_all add: acc_row_def Let_def)

lemma accumulate_groups [simp]:
  "groups_ok (ac_scores (accumulate sc rows))" "groups_ok (ac_eff_cost (accumulate sc rows))"
  "groups_ok (ac_lat (accumulate sc rows))"
  by (simp_all add: accumulate_def fold_acc_row acc_new_def groups_ok_fold)

lemma accumulate_get:
  "dget (ac_scores (accumulate sc rows)) m [] = map (\<lambda>r. clamp_score (sc r)) (rows_of m rows)"
  "dget (ac_eff_cost (accumulate sc rows)) m [] =
     List.map_filter rr_effective_cost_usd (rows_of m rows)"
  "dget (ac_lat (accumulate sc rows)) m [] =
     List.map_filter rr_mean_attempt_duration_sec (rows_of m rows)"
  by (simp_all add: accumulate_def fold_acc_row acc_new_def dget_fold_dappend
      dget_fold_dappend_opt rows_of_def)

lemma gold_scores_ok [simp]: "groups_ok (gold_scores c look rows)"
  by (simp add: gold_scores_def groups_ok_fold)

lemma gold_scores_get: "dget (gold_scores c look rows) m [] = map (gold_score c look) (rows_of m rows)"
  by (simp add: gold_scores_def dget_fold_dappend rows_of_def)

text \<open>The blend touches each model once.\<close>

lemma map_of_blend:
  assumes "groups_ok g"
  shows "map_of (blend w g rel) m = (case map_of g m of None \<Rightarrow> map_of rel m
           | Some vals \<Rightarrow> Some ((1 - w) * dget rel m 0 + w * fmean vals))"
  using assms
proof (induction g arbitrary: rel)
  case Nil
  then show ?case by (simp add: blend_def)
next
  case (Cons x g)
  obtain k vals where x: "x = (k, vals)" by (cases x)
  have g: "groups_ok g" "k \<notin> fst ` set g" "vals \<noteq> []"
    using Cons.prems unfolding x groups_ok_def
    by (auto split: if_splits) (metis map_of_eq_None_iff option.distinct(1))+
  then have "map_of g k = None" by (simp add: map_of_eq_None_iff)
  then show ?case using Cons.IH [OF g(1), of "blend_model w x rel"] g
    by (auto simp: x blend_def blend_model_def dget_def split: option.splits)
qed

lemma dict_ok_blend [simp]: "dict_ok rel \<Longrightarrow> dict_ok (blend w g rel)"
  unfolding blend_def blend_model_def by (induction g arbitrary: rel) auto

text \<open>The score of a model in a stage, in terms of its rows alone.\<close>

definition row_mean :: "(run_row \<Rightarrow> real) \<Rightarrow> run_row list \<Rightarrow> real" where
  "row_mean f rows = fmean (map f rows)"

definition model_score ::
  "row_scorer \<Rightarrow> gold_checker option \<Rightarrow> real \<Rightarrow> (string \<Rightarrow> task_unit option) option \<Rightarrow> run_row list \<Rightarrow> real" where
  "model_score sc ck w look rows =
     (let rel = row_mean (\<lambda>r. clamp_score (sc r)) rows
      in case ck of None \<Rightarrow> rel
         | Some c \<Rightarrow> (1 - w) * rel + w * row_mean (gold_score c look) rows)"

lemma row_mean_mset: "mset rows = mset rows' \<Longrightarrow> row_mean f rows = row_mean f rows'"
  by (simp add: row_mean_def fmean_mset_cong)

lemma row_mean_bounds:
  "rows \<noteq> [] \<Longrightarrow> (\<And>r. 0 \<le> f r \<and> f r \<le> 1) \<Longrightarrow> 0 \<le> row_mean f rows \<and> row_mean f rows \<le> 1"
  unfolding row_mean_def by (rule fmean_bounds) auto

lemma model_score_mset:
  assumes "mset rows = mset rows'"
  shows "model_score sc ck w look rows = model_score sc ck w look rows'"
  by (cases ck) (simp_all add: model_score_def Let_def row_mean_mset [OF assms])

lemma model_score_bounds:
  assumes "rows \<noteq> []" "0 \<le> w" "w \<le> 1"
  shows "0 \<le> model_score sc ck w look rows \<and> model_score sc ck w look rows \<le> 1"
proof -
  let ?a = "row_mean (\<lambda>r. clamp_score (sc r)) rows"
  have a: "0 \<le> ?a \<and> ?a \<le> 1" using assms(1) by (rule row_mean_bounds) simp
  show ?thesis
  proof (cases ck)
    case None
    with a show ?thesis by (simp add: model_score_def)
  next
    case (Some c)
    have b: "0 \<le> row_mean (gold_score c look) rows \<and> row_mean (gold_score c look) rows \<le> 1"
      using assms(1) by (rule row_mean_bounds) (simp add: gold_score_def)
    have "(1 - w) * ?a + w * row_mean (gold_score c look) rows \<le> (1 - w) * 1 + w * 1"
      using a b assms by (intro add_mono mult_left_mono) auto
    with a b assms show ?thesis by (simp add: model_score_def Some Let_def)
  qed
qed

lemma map_of_relative:
  "map_of (relative (ac_scores (accumulate sc rows))) m =
     (if rows_of m rows = [] then None
      else Some (row_mean (\<lambda>r. clamp_score (sc r)) (rows_of m rows)))"
  by (simp add: relative_eq map_of_means accumulate_get row_mean_def)

lemma rank_stage_scores:
  "map_of (sr_model_scores (rank_stage sc ck w look st rows)) m =
     (if rows_of m rows = [] then None else Some (model_score sc ck w look (rows_of m rows)))"
proof (cases ck)
  case None
  then show ?thesis by (simp add: rank_stage_def Let_def map_of_relative model_score_def)
next
  case (Some c)
  have "dget (relative (ac_scores (accumulate sc rows))) m 0 =
      row_mean (\<lambda>r. clamp_score (sc r)) (rows_of m rows)" if "rows_of m rows \<noteq> []"
    using that by (simp add: dget_def map_of_relative)
  with Some show ?thesis
    by (simp add: rank_stage_def Let_def map_of_blend map_of_groups gold_scores_get
        map_of_relative model_score_def row_mean_def)
qed

lemma dict_ok_rank_stage [simp]: "dict_ok (sr_model_scores (rank_stage sc ck w look st rows))"
  by (cases ck) (simp_all add: rank_stage_def Let_def relative_eq)

section \<open>The winner of a stage\<close>

lemma pick_winner_eq:
  assumes "dict_ok scores" "scores \<noteq> []"
  shows "pick_winner scores ec lat =
    Some (hd (sort_key (model_key (\<lambda>m. dget scores m 0) ec (Some lat)) (map fst scores)))"
proof -
  let ?f = "\<lambda>kv. cost_tiebreak_key (fst kv) (snd kv) ec True (Some lat)"
  let ?k = "model_key (\<lambda>m. dget scores m 0) ec (Some lat)"
  have "map fst (sort_key ?f scores) = sort_key ?k (map fst scores)"
    using assms(1) by (intro map_sort_key) (auto simp: model_key_def dget_in)
  moreover have "fst (hd (sort_key ?f scores)) = hd (map fst (sort_key ?f scores))"
    using assms(2) by (simp add: hd_map)
  ultimately show ?thesis using assms(2) by (simp add: pick_winner_def)
qed

lemma pick_winner_least:
  assumes "dict_ok scores" "pick_winner scores ec lat = Some x"
  shows "x \<in> fst ` set scores"
    "y \<in> fst ` set scores \<Longrightarrow> y \<noteq> x \<Longrightarrow>
       model_key (\<lambda>m. dget scores m 0) ec (Some lat) x
         < model_key (\<lambda>m. dget scores m 0) ec (Some lat) y"
proof -
  let ?k = "model_key (\<lambda>m. dget scores m 0) ec (Some lat)"
  have ne: "scores \<noteq> []" using assms(2) by (auto simp: pick_winner_def)
  then have x: "x = hd (sort_key ?k (map fst scores))" using assms by (simp add: pick_winner_eq)
  show "x \<in> fst ` set scores" using ne hd_sort_key_in [of "map fst scores" ?k] by (simp add: x)
  assume y: "y \<in> fst ` set scores" "y \<noteq> x"
  then have "?k x \<le> ?k y" using hd_sort_key_least [of y "map fst scores" ?k] by (simp add: x)
  moreover have "?k x \<noteq> ?k y" using y(2) mk.key_inj by blast
  ultimately show "?k x < ?k y" by simp
qed

text \<open>The pick depends on the dictionaries as maps only.\<close>

lemma model_key_cong:
  assumes "map_of ec = map_of ec'" "map_of lat = map_of lat'" "sc = sc'"
  shows "model_key sc ec (Some lat) = model_key sc' ec' (Some lat')"
  by (rule ext) (simp add: assms model_key_def cost_tiebreak_key_def)

lemma mset_keys_cong:
  assumes "dict_ok d" "dict_ok d'" "map_of d = map_of d'"
  shows "mset (map fst d) = mset (map fst d')"
proof -
  have "fst ` set d = fst ` set d'" using assms(3) by (metis dom_map_of_conv_image_fst)
  with assms(1,2) show ?thesis unfolding dict_ok_def by (metis set_eq_iff_mset_eq_distinct list.set_map)
qed

lemma pick_winner_cong:
  assumes "dict_ok d" "dict_ok d'" "map_of d = map_of d'" "map_of ec = map_of ec'"
    "map_of lat = map_of lat'"
  shows "pick_winner d ec lat = pick_winner d' ec' lat'"
proof (cases "d = []")
  case True
  then have "d' = []" using assms(3) by (cases d') (auto dest: fun_cong split: if_splits)
  with True show ?thesis by (simp add: pick_winner_def)
next
  case False
  moreover have "d' \<noteq> []" using False assms(3) by (cases d) (auto dest: fun_cong split: if_splits)
  moreover have "model_key (\<lambda>m. dget d m 0) ec (Some lat) = model_key (\<lambda>m. dget d' m 0) ec' (Some lat')"
    by (rule model_key_cong [OF assms(4,5)]) (simp add: dget_def assms(3))
  ultimately show ?thesis
    using mk.sort_order_independent [OF mset_keys_cong [OF assms(1-3)]] assms(1,2)
    by (simp add: pick_winner_eq)
qed

section \<open>The report from the rows\<close>

lemma group_by_stage_ok [simp]: "groups_ok (group_by_stage rows)"
  by (simp add: group_by_stage_def groups_ok_fold)

definition stage_rows :: "string \<Rightarrow> run_row list \<Rightarrow> run_row list" where
  "stage_rows st rows = filter (\<lambda>r. rr_stage r = st) rows"

lemma stage_rows_mset:
  "mset rows = mset rows' \<Longrightarrow> mset (stage_rows st rows) = mset (stage_rows st rows')"
  by (simp add: stage_rows_def)

lemma map_of_group_by_stage:
  "map_of (group_by_stage rows) st =
     (if stage_rows st rows = [] then None else Some (stage_rows st rows))"
proof -
  have "dget (group_by_stage rows) st [] = stage_rows st rows"
    by (simp add: group_by_stage_def dget_fold_dappend stage_rows_def)
  then show ?thesis by (simp add: map_of_groups)
qed

lemma map_of_fold_dset:
  assumes "dict_ok g"
  shows "map_of (fold (\<lambda>(k, v). dset k (f k v)) g d) j =
    (case map_of g j of None \<Rightarrow> map_of d j | Some v \<Rightarrow> Some (f j v))"
  using assms
proof (induction g arbitrary: d)
  case (Cons x g)
  then have "map_of g (fst x) = None" by (simp add: map_of_eq_None_iff)
  with Cons show ?case by (cases x) (auto split: option.splits)
qed simp

lemma dict_ok_fold_dset: "dict_ok d \<Longrightarrow> dict_ok (fold (\<lambda>(k, v). dset k (f k v)) g d)"
  by (induction g arbitrary: d) auto

lemma report_stage:
  "map_of (rp_stages (compute_ranking tag scorer ck w look rows)) st =
     (if stage_rows st rows = [] then None
      else Some (rank_stage (pick_scorer scorer) ck w look st (stage_rows st rows)))"
proof -
  have "dict_ok (group_by_stage rows)" using group_by_stage_ok [of rows] unfolding groups_ok_def by blast
  then show ?thesis
    by (simp add: compute_ranking_def Let_def map_of_fold_dset map_of_group_by_stage)
qed

lemma dict_ok_report [simp]: "dict_ok (rp_stages (compute_ranking tag scorer ck w look rows))"
  by (simp add: compute_ranking_def Let_def dict_ok_fold_dset)

definition get2 :: "('m, ('s, 'v) dict) dict \<Rightarrow> 'm \<Rightarrow> 's \<Rightarrow> 'v option" where
  "get2 d m s = (case map_of d m of None \<Rightarrow> None | Some e \<Rightarrow> map_of e s)"

lemma get2_put2: "get2 (put2 m s v d) m' s' = (if m' = m \<and> s' = s then Some v else get2 d m' s')"
  by (auto simp: get2_def put2_def dget_def split: option.splits)

lemma get2_fold_put2:
  assumes "dict_ok sc"
  shows "get2 (fold (\<lambda>(m, v). put2 m st v) sc d) m s =
    (if s = st \<and> m \<in> fst ` set sc then map_of sc m else get2 d m s)"
  using assms
proof (induction sc arbitrary: d)
  case (Cons x sc)
  then have "map_of sc (fst x) = None" by (simp add: map_of_eq_None_iff)
  with Cons show ?case by (cases x) (auto simp: get2_put2)
qed simp

lemma get2_fold_stages:
  assumes "dict_ok stages" "list_all (\<lambda>x. dict_ok (sr_model_scores (snd x))) stages"
  shows "get2 (fold (\<lambda>(st, sr). fold (\<lambda>(m, v). put2 m st v) (sr_model_scores sr)) stages d) m s =
    (case map_of stages s of None \<Rightarrow> get2 d m s
     | Some sr \<Rightarrow> if m \<in> fst ` set (sr_model_scores sr) then map_of (sr_model_scores sr) m
         else get2 d m s)"
  using assms
proof (induction stages arbitrary: d)
  case (Cons x stages)
  obtain st sr where x: "x = (st, sr)" by (cases x)
  have new: "map_of stages st = None" "dict_ok (sr_model_scores sr)"
    using Cons.prems by (simp_all add: x map_of_eq_None_iff)
  have put: "get2 (fold (\<lambda>(m, v). put2 m st v) (sr_model_scores sr) d) m s =
      (if s = st \<and> m \<in> fst ` set (sr_model_scores sr) then map_of (sr_model_scores sr) m
       else get2 d m s)"
    by (rule get2_fold_put2 [OF new(2)])
  show ?case
  proof (cases "s = st")
    case True
    with new put show ?thesis using Cons by (simp add: x)
  next
    case False
    with new show ?thesis using Cons by (simp add: x put split: option.split)
  qed
qed simp

lemma get2_summary:
  assumes "dict_ok stages" "list_all (\<lambda>x. dict_ok (sr_model_scores (snd x))) stages"
  shows "get2 (summary stages) m s = (case map_of stages s of None \<Rightarrow> None
           | Some sr \<Rightarrow> map_of (sr_model_scores sr) m)"
proof -
  have "map_of d m = None" if "m \<notin> fst ` set d" for d :: "(string, real) dict"
    using that by (simp add: map_of_eq_None_iff)
  then show ?thesis unfolding summary_def get2_fold_stages [OF assms]
    by (simp add: get2_def split: option.split)
qed

lemma report_summary:
  "get2 (rp_per_model_summary (compute_ranking tag scorer ck w look rows)) m st =
     (case map_of (rp_stages (compute_ranking tag scorer ck w look rows)) st of None \<Rightarrow> None
      | Some sr \<Rightarrow> map_of (sr_model_scores sr) m)"
proof -
  let ?stages = "rp_stages (compute_ranking tag scorer ck w look rows)"
  have "dict_ok (sr_model_scores sr)" if "(st, sr) \<in> set ?stages" for st sr
  proof -
    have "map_of ?stages st = Some sr"
      using that dict_ok_report unfolding dict_ok_def by (rule map_of_is_SomeI [rotated])
    then show ?thesis by (auto simp: report_stage split: if_splits)
  qed
  then have ok: "list_all (\<lambda>x. dict_ok (sr_model_scores (snd x))) ?stages"
    unfolding list_all_iff by force
  have "rp_per_model_summary (compute_ranking tag scorer ck w look rows) = summary ?stages"
    by (simp add: compute_ranking_def Let_def)
  then show ?thesis using get2_summary [OF dict_ok_report ok] by simp
qed

text \<open>
  The summary \<open>compute_ranking\<close> hands to the halving has an entry for a model and a stage
  exactly if the experiment has a row of that model in that stage; it is the mean of the clamped
  row scores of exactly those rows, blended with the mean of the clamped gold scores of the same
  rows when a gold checker is given. \<open>row_mean\<close> and \<open>model_score\<close> state this mean without the
  dictionaries of the loop.
\<close>

theorem summary_scores_rows:
  "get2 (rp_per_model_summary (compute_ranking tag scorer ck w look rows)) m st =
     (let rs = rows_of m (stage_rows st rows)
      in if rs = [] then None else Some (model_score (pick_scorer scorer) ck w look rs))"
  by (auto simp: report_summary report_stage rank_stage_scores Let_def rows_of_def)

lemma winner_of_rank_stage:
  "sr_winner (rank_stage sc ck w look st rows) =
     pick_winner (sr_model_scores (rank_stage sc ck w look st rows))
       (sr_model_eff_cost (rank_stage sc ck w look st rows))
       (sr_model_avg_latency_sec (rank_stage sc ck w look st rows))"
  by (simp add: rank_stage_def Let_def)

lemma rank_stage_costs:
  "map_of (sr_model_eff_cost (rank_stage sc ck w look st rows)) m =
     (let v = List.map_filter rr_effective_cost_usd (rows_of m rows)
      in if v = [] then None else Some (fmean v))"
  "map_of (sr_model_avg_latency_sec (rank_stage sc ck w look st rows)) m =
     (let v = List.map_filter rr_mean_attempt_duration_sec (rows_of m rows)
      in if v = [] then None else Some (fmean v))"
  by (simp_all add: rank_stage_def Let_def map_of_means accumulate_get)

lemma rank_stage_winner:
  assumes "0 \<le> w" "w \<le> 1" "rows \<noteq> []" and sr: "sr = rank_stage sc ck w look st rows"
  shows "\<exists>x v. sr_winner sr = Some x \<and> map_of (sr_model_scores sr) x = Some v \<and>
    (\<forall>y u. map_of (sr_model_scores sr) y = Some u \<longrightarrow> 0 \<le> u \<and> u \<le> 1 \<and> u \<le> v \<and>
      (y \<noteq> x \<longrightarrow>
        cost_tiebreak_key x v (sr_model_eff_cost sr) True (Some (sr_model_avg_latency_sec sr))
          < cost_tiebreak_key y u (sr_model_eff_cost sr) True (Some (sr_model_avg_latency_sec sr))))"
proof -
  have ok: "dict_ok (sr_model_scores sr)" by (simp add: sr)
  have "rows_of (rr_model (hd rows)) rows \<noteq> []"
    using assms(3) by (auto simp: rows_of_def filter_empty_conv intro!: bexI [of _ "hd rows"])
  then have "sr_model_scores sr \<noteq> []"
    using rank_stage_scores [of sc ck w look st rows "rr_model (hd rows)"] by (auto simp: sr)
  then obtain x where x: "sr_winner sr = Some x"
    by (simp add: sr winner_of_rank_stage pick_winner_def)
  then have win: "pick_winner (sr_model_scores sr) (sr_model_eff_cost sr)
      (sr_model_avg_latency_sec sr) = Some x" by (simp add: sr winner_of_rank_stage)
  note best = pick_winner_least [OF ok win]
  from best(1) obtain v where v: "map_of (sr_model_scores sr) x = Some v"
    by (auto simp: in_keys_iff)
  have "0 \<le> u \<and> u \<le> 1 \<and> u \<le> v \<and> (y \<noteq> x \<longrightarrow>
      cost_tiebreak_key x v (sr_model_eff_cost sr) True (Some (sr_model_avg_latency_sec sr))
        < cost_tiebreak_key y u (sr_model_eff_cost sr) True (Some (sr_model_avg_latency_sec sr)))"
    if "map_of (sr_model_scores sr) y = Some u" for y u
  proof -
    have "0 \<le> u \<and> u \<le> 1"
      using that model_score_bounds [OF _ assms(1,2)] by (auto simp: sr rank_stage_scores split: if_splits)
    moreover have "y \<in> fst ` set (sr_model_scores sr)" using that by (auto simp: in_keys_iff)
    moreover have "dget (sr_model_scores sr) y 0 = u" "dget (sr_model_scores sr) x 0 = v"
      using that v by (simp_all add: dget_def)
    ultimately show ?thesis using best(2) [of y] v that
      by (cases "y = x") (auto simp: model_key_def dest: cost_tiebreak_key_score [OF less_imp_le])
  qed
  with x v show ?thesis by blast
qed

text \<open>
  C24: For a gold weight between 0 and 1 every score of the report lies in [0, 1], whatever floats
  the scorer and the gold checker return, \<open>nan\<close> and the infinities included. A stage with rows has
  a winner among its models, and every other model of the stage is strictly behind it in the order
  of score (high first), effective cost times latency (a model without a cost last) and name; in
  particular no model has a higher score.
\<close>

theorem stage_winner_is_best:
  assumes "0 \<le> w" "w \<le> 1"
    and "map_of (rp_stages (compute_ranking tag scorer ck w look rows)) st = Some sr"
  shows "\<exists>x v. sr_winner sr = Some x \<and> map_of (sr_model_scores sr) x = Some v \<and>
    (\<forall>y u. map_of (sr_model_scores sr) y = Some u \<longrightarrow> 0 \<le> u \<and> u \<le> 1 \<and> u \<le> v \<and>
      (y \<noteq> x \<longrightarrow>
        cost_tiebreak_key x v (sr_model_eff_cost sr) True (Some (sr_model_avg_latency_sec sr))
          < cost_tiebreak_key y u (sr_model_eff_cost sr) True (Some (sr_model_avg_latency_sec sr))))"
  using assms(3) by (intro rank_stage_winner [OF assms(1,2), of "stage_rows st rows"])
    (auto simp: report_stage split: if_splits)

corollary stage_winner_is_best_witness:
  "\<exists>sr x. map_of (rp_stages (compute_ranking ''t'' None None (3/10) None
      [failed_row ''t'', (good_row ''t'')\<lparr>rr_model := ''b''\<rparr>])) ''s'' = Some sr \<and> sr_winner sr = Some x"
proof -
  let ?rows = "[failed_row ''t'', (good_row ''t'')\<lparr>rr_model := ''b''\<rparr>]"
  have "stage_rows ''s'' ?rows = ?rows"
    by (simp add: stage_rows_def failed_row_def good_row_def sample_row_def)
  then obtain sr where sr: "map_of (rp_stages (compute_ranking ''t'' None None (3/10) None ?rows)) ''s'' = Some sr"
    by (simp add: report_stage)
  have "\<exists>x. sr_winner sr = Some x" using stage_winner_is_best [OF _ _ sr] by auto
  with sr show ?thesis by blast
qed

lemma map_filter_mset:
  assumes "mset xs = mset ys"
  shows "mset (List.map_filter f xs) = mset (List.map_filter f ys)"
  unfolding List.map_filter_def mset_map mset_filter by (simp add: assms)

text \<open>
  C25: The winner of each stage and the score of each model depend only on which rows the
  experiment has, not on the order in which the storage backend yields them, an order its
  interface leaves unspecified and which differs between the backends.
\<close>

theorem ranking_ignores_row_order:
  assumes "mset rows = mset rows'"
  shows "map_option sr_winner (map_of (rp_stages (compute_ranking tag scorer ck w look rows)) st) =
      map_option sr_winner (map_of (rp_stages (compute_ranking tag scorer ck w look rows')) st)
    \<and> get2 (rp_per_model_summary (compute_ranking tag scorer ck w look rows)) m st =
      get2 (rp_per_model_summary (compute_ranking tag scorer ck w look rows')) m st"
proof -
  let ?r = "\<lambda>rs. rank_stage (pick_scorer scorer) ck w look st (stage_rows st rs)"
  note st = stage_rows_mset [OF assms, of st]
  note of_m = rows_of_mset [OF st]
  have empty: "rows_of m (stage_rows st rows) = [] \<longleftrightarrow> rows_of m (stage_rows st rows') = []" for m
    using of_m [of m] by (metis mset_zero_iff)
  have scores: "map_of (sr_model_scores (?r rows)) = map_of (sr_model_scores (?r rows'))"
    by (rule ext) (simp add: rank_stage_scores empty model_score_mset [OF of_m])
  have fm: "(let v = List.map_filter f (rows_of m (stage_rows st rows))
             in if v = [] then None else Some (fmean v)) =
      (let v = List.map_filter f (rows_of m (stage_rows st rows'))
             in if v = [] then None else Some (fmean v))" for m and f :: "run_row \<Rightarrow> real option"
  proof -
    note mf = map_filter_mset [OF of_m, of f m]
    then have "List.map_filter f (rows_of m (stage_rows st rows)) = [] \<longleftrightarrow>
        List.map_filter f (rows_of m (stage_rows st rows')) = []" by (metis mset_zero_iff)
    with fmean_mset_cong [OF mf] show ?thesis by (simp add: Let_def)
  qed
  have "sr_winner (?r rows) = sr_winner (?r rows')"
    unfolding winner_of_rank_stage
    by (rule pick_winner_cong) (simp_all add: scores fun_eq_iff rank_stage_costs fm)
  moreover have "stage_rows st rows = [] \<longleftrightarrow> stage_rows st rows' = []" using st by (metis mset_zero_iff)
  ultimately show ?thesis using scores by (simp add: report_stage report_summary)
qed

corollary ranking_ignores_row_order_witness:
  "map_option sr_winner (map_of (rp_stages (compute_ranking ''t'' None None 0 None
      [failed_row ''t'', (good_row ''t'')\<lparr>rr_model := ''b''\<rparr>])) ''s'') =
   map_option sr_winner (map_of (rp_stages (compute_ranking ''t'' None None 0 None
      [(good_row ''t'')\<lparr>rr_model := ''b''\<rparr>, failed_row ''t''])) ''s'')"
  by (rule conjunct1 [OF ranking_ignores_row_order [where m = "''b''"]]) simp

end
