(* ===== verification/Stage_Winners.thy ===== *)
theory Stage_Winners
  imports Ranker
begin

text \<open>
  \<open>ranking/per_stage_winners.py\<close>: the winner set of a round from its ranking report, and the rows
  of the winners that feed every candidate's next stage. \<open>query tag stage\<close> stands for the list
  the backend's \<open>query_rows(experiment_tag=tag, stage=stage)\<close> yields.
\<close>

section \<open>Selecting the winners\<close>

text \<open>The models of a stage other than the winner, best first; the first is the runner-up.\<close>

definition runner_up_of :: "stage_ranking \<Rightarrow> string \<Rightarrow> string option" where
  "runner_up_of sr w1 =
     (let others = filter (\<lambda>m. m \<noteq> w1) (map fst (sr_model_scores sr))
      in if others = [] then None
         else Some (hd (sort_key (\<lambda>m. cost_tiebreak_key m (dget (sr_model_scores sr) m 0)
           (sr_model_eff_cost sr) True (Some (sr_model_avg_latency_sec sr))) others)))"

text \<open>
  One pass of the loop over the stages. \<open>sr.model_scores[top_model]\<close> is read with a default here;
  \<^term>\<open>sr_winner\<close> is always a key of the scores (\<open>stage_winner_is_best\<close>).
\<close>

definition select_stage :: "string \<times> stage_ranking \<Rightarrow> winner_set \<Rightarrow> winner_set" where
  "select_stage = (\<lambda>(st, sr) ws.
     case sr_winner sr of None \<Rightarrow> ws
     | Some w1 \<Rightarrow>
         (let score = dget (sr_model_scores sr) w1 0
          in if sr_model_scores sr = [] \<or> score \<le> 0 then ws
             else ws\<lparr>ws_winners := dset st w1 (ws_winners ws),
                     ws_stage_scores := dset st score (ws_stage_scores ws),
                     ws_runner_up := dset st (runner_up_of sr w1) (ws_runner_up ws)\<rparr>))"

definition select_per_stage_winners ::
  "ranking_report \<Rightarrow> string \<Rightarrow> int \<Rightarrow> string list option \<Rightarrow> winner_set" where
  "select_per_stage_winners report tag round_idx candidates_out =
     fold select_stage (rp_stages report)
       \<lparr>ws_experiment_tag = tag, ws_round_idx = round_idx, ws_winners = [],
        ws_candidates_out = (case candidates_out of None \<Rightarrow> [] | Some c \<Rightarrow> c),
        ws_stage_scores = [], ws_runner_up = []\<rparr>"

section \<open>The winner's rows\<close>

definition ts_key :: "run_row \<Rightarrow> bool \<times> int" where
  "ts_key r = (case rr_ts r of Some t \<Rightarrow> (True, t) | None \<Rightarrow> (False, 0))"

text \<open>\<open>max(rows, key=...)\<close> keeps the first of equal maxima.\<close>

fun max_by :: "('a \<Rightarrow> 'k::linorder) \<Rightarrow> 'a \<Rightarrow> 'a list \<Rightarrow> 'a" where
  "max_by f best [] = best"
| "max_by f best (x # xs) = max_by f (if f best < f x then x else best) xs"

definition latest_by_ts :: "run_row list \<Rightarrow> run_row" where
  "latest_by_ts rows = max_by ts_key (hd rows) (tl rows)"

definition load_winner_substrate ::
  "(string \<Rightarrow> string \<Rightarrow> run_row list) \<Rightarrow> winner_set \<Rightarrow> string \<Rightarrow> string \<Rightarrow> string option \<Rightarrow> run_row option" where
  "load_winner_substrate query winners stage tu tag =
     (case ws_get winners stage of None \<Rightarrow> None
      | Some m \<Rightarrow>
          (let target = (case tag of Some t \<Rightarrow> t | None \<Rightarrow> ws_experiment_tag winners);
               candidates = filter (\<lambda>r. rr_model r = m \<and> rr_task_unit_id r = tu) (query target stage)
           in if candidates = [] then None else Some (latest_by_ts candidates)))"

definition by_task_unit :: "string \<Rightarrow> run_row list \<Rightarrow> (string, run_row list) dict" where
  "by_task_unit m rows =
     fold (\<lambda>r d. if rr_model r \<noteq> m then d else dappend (rr_task_unit_id r) r d) rows []"

definition substrates_of_stage ::
  "(string \<Rightarrow> string \<Rightarrow> run_row list) \<Rightarrow> winner_set \<Rightarrow> string \<Rightarrow> string
     \<Rightarrow> (string \<times> string, run_row) dict \<Rightarrow> (string \<times> string, run_row) dict" where
  "substrates_of_stage query winners target stage out =
     (case ws_get winners stage of None \<Rightarrow> out
      | Some m \<Rightarrow> fold (\<lambda>(tu, rows). dset (stage, tu) (latest_by_ts rows))
          (by_task_unit m (query target stage)) out)"

text \<open>The stages are a Python set; the list is the order in which it is iterated.\<close>

definition load_winner_substrates_for_round ::
  "(string \<Rightarrow> string \<Rightarrow> run_row list) \<Rightarrow> winner_set \<Rightarrow> string list \<Rightarrow> string option
     \<Rightarrow> (string \<times> string, run_row) dict" where
  "load_winner_substrates_for_round query winners stages tag =
     (let target = (case tag of Some t \<Rightarrow> t | None \<Rightarrow> ws_experiment_tag winners)
      in fold (substrates_of_stage query winners target) stages [])"

section \<open>Lemmas\<close>

lemma max_by_in: "max_by f b xs \<in> insert b (set xs)"
  by (induction f b xs rule: max_by.induct) auto

lemma max_by_ge: "f b \<le> f (max_by f b xs) \<and> (\<forall>x\<in>set xs. f x \<le> f (max_by f b xs))"
  by (induction f b xs rule: max_by.induct) (auto simp: less_le_not_le dest: order_trans)

lemma latest_by_ts_in: "rows \<noteq> [] \<Longrightarrow> latest_by_ts rows \<in> set rows"
  using max_by_in [of ts_key "hd rows" "tl rows"] by (cases rows) (auto simp: latest_by_ts_def)

lemma latest_by_ts_ge: "r \<in> set rows \<Longrightarrow> ts_key r \<le> ts_key (latest_by_ts rows)"
  using max_by_ge [of ts_key "hd rows" "tl rows"] by (cases rows) (auto simp: latest_by_ts_def)

text \<open>A row without a timestamp loses to every row with one.\<close>

lemma latest_has_ts:
  assumes "r \<in> set rows" "rr_ts r = Some t"
  shows "\<exists>u. rr_ts (latest_by_ts rows) = Some u \<and> t \<le> u"
  using latest_by_ts_ge [OF assms(1)] assms(2) by (auto simp: ts_key_def split: option.splits)

text \<open>What the loop over the stages leaves under a stage.\<close>

definition stage_win :: "stage_ranking \<Rightarrow> string option" where
  "stage_win sr = (case sr_winner sr of None \<Rightarrow> None
     | Some w1 \<Rightarrow> if sr_model_scores sr = [] \<or> dget (sr_model_scores sr) w1 0 \<le> 0 then None
         else Some w1)"

lemma select_stage_cases:
  "select_stage (st, sr) ws = (case stage_win sr of None \<Rightarrow> ws
     | Some w1 \<Rightarrow> ws\<lparr>ws_winners := dset st w1 (ws_winners ws),
         ws_stage_scores := dset st (dget (sr_model_scores sr) w1 0) (ws_stage_scores ws),
         ws_runner_up := dset st (runner_up_of sr w1) (ws_runner_up ws)\<rparr>)"
  by (simp add: select_stage_def stage_win_def Let_def split: option.split)

lemma fold_select_stage:
  assumes "dict_ok stages"
  shows "map_of (ws_winners (fold select_stage stages ws)) st =
      (case map_of stages st of None \<Rightarrow> map_of (ws_winners ws) st
       | Some sr \<Rightarrow> (case stage_win sr of None \<Rightarrow> map_of (ws_winners ws) st | Some w1 \<Rightarrow> Some w1))"
    and "map_of (ws_stage_scores (fold select_stage stages ws)) st =
      (case map_of stages st of None \<Rightarrow> map_of (ws_stage_scores ws) st
       | Some sr \<Rightarrow> (case stage_win sr of None \<Rightarrow> map_of (ws_stage_scores ws) st
           | Some w1 \<Rightarrow> Some (dget (sr_model_scores sr) w1 0)))"
    and "map_of (ws_runner_up (fold select_stage stages ws)) st =
      (case map_of stages st of None \<Rightarrow> map_of (ws_runner_up ws) st
       | Some sr \<Rightarrow> (case stage_win sr of None \<Rightarrow> map_of (ws_runner_up ws) st
           | Some w1 \<Rightarrow> Some (runner_up_of sr w1)))"
  using assms
proof (induction stages arbitrary: ws)
  case (Cons x stages)
  obtain s sr where x: "x = (s, sr)" by (cases x)
  have step: "map_of stages s = None \<and> dict_ok stages" if "dict_ok (x # stages)"
    using that by (simp add: x map_of_eq_None_iff)
  { case 1
    with step have ok: "map_of stages s = None" "dict_ok stages" by blast+
    show ?case unfolding fold.simps o_apply Cons.IH(1) [OF ok(2)]
      using ok(1) by (cases "st = s") (simp_all add: x select_stage_cases split: option.split) }
  { case 2
    with step have ok: "map_of stages s = None" "dict_ok stages" by blast+
    show ?case unfolding fold.simps o_apply Cons.IH(2) [OF ok(2)]
      using ok(1) by (cases "st = s") (simp_all add: x select_stage_cases split: option.split) }
  { case 3
    with step have ok: "map_of stages s = None" "dict_ok stages" by blast+
    show ?case unfolding fold.simps o_apply Cons.IH(3) [OF ok(2)]
      using ok(1) by (cases "st = s") (simp_all add: x select_stage_cases split: option.split) }
qed simp_all

lemma winners_of_report:
  assumes "dict_ok (rp_stages report)"
  shows "ws_get (select_per_stage_winners report tag n out) st =
      (case map_of (rp_stages report) st of None \<Rightarrow> None | Some sr \<Rightarrow> stage_win sr)"
    and "map_of (ws_stage_scores (select_per_stage_winners report tag n out)) st =
      (case map_of (rp_stages report) st of None \<Rightarrow> None
       | Some sr \<Rightarrow> map_option (\<lambda>w1. dget (sr_model_scores sr) w1 0) (stage_win sr))"
    and "map_of (ws_runner_up (select_per_stage_winners report tag n out)) st =
      (case map_of (rp_stages report) st of None \<Rightarrow> None
       | Some sr \<Rightarrow> map_option (runner_up_of sr) (stage_win sr))"
  by (simp_all add: ws_get_def select_per_stage_winners_def fold_select_stage [OF assms]
      split: option.split)

text \<open>The place of a model with a score in the order of a stage: score, effective cost times latency, name.\<close>

abbreviation stage_key :: "stage_ranking \<Rightarrow> string \<Rightarrow> real \<Rightarrow> tiebreak" where
  "stage_key sr m score \<equiv>
     cost_tiebreak_key m score (sr_model_eff_cost sr) True (Some (sr_model_avg_latency_sec sr))"

lemma runner_up_None: "runner_up_of sr x = None \<longleftrightarrow> (\<forall>y. y \<noteq> x \<longrightarrow> map_of (sr_model_scores sr) y = None)"
  by (auto simp: runner_up_of_def Let_def filter_empty_conv map_of_eq_None_iff)

lemma runner_up_Some:
  assumes "runner_up_of sr x = Some z"
  shows "z \<noteq> x \<and> (\<exists>t. map_of (sr_model_scores sr) z = Some t \<and>
    (\<forall>y u. map_of (sr_model_scores sr) y = Some u \<and> y \<notin> {x, z} \<longrightarrow> stage_key sr z t < stage_key sr y u))"
proof -
  let ?k = "model_key (\<lambda>m. dget (sr_model_scores sr) m 0) (sr_model_eff_cost sr)
        (Some (sr_model_avg_latency_sec sr))"
  let ?o = "filter (\<lambda>m. m \<noteq> x) (map fst (sr_model_scores sr))"
  have ne: "?o \<noteq> []" and z: "z = hd (sort_key ?k ?o)"
    using assms unfolding runner_up_of_def Let_def model_key_def [abs_def] by (auto split: if_splits)
  from z hd_sort_key_in [OF ne, of ?k] have in_o: "z \<in> set ?o" by simp
  then obtain t where t: "z \<noteq> x" "map_of (sr_model_scores sr) z = Some t" by (auto simp: in_keys_iff)
  have "stage_key sr z t < stage_key sr y u"
    if y: "map_of (sr_model_scores sr) y = Some u" "y \<notin> {x, z}" for y u
  proof -
    have "y \<in> set ?o" using y by (auto simp: in_keys_iff)
    then have "?k z \<le> ?k y" using hd_sort_key_least [of y ?o ?k] by (simp add: z)
    moreover have "?k z \<noteq> ?k y" using y(2) mk.key_inj by blast
    ultimately have "?k z < ?k y" by simp
    with t(2) y(1) show ?thesis by (simp add: model_key_def dget_def)
  qed
  with t show ?thesis by blast
qed

text \<open>
  C26: In the winner set of a report (gold weight between 0 and 1) a stage has no winner exactly
  when every model of the stage scored 0 or the stage has no rows. Otherwise the winner has the
  highest score of the stage, a positive one, which is the score recorded for the stage, and is
  strictly before every other model in the order of score (high first), effective cost times latency
  (a model without a cost last) and name. The runner-up is absent exactly if the winner was alone in
  the stage; else it is another model of the stage, strictly before every third model in that order.
\<close>

theorem round_winner_has_best_score:
  fixes w tag scorer ck look rows st round_idx out
  defines "rep \<equiv> compute_ranking tag scorer ck w look rows"
  defines "ws \<equiv> select_per_stage_winners rep tag round_idx out"
  defines "score \<equiv> \<lambda>m. get2 (rp_per_model_summary rep) m st"
  assumes "0 \<le> w" "w \<le> 1"
  shows "case ws_get ws st of
      None \<Rightarrow> \<forall>m v. score m = Some v \<longrightarrow> v = 0
    | Some x \<Rightarrow> \<exists>sr v r. map_of (rp_stages rep) st = Some sr \<and> score x = Some v \<and> 0 < v
        \<and> map_of (ws_stage_scores ws) st = Some v \<and> map_of (ws_runner_up ws) st = Some r
        \<and> (\<forall>y u. score y = Some u \<and> y \<noteq> x \<longrightarrow> u \<le> v \<and> stage_key sr x v < stage_key sr y u)
        \<and> (case r of
             None \<Rightarrow> \<forall>y. y \<noteq> x \<longrightarrow> score y = None
           | Some z \<Rightarrow> z \<noteq> x \<and> (\<exists>t. score z = Some t
               \<and> (\<forall>y u. score y = Some u \<and> y \<notin> {x, z} \<longrightarrow> stage_key sr z t < stage_key sr y u)))"
proof -
  have ok: "dict_ok (rp_stages rep)" by (simp add: rep_def)
  note W = winners_of_report [OF ok, of tag round_idx out st, folded ws_def]
  have sum: "score m =
      (case map_of (rp_stages rep) st of None \<Rightarrow> None | Some sr \<Rightarrow> map_of (sr_model_scores sr) m)" for m
    by (simp add: score_def rep_def report_summary)
  show ?thesis
  proof (cases "map_of (rp_stages rep) st")
    case None
    then show ?thesis by (simp add: W sum)
  next
    case (Some sr)
    then have sr: "sr = rank_stage (pick_scorer scorer) ck w look st (stage_rows st rows)"
      "stage_rows st rows \<noteq> []" by (auto simp: rep_def report_stage split: if_splits)
    from rank_stage_winner [OF assms(4,5) sr(2,1)] obtain x v where
      x: "sr_winner sr = Some x" "map_of (sr_model_scores sr) x = Some v" and
      best: "\<And>y u. map_of (sr_model_scores sr) y = Some u \<Longrightarrow>
        0 \<le> u \<and> u \<le> v \<and> (y \<noteq> x \<longrightarrow> stage_key sr x v < stage_key sr y u)" by blast
    have win: "stage_win sr = (if v \<le> 0 then None else Some x)"
      using x by (auto simp: stage_win_def dget_def)
    show ?thesis
    proof (cases "v \<le> 0")
      case True
      then show ?thesis using best by (force simp: W sum Some win)
    next
      case False
      have "case runner_up_of sr x of
             None \<Rightarrow> \<forall>y. y \<noteq> x \<longrightarrow> score y = None
           | Some z \<Rightarrow> z \<noteq> x \<and> (\<exists>t. score z = Some t
               \<and> (\<forall>y u. score y = Some u \<and> y \<notin> {x, z} \<longrightarrow> stage_key sr z t < stage_key sr y u))"
        using runner_up_None [of sr x] runner_up_Some [of sr x] by (simp add: sum Some split: option.split)
      moreover have "\<forall>y u. score y = Some u \<and> y \<noteq> x \<longrightarrow> u \<le> v \<and> stage_key sr x v < stage_key sr y u"
        unfolding sum Some option.case using best by blast
      moreover have "score x = Some v" using x(2) by (simp add: sum Some)
      moreover have "map_of (ws_stage_scores ws) st = Some v" "map_of (ws_runner_up ws) st = Some (runner_up_of sr x)"
        "ws_get ws st = Some x"
        using False x(2) by (simp_all add: W Some win dget_def)
      ultimately show ?thesis using False Some by (simp add: not_le)
    qed
  qed
qed

text \<open>Three models that answered equally well, at a cost of 3, 1 and 2.\<close>

definition tied_row :: "string \<Rightarrow> real \<Rightarrow> run_row" where
  "tied_row m cost = (good_row ''t'')\<lparr>rr_model := m, rr_effective_cost_usd := Some cost\<rparr>"

definition tied_rows :: "run_row list" where
  "tied_rows = [tied_row ''m'' 3, tied_row ''b'' 1, tied_row ''c'' 2]"

lemma tied_rows_simps:
  "stage_rows ''s'' tied_rows = tied_rows"
  "rows_of x tied_rows = (if x = ''m'' then [tied_row ''m'' 3] else if x = ''b'' then [tied_row ''b'' 1]
     else if x = ''c'' then [tied_row ''c'' 2] else [])"
  "default_row_scorer (tied_row x c) = Num 1"
  "rr_effective_cost_usd (tied_row x c) = Some c" "rr_mean_attempt_duration_sec (tied_row x c) = None"
  by (auto simp: tied_rows_def tied_row_def stage_rows_def rows_of_def good_row_def sample_row_def
      default_row_scorer_def is_row_usable_def MIN_USABLE_RESPONSE_LEN_def)

corollary round_winner_has_best_score_witness:
  "let ws = select_per_stage_winners (compute_ranking ''t'' None None (3/10) None tied_rows) ''t'' 1 None
   in ws_get ws ''s'' = Some ''b'' \<and> map_of (ws_runner_up ws) ''s'' = Some (Some ''c'')"
proof -
  let ?rep = "compute_ranking ''t'' None None (3/10) None tied_rows"
  have ne: "tied_rows \<noteq> []" by (simp add: tied_rows_def)
  have sc: "get2 (rp_per_model_summary ?rep) x ''s'' =
      (if x \<in> {''m'', ''b'', ''c''} then Some 1 else None)" for x
    by (simp add: report_summary report_stage rank_stage_scores tied_rows_simps ne model_score_def
        row_mean_def fmean_def pick_scorer_def)
  have key: "stage_key sr ''m'' 1 = (-1, Fin 3, ''m'')" "stage_key sr ''b'' 1 = (-1, Fin 1, ''b'')"
      "stage_key sr ''c'' 1 = (-1, Fin 2, ''c'')" if "map_of (rp_stages ?rep) ''s'' = Some sr" for sr
    using that by (auto simp: report_stage tied_rows_simps ne cost_tiebreak_key_def Let_def rank_stage_costs
        List.map_filter_def fmean_def split: option.splits)
  let ?ws = "select_per_stage_winners ?rep ''t'' 1 None"
  have range: "0 \<le> (3/10 :: real)" "3/10 \<le> (1 :: real)" by simp_all
  note best = round_winner_has_best_score [OF range, of "''t''" None None None tied_rows "''s''" 1 None]
  obtain x where x: "ws_get ?ws ''s'' = Some x"
  proof (cases "ws_get ?ws ''s''")
    case None
    have "get2 (rp_per_model_summary ?rep) ''b'' ''s'' = Some 1" by (simp add: sc)
    with best [unfolded None option.case, rule_format, of "''b''" 1] show ?thesis by simp
  qed
  with best obtain sr v r where sr: "map_of (rp_stages ?rep) ''s'' = Some sr"
    and v: "get2 (rp_per_model_summary ?rep) x ''s'' = Some v"
    and r: "map_of (ws_runner_up ?ws) ''s'' = Some r"
    and first: "\<And>y u. get2 (rp_per_model_summary ?rep) y ''s'' = Some u \<Longrightarrow> y \<noteq> x \<Longrightarrow> stage_key sr x v < stage_key sr y u"
    and second: "case r of None \<Rightarrow> \<forall>y. y \<noteq> x \<longrightarrow> get2 (rp_per_model_summary ?rep) y ''s'' = None
        | Some z \<Rightarrow> z \<noteq> x \<and> (\<exists>t. get2 (rp_per_model_summary ?rep) z ''s'' = Some t \<and>
            (\<forall>y u. get2 (rp_per_model_summary ?rep) y ''s'' = Some u \<and> y \<notin> {x, z} \<longrightarrow>
               stage_key sr z t < stage_key sr y u))"
    unfolding x option.case by blast
  have xb: "x = ''b''"
    using v first [of "''b''" 1] key [OF sr] by (auto simp: sc split: if_splits)
  have "r = Some ''c''"
  proof (cases r)
    case None
    with second sc [of "''c''"] xb show ?thesis by auto
  next
    case (Some z)
    with second obtain t where z: "z \<noteq> ''b''" "get2 (rp_per_model_summary ?rep) z ''s'' = Some t"
      and lt: "''c'' \<notin> {x, z} \<Longrightarrow> stage_key sr z t < stage_key sr ''c'' 1"
      using sc [of "''c''"] xb by auto
    from z lt key [OF sr] Some xb show ?thesis by (auto simp: sc split: if_splits)
  qed
  with x r xb show ?thesis by (simp add: Let_def)
qed

lemma by_task_unit_fold:
  "by_task_unit m rows =
     fold (\<lambda>r. dappend (rr_task_unit_id r) r) (filter (\<lambda>r. rr_model r = m) rows) []"
proof -
  have "fold (\<lambda>r d. if rr_model r \<noteq> m then d else dappend (rr_task_unit_id r) r d) rows d =
      fold (\<lambda>r. dappend (rr_task_unit_id r) r) (filter (\<lambda>r. rr_model r = m) rows) d" for d
    by (induction rows arbitrary: d) auto
  then show ?thesis by (simp add: by_task_unit_def)
qed

lemma map_of_by_task_unit:
  "map_of (by_task_unit m rows) tu =
     (let c = filter (\<lambda>r. rr_model r = m \<and> rr_task_unit_id r = tu) rows
      in if c = [] then None else Some c)"
proof -
  have "groups_ok (by_task_unit m rows)" by (simp add: by_task_unit_fold groups_ok_fold)
  then show ?thesis
    by (simp add: map_of_groups by_task_unit_fold dget_fold_dappend Let_def conj_commute)
qed

lemma dict_ok_by_task_unit: "dict_ok (by_task_unit m rows)"
proof -
  have "groups_ok (by_task_unit m rows)" by (simp add: by_task_unit_fold groups_ok_fold)
  then show ?thesis unfolding groups_ok_def by blast
qed

lemma map_of_fold_pair:
  assumes "dict_ok g"
  shows "map_of (fold (\<lambda>(k, v). dset (a, k) (f v)) g out) (b, j) =
    (case map_of g j of None \<Rightarrow> map_of out (b, j)
     | Some v \<Rightarrow> if b = a then Some (f v) else map_of out (b, j))"
  using assms
proof (induction g arbitrary: out)
  case (Cons x g)
  then have "map_of g (fst x) = None" by (simp add: map_of_eq_None_iff)
  with Cons show ?case by (cases x) (auto split: option.split)
qed simp

lemma substrates_of_stage_get:
  "map_of (substrates_of_stage query ws (case tag of Some t \<Rightarrow> t | None \<Rightarrow> ws_experiment_tag ws) a out)
     (st, tu) =
   (case load_winner_substrate query ws a tu tag of None \<Rightarrow> map_of out (st, tu)
    | Some r \<Rightarrow> if st = a then Some r else map_of out (st, tu))"
  by (simp add: substrates_of_stage_def load_winner_substrate_def Let_def
      map_of_fold_pair [OF dict_ok_by_task_unit] map_of_by_task_unit split: option.split)

text \<open>
  The one query per stage the round driver makes gives, for every stage and task unit, the row
  the single lookup gives: the dictionary of the round has an entry for a pair exactly if the stage
  was asked for, has a winner, and the winner has a row for the unit.
\<close>

theorem round_substrates_agree:
  "map_of (load_winner_substrates_for_round query winners stages tag) (st, tu) =
     (if st \<in> set stages then load_winner_substrate query winners st tu tag else None)"
proof -
  let ?t = "case tag of Some t \<Rightarrow> t | None \<Rightarrow> ws_experiment_tag winners"
  have "map_of (fold (substrates_of_stage query winners ?t) stages out) (st, tu) =
      (case load_winner_substrate query winners st tu tag of None \<Rightarrow> map_of out (st, tu)
       | Some r \<Rightarrow> if st \<in> set stages then Some r else map_of out (st, tu))" for out
    by (induction stages arbitrary: out) (auto simp: substrates_of_stage_get split: option.split)
  from this [of "[]"] show ?thesis
    by (simp add: load_winner_substrates_for_round_def Let_def split: option.split)
qed

end
