(* ===== verification/Python_Text.thy ===== *)
theory Python_Text
  imports Prelude
begin

text \<open>
  What the code uses of Python's text: \<open>str.strip\<close>, \<open>str.split\<close>, \<open>str.join\<close>, \<open>str(n)\<close>, and the
  numerals that \<open>int\<close> and \<open>float\<close> read. A character stands for the code point of its number. The texts
  \<open>inf\<close> and \<open>nan\<close>, which \<open>float\<close> also reads, denote no real number and are read as no numeral here;
  neither is the limit of 4300 digits of \<open>int\<close> modelled.
\<close>

section \<open>Strip, split and join\<close>

definition py_space :: "char \<Rightarrow> bool" where
  "py_space c = (let n = of_char c :: nat in 9 \<le> n \<and> n \<le> 13 \<or> 28 \<le> n \<and> n \<le> 32 \<or> n = 133 \<or> n = 160)"

definition strip :: "string \<Rightarrow> string" where
  "strip s = rev (dropWhile py_space (rev (dropWhile py_space s)))"

fun split_on :: "char \<Rightarrow> string \<Rightarrow> string list" where
  "split_on d [] = [[]]"
| "split_on d (c # cs) =
     (if c = d then [] # split_on d cs
      else case split_on d cs of [] \<Rightarrow> [[c]] | w # ws \<Rightarrow> (c # w) # ws)"

fun join :: "string \<Rightarrow> string list \<Rightarrow> string" where
  "join sep [] = []"
| "join sep [s] = s"
| "join sep (s # t # ss) = s @ sep @ join sep (t # ss)"

text \<open>A text that \<open>strip\<close> leaves alone, and one it reduces to another.\<close>

definition stripped :: "string \<Rightarrow> bool" where
  "stripped s \<longleftrightarrow> s \<noteq> [] \<and> \<not> py_space (hd s) \<and> \<not> py_space (last s)"

lemma dropWhile_all: "list_all P xs \<Longrightarrow> dropWhile P (xs @ ys) = dropWhile P ys"
  by (induction xs) simp_all

lemma strip_padded:
  assumes "list_all py_space pre" "list_all py_space post" "stripped s"
  shows "strip (pre @ s @ post) = s"
proof -
  from assms(3) have s: "s \<noteq> []" "\<not> py_space (hd s)" "\<not> py_space (hd (rev s))"
    by (auto simp: stripped_def hd_rev)
  have "dropWhile py_space (pre @ s @ post) = s @ post"
    using s(1,2) by (cases s) (simp_all add: dropWhile_all assms(1))
  moreover have "dropWhile py_space (rev post @ rev s) = rev s"
    using s(1,3) assms(2) by (cases "rev s") (simp_all add: dropWhile_all list_all_rev)
  ultimately show ?thesis by (simp add: strip_def)
qed

lemma strip_stripped: "stripped s \<Longrightarrow> strip s = s"
  using strip_padded [of "[]" "[]" s] by simp

lemma strip_blank: "list_all py_space s \<Longrightarrow> strip s = []"
  using dropWhile_all [of py_space s "[]"] by (simp only: strip_def append_Nil2) simp

lemma split_on_nonempty [simp]: "split_on d s \<noteq> []"
  by (cases s) (simp_all split: list.split)

lemma split_on_plain: "d \<notin> set s \<Longrightarrow> split_on d s = [s]"
  by (induction s) auto

lemma split_on_append: "d \<notin> set s \<Longrightarrow> split_on d (s @ d # t) = s # split_on d t"
  by (induction s) auto

text \<open>Splitting undoes joining for texts without the separator.\<close>

lemma split_join:
  "ss \<noteq> [] \<Longrightarrow> list_all (\<lambda>s. d \<notin> set s) ss \<Longrightarrow> split_on d (join [d] ss) = ss"
  by (induction "[d]" ss rule: join.induct) (simp_all add: split_on_plain split_on_append)

section \<open>Numerals\<close>

definition is_digit :: "char \<Rightarrow> bool" where
  "is_digit c \<longleftrightarrow> 48 \<le> (of_char c :: nat) \<and> (of_char c :: nat) \<le> 57"

definition digit :: "char \<Rightarrow> nat" where
  "digit c = of_char c - 48"

text \<open>
  A digit part is a digit and then digits, each with at most one underscore before it. The scan returns
  the value, the number of digits and the rest of the text.
\<close>

fun more_digits :: "nat \<Rightarrow> nat \<Rightarrow> string \<Rightarrow> nat \<times> nat \<times> string" where
  "more_digits v n [] = (v, n, [])"
| "more_digits v n [c] = (if is_digit c then (10 * v + digit c, n + 1, []) else (v, n, [c]))"
| "more_digits v n (c # d # cs) =
     (if is_digit c then more_digits (10 * v + digit c) (n + 1) (d # cs)
      else if c = CHR ''_'' \<and> is_digit d then more_digits (10 * v + digit d) (n + 1) cs
      else (v, n, c # d # cs))"

definition digit_part :: "string \<Rightarrow> (nat \<times> nat \<times> string) option" where
  "digit_part s = (case s of [] \<Rightarrow> None
     | c # cs \<Rightarrow> if is_digit c then Some (more_digits (digit c) 1 cs) else None)"

definition take_sign :: "string \<Rightarrow> int \<times> string" where
  "take_sign s = (case s of [] \<Rightarrow> (1, [])
     | c # cs \<Rightarrow> if c = CHR ''-'' then (- 1, cs) else if c = CHR ''+'' then (1, cs) else (1, s))"

definition int_of_string :: "string \<Rightarrow> int option" where
  "int_of_string s =
     (let (sg, t) = take_sign (strip s)
      in case digit_part t of Some (v, n, r) \<Rightarrow> if r = [] then Some (sg * int v) else None
         | None \<Rightarrow> None)"

text \<open>The parts of a decimal numeral: before the point, behind it, and the exponent.\<close>

definition fraction_part :: "string \<Rightarrow> (real option \<times> string)" where
  "fraction_part s = (case s of [] \<Rightarrow> (None, [])
     | c # cs \<Rightarrow> if c = CHR ''.''
         then (case digit_part cs of Some (v, n, r) \<Rightarrow> (Some (real v / 10 ^ n), r) | None \<Rightarrow> (None, cs))
         else (None, s))"

definition exponent_part :: "string \<Rightarrow> (int \<times> string) option" where
  "exponent_part s = (case s of [] \<Rightarrow> Some (0, [])
     | c # cs \<Rightarrow> if c = CHR ''e'' \<or> c = CHR ''E''
         then (case take_sign cs of (sg, r) \<Rightarrow>
           (case digit_part r of Some (v, n, r') \<Rightarrow> Some (sg * int v, r') | None \<Rightarrow> None))
         else Some (0, s))"

definition float_of_string :: "string \<Rightarrow> real option" where
  "float_of_string s =
     (let (sg, t) = take_sign (strip s);
          (whole, t1) = (case digit_part t of Some (v, n, r) \<Rightarrow> (Some (real v), r) | None \<Rightarrow> (None, t));
          (frac, t2) = fraction_part t1
      in if whole = None \<and> frac = None then None
         else (case exponent_part t2 of
             Some (e, r) \<Rightarrow> if r = [] then Some (of_int sg * (or0 whole + or0 frac) * 10 powi e) else None
           | None \<Rightarrow> None))"

text \<open>\<open>str\<close> of an integer.\<close>

definition digit_char :: "nat \<Rightarrow> char" where
  "digit_char k = char_of (48 + k)"

fun string_of_nat :: "nat \<Rightarrow> string" where
  "string_of_nat n = (if n < 10 then [digit_char n] else string_of_nat (n div 10) @ [digit_char (n mod 10)])"

declare string_of_nat.simps [simp del]

definition string_of_int :: "int \<Rightarrow> string" where
  "string_of_int k = (if k < 0 then CHR ''-'' # string_of_nat (nat (- k)) else string_of_nat (nat k))"

lemma of_char_digit_char: "k < 10 \<Longrightarrow> (of_char (digit_char k) :: nat) = 48 + k"
  by (simp add: digit_char_def)

lemma digit_char [simp]:
  assumes "k < 10"
  shows "is_digit (digit_char k)" "digit (digit_char k) = k"
  using assms by (simp_all add: is_digit_def digit_def of_char_digit_char)

lemma digit_not_space [simp]: "is_digit c \<Longrightarrow> \<not> py_space c"
  by (auto simp: is_digit_def py_space_def)

lemma digits_of_nat: "list_all is_digit (string_of_nat n) \<and> string_of_nat n \<noteq> []"
proof (induction n rule: less_induct)
  case (less n)
  show ?case
  proof (cases "n < 10")
    case False
    then have "n div 10 < n" by simp
    from less [OF this] False show ?thesis by (simp add: string_of_nat.simps [of n])
  qed (simp add: string_of_nat.simps [of n])
qed

lemma more_digits_digits:
  "list_all is_digit ds \<Longrightarrow> more_digits v n (ds @ [d]) = (case more_digits v n ds of (w, m, _) \<Rightarrow>
     if is_digit d then (10 * w + digit d, m + 1, []) else (w, m, [d]))"
proof (induction ds arbitrary: v n)
  case (Cons c ds)
  then show ?case by (cases ds) simp_all
qed simp

lemma digit_part_snoc:
  "ds \<noteq> [] \<Longrightarrow> list_all is_digit ds \<Longrightarrow> is_digit d \<Longrightarrow> digit_part ds = Some (v, n, []) \<Longrightarrow>
   digit_part (ds @ [d]) = Some (10 * v + digit d, n + 1, [])"
  by (cases ds) (auto simp: digit_part_def more_digits_digits)

lemma digit_part_string_of_nat: "\<exists>m. digit_part (string_of_nat n) = Some (n, m, [])"
proof (induction n rule: less_induct)
  case (less n)
  show ?case
  proof (cases "n < 10")
    case True
    then show ?thesis by (simp add: string_of_nat.simps [of n] digit_part_def)
  next
    case False
    then have "n div 10 < n" by simp
    from less [OF this] obtain m where "digit_part (string_of_nat (n div 10)) = Some (n div 10, m, [])" by blast
    then have "digit_part (string_of_nat (n div 10) @ [digit_char (n mod 10)]) = Some (n, m + 1, [])"
      using digits_of_nat [of "n div 10"] digit_part_snoc [of "string_of_nat (n div 10)" "digit_char (n mod 10)"] by simp
    with False show ?thesis by (simp add: string_of_nat.simps [of n])
  qed
qed

lemma stripped_string_of_nat: "stripped (string_of_nat n)"
  using digits_of_nat [of n] by (cases "string_of_nat n") (auto simp: stripped_def list_all_iff)

lemma stripped_string_of_int: "stripped (string_of_int k)"
  using stripped_string_of_nat [of "nat (- k)"] stripped_string_of_nat [of "nat k"]
  by (auto simp: string_of_int_def stripped_def py_space_def)

lemma take_sign_digits: "take_sign (string_of_nat n) = (1, string_of_nat n)"
proof -
  obtain c cs where "string_of_nat n = c # cs" "is_digit c"
    using digits_of_nat [of n] by (cases "string_of_nat n") auto
  moreover from this have "c \<noteq> CHR ''-''" "c \<noteq> CHR ''+''" by (auto simp: is_digit_def)
  ultimately show ?thesis by (simp add: take_sign_def)
qed

lemma int_of_string_of_int [simp]: "int_of_string (string_of_int k) = Some k"
proof -
  obtain m where m: "digit_part (string_of_nat (nat \<bar>k\<bar>)) = Some (nat \<bar>k\<bar>, m, [])"
    using digit_part_string_of_nat by blast
  have "take_sign (string_of_int k) = (if k < 0 then - 1 else 1, string_of_nat (nat \<bar>k\<bar>))"
    by (cases "k < 0") (simp_all add: string_of_int_def take_sign_digits, simp add: take_sign_def)
  with m show ?thesis by (simp add: int_of_string_def strip_stripped [OF stripped_string_of_int])
qed

lemma string_of_int_chars: "c \<in> set (string_of_int k) \<Longrightarrow> c = CHR ''-'' \<or> is_digit c"
  using digits_of_nat [of "nat k"] digits_of_nat [of "nat (- k)"]
  by (auto simp: string_of_int_def list_all_iff split: if_splits)

lemma length_string_of_nat: "n < 10 ^ Suc k \<Longrightarrow> length (string_of_nat n) \<le> Suc k"
proof (induction k arbitrary: n)
  case 0
  then show ?case by (simp add: string_of_nat.simps [of n])
next
  case (Suc k)
  then show ?case by (cases "n < 10") (simp_all add: string_of_nat.simps [of n])
qed

end
