(* ===== verification/Round_Pipeline.thy ===== *)
theory Round_Pipeline
  imports Stage_Graph Core_Hashing Validator_Pairing Halving_Driver Resume_Cache Budget_Gate
    Error_Classify Stage_Kwargs Stage_Winners Redaction
begin

text \<open>
  \<open>runner/round_runner.py\<close>, the pipeline of one (model, task unit) pair. The pipelines of a round run
  as coroutines on one event loop: between two \<open>await\<close>s a pipeline runs alone, at an \<open>await\<close>
  another may run. \<open>pipe_step\<close> is the code from one \<open>await\<close> to the next, and \<open>pp_phase\<close> says at
  which \<open>await\<close> a pipeline stands. The storage backend, the provider and the clock are parameters
  (\<open>backend\<close>, \<open>llm\<close>); the consumer's stage callables are in the stage records. Log lines are left out.
\<close>

section \<open>Collaborators\<close>

text \<open>A storage backend as a round uses it; \<open>Some e\<close> is an exception, the \<open>int\<close> of \<open>be_record_call\<close> the time.\<close>

record 's backend =
  be_upsert_prompts :: "string \<Rightarrow> string \<Rightarrow> 's \<Rightarrow> py_error option \<times> 's"
  be_record_call :: "int \<Rightarrow> run_row \<Rightarrow> 's \<Rightarrow> py_error option \<times> 's"
  be_spend_by_op :: "'s \<Rightarrow> string \<Rightarrow> (string, real) dict result"
  be_query_rows :: "'s \<Rightarrow> string \<Rightarrow> string option \<Rightarrow> run_row list result"
  be_load_winners :: "'s \<Rightarrow> string \<Rightarrow> int \<Rightarrow> winner_set option result"
  be_persist_winners :: "string \<Rightarrow> int \<Rightarrow> winner_set \<Rightarrow> 's \<Rightarrow> py_error option \<times> 's"

text \<open>What a provider reports about a call. A missing entry is \<open>None\<close>.\<close>

record telemetry =
  tm_input_tokens :: "int option"
  tm_output_tokens :: "int option"
  tm_reasoning_tokens :: "int option"
  tm_cost_usd :: "real option"
  tm_effective_cost_usd :: "real option"
  tm_cache_hit_tokens :: "int option"
  tm_cache_write_tokens :: "int option"
  tm_cache_discount_usd :: "real option"
  tm_is_byok :: "bool option"
  tm_web_search_citations :: "json option"
  tm_upstream_resolved_model :: "string option"
  tm_upstream_provider :: "string option"
  tm_upstream_model :: "string option"
  tm_native_finish_reason :: "string option"
  tm_generation_id :: "string option"
  tm_error_class :: "string option"
  tm_error_message :: "string option"

definition no_telemetry :: telemetry where
  "no_telemetry = \<lparr>tm_input_tokens = None, tm_output_tokens = None, tm_reasoning_tokens = None,
     tm_cost_usd = None, tm_effective_cost_usd = None, tm_cache_hit_tokens = None,
     tm_cache_write_tokens = None, tm_cache_discount_usd = None, tm_is_byok = None,
     tm_web_search_citations = None, tm_upstream_resolved_model = None, tm_upstream_provider = None,
     tm_upstream_model = None, tm_native_finish_reason = None, tm_generation_id = None,
     tm_error_class = None, tm_error_message = None\<rparr>"

text \<open>
  \<open>last_call_summary\<close>: absent or not callable, raising, or a dictionary (its entries without \<open>None\<close>).
\<close>

datatype call_summary = NoSummary | SummaryRaises | Summary telemetry

text \<open>
  A provider made by the factory, called, and read afterwards. \<open>lm_attrs\<close> are the fifteen
  \<open>last_...\<close> attributes.
\<close>

record 'w llm =
  lm_make :: "string \<Rightarrow> 'w \<Rightarrow> pyexn option \<times> 'w"
  lm_max_output_tokens :: "string \<Rightarrow> 'w \<Rightarrow> int option"
  lm_generate :: "string \<Rightarrow> string \<Rightarrow> string \<Rightarrow> (string, json) dict \<Rightarrow> 'w \<Rightarrow> (pyexn + string option) \<times> 'w"
  lm_attrs :: "string \<Rightarrow> 'w \<Rightarrow> telemetry"
  lm_summary :: "string \<Rightarrow> 'w \<Rightarrow> call_summary"
  lm_monotonic :: "'w \<Rightarrow> real"
  lm_now :: "'w \<Rightarrow> int"

record ('p, 's, 'w) round_config =
  rc_experiment_tag :: string
  rc_round_idx :: int
  rc_candidates :: "string list"
  rc_task_units :: "task_unit list"
  rc_stages :: "'p stage list"
  rc_schedule :: halving_schedule
  rc_backend :: "'s backend"
  rc_llm :: "'w llm"
  rc_gold_checker :: "gold_checker option"
  rc_row_scorer :: "row_scorer option"
  rc_global_concurrency :: nat
  rc_per_op_concurrency :: "(string, nat) dict"
  rc_custom_factory :: bool
  rc_thinking :: string
  rc_provider_label :: string
  rc_provider_kwargs :: "(string, json) dict"
  rc_quarantine_duration_sec :: real
  rc_quarantine_cost_multiplier :: real
  rc_sha256 :: "byte list \<Rightarrow> string"
  rc_json_dumps :: "(string, json) dict \<Rightarrow> string"

section \<open>Small helpers\<close>

definition provider_identity ::
  "(byte list \<Rightarrow> string) \<Rightarrow> ((string, json) dict \<Rightarrow> string) \<Rightarrow> string \<Rightarrow> (string, json) dict option \<Rightarrow> string" where
  "provider_identity sha dumps label provider_kwargs =
     (case provider_kwargs of None \<Rightarrow> label
      | Some kw \<Rightarrow> if kw = [] then label
          else label @ ''{route:'' @ take 12 (hash_text sha (dumps kw)) @ ''}'')"

definition row_provider :: "('p, 's, 'w) round_config \<Rightarrow> string" where
  "row_provider cfg = provider_identity (rc_sha256 cfg) (rc_json_dumps cfg) (rc_provider_label cfg)
     (if rc_custom_factory cfg then None else Some (rc_provider_kwargs cfg))"

text \<open>\<open>d[m] = d.get(m, 0) + 1\<close>.\<close>

definition count_attempt :: "string \<Rightarrow> (string, nat) dict \<Rightarrow> (string, nat) dict" where
  "count_attempt m d = dset m (dget d m 0 + 1) d"

definition parse_safely :: "'p stage \<Rightarrow> task_unit \<Rightarrow> string option \<Rightarrow> int \<Rightarrow> int \<Rightarrow> 'p option" where
  "parse_safely stg tu response in_tok out_tok =
     (case response of None \<Rightarrow> None
      | Some r \<Rightarrow> (case sg_parser stg tu r in_tok out_tok of Inl _ \<Rightarrow> None | Inr p \<Rightarrow> p))"

definition build_prompt :: "'p stage \<Rightarrow> task_unit \<Rightarrow> 'p stage_context \<Rightarrow> pyexn + (string \<times> string)" where
  "build_prompt stg tu ctx =
     (case sg_prompt_builder stg tu ctx (sg_lang stg) of
        Inl e \<Rightarrow> Inl e
      | Inr None \<Rightarrow> Inl (PyExn ''ValueError''
          (''PromptBuilder for stage '' @ [CHR 0x27] @ sg_id stg @ [CHR 0x27]
             @ '' must return (system, user) tuple''))
      | Inr (Some p) \<Rightarrow> Inr p)"

definition set_output ::
  "string \<Rightarrow> 'p option \<Rightarrow> string \<Rightarrow> string \<Rightarrow> 'p stage_context \<Rightarrow> 'p stage_context" where
  "set_output sid parsed h txt ctx =
     ctx\<lparr>cx_outputs := dset sid parsed (cx_outputs ctx),
         cx_parent_prompt_hashes := dset sid h (cx_parent_prompt_hashes ctx),
         cx_response_texts := dset sid txt (cx_response_texts ctx)\<rparr>"

definition str_or_empty :: "string option \<Rightarrow> string" where
  "str_or_empty s = (case s of None \<Rightarrow> [] | Some t \<Rightarrow> t)"

definition apply_winner_substrate ::
  "'p stage list \<Rightarrow> (string \<times> string, run_row) dict \<Rightarrow> 'p stage \<Rightarrow> task_unit \<Rightarrow> 'p stage_context
     \<Rightarrow> 'p stage_context result" where
  "apply_winner_substrate stages substrates stg tu ctx =
     (case sg_parent_stage stg of None \<Rightarrow> Inr ctx
      | Some parent \<Rightarrow>
          (case map_of substrates (parent, tu_id tu) of None \<Rightarrow> Inr ctx
           | Some row \<Rightarrow>
               (case stage_by_id stages parent of Inl e \<Rightarrow> Inl e
                | Inr ps \<Rightarrow> Inr (set_output parent
                    (parse_safely ps tu (rr_response row) (or0 (rr_input_tokens row)) (or0 (rr_output_tokens row)))
                    (rr_composite_hash row) (str_or_empty (rr_response row)) ctx))))"

text \<open>
  Who answers the stage's call: \<open>None\<close> when the stage is skipped, which counts as attempted. The
  shuffle inside the choice runs on a generator seeded with 0.
\<close>

definition resolve_validator_call_model ::
  "'g randbelow \<Rightarrow> 'g \<Rightarrow> string list \<Rightarrow> (string, real) dict \<Rightarrow> 'p stage \<Rightarrow> string \<Rightarrow> string option" where
  "resolve_validator_call_model rb g candidates eff_cost stg model =
     (if \<not> sg_is_validator stg then Some model
      else if length candidates < 3 then None
      else select_validator_for_producer rb g model candidates eff_cost)"

definition over_budget :: "('p, 's, 'w) round_config \<Rightarrow> 'p stage \<Rightarrow> real \<Rightarrow> real \<Rightarrow> bool" where
  "over_budget cfg stg duration cost_usd \<longleftrightarrow> duration > rc_quarantine_duration_sec cfg
     \<or> (sg_budget_per_call stg > 0 \<and> cost_usd > sg_budget_per_call stg * rc_quarantine_cost_multiplier cfg)"

definition maybe_quarantine ::
  "('p, 's, 'w) round_config \<Rightarrow> 'p stage \<Rightarrow> real \<Rightarrow> real \<Rightarrow> 'p stage_context \<Rightarrow> 'p stage_context" where
  "maybe_quarantine cfg stg duration cost_usd ctx =
     (if over_budget cfg stg duration cost_usd then ctx\<lparr>cx_quarantined := True\<rparr> else ctx)"

text \<open>The prefix of an unparseable response, whether money was spent, whether the row may be cached.\<close>

definition classify_call_outcome ::
  "string option \<Rightarrow> string option \<Rightarrow> 'p option \<Rightarrow> string option \<times> bool \<times> bool" where
  "classify_call_outcome error_class response parsed =
     (if truthy error_class then (None, False, False)
      else if truthy response \<and> parsed = None then (map_option (take 200) response, True, False)
      else if \<not> truthy response then (None, True, False)
      else (None, True, True))"

definition update_error_history ::
  "string \<Rightarrow> string option \<Rightarrow> nat \<Rightarrow> halving \<Rightarrow> (nat \<times> bool) \<times> halving" where
  "update_error_history model error_class error_count h =
     (if \<not> truthy error_class then ((error_count, False), h)
      else let e = the error_class;
               h' = h\<lparr>hv_error_history := dappend model e (hv_error_history h)\<rparr>
           in if e \<notin> set DEAD_ERROR_CLASSES then ((error_count, False), h')
              else ((error_count + 1, error_count + 1 \<ge> 3), h'))"

section \<open>The provider call\<close>

text \<open>\<open>telemetry.update(...)\<close> with the entries that are not \<open>None\<close>.\<close>

definition over :: "'a option \<Rightarrow> 'a option \<Rightarrow> 'a option" where
  "over old new = (case new of None \<Rightarrow> old | Some v \<Rightarrow> Some v)"

definition telemetry_update :: "telemetry \<Rightarrow> telemetry \<Rightarrow> telemetry" where
  "telemetry_update a b =
     \<lparr>tm_input_tokens = over (tm_input_tokens a) (tm_input_tokens b),
      tm_output_tokens = over (tm_output_tokens a) (tm_output_tokens b),
      tm_reasoning_tokens = over (tm_reasoning_tokens a) (tm_reasoning_tokens b),
      tm_cost_usd = over (tm_cost_usd a) (tm_cost_usd b),
      tm_effective_cost_usd = over (tm_effective_cost_usd a) (tm_effective_cost_usd b),
      tm_cache_hit_tokens = over (tm_cache_hit_tokens a) (tm_cache_hit_tokens b),
      tm_cache_write_tokens = over (tm_cache_write_tokens a) (tm_cache_write_tokens b),
      tm_cache_discount_usd = over (tm_cache_discount_usd a) (tm_cache_discount_usd b),
      tm_is_byok = over (tm_is_byok a) (tm_is_byok b),
      tm_web_search_citations = over (tm_web_search_citations a) (tm_web_search_citations b),
      tm_upstream_resolved_model = over (tm_upstream_resolved_model a) (tm_upstream_resolved_model b),
      tm_upstream_provider = over (tm_upstream_provider a) (tm_upstream_provider b),
      tm_upstream_model = over (tm_upstream_model a) (tm_upstream_model b),
      tm_native_finish_reason = over (tm_native_finish_reason a) (tm_native_finish_reason b),
      tm_generation_id = over (tm_generation_id a) (tm_generation_id b),
      tm_error_class = over (tm_error_class a) (tm_error_class b),
      tm_error_message = over (tm_error_message a) (tm_error_message b)\<rparr>"

definition harvest_telemetry :: "'w llm \<Rightarrow> string \<Rightarrow> 'w \<Rightarrow> telemetry" where
  "harvest_telemetry lm model w =
     (let swept = (lm_attrs lm model w)\<lparr>tm_error_class := None, tm_error_message := None\<rparr>
      in case lm_summary lm model w of
           NoSummary \<Rightarrow> swept
         | SummaryRaises \<Rightarrow> swept
         | Summary t \<Rightarrow> telemetry_update swept t)"

definition with_max_tokens :: "int option \<Rightarrow> (string, json) dict \<Rightarrow> (string, json) dict" where
  "with_max_tokens own_cap kwargs =
     (if (case map_of kwargs ''max_tokens'' of None \<Rightarrow> False | Some j \<Rightarrow> json_truthy j) then kwargs
      else if or0 own_cap \<noteq> 0 then dset ''max_tokens'' (JNum (real_of_int (or0 own_cap))) kwargs
      else kwargs)"

text \<open>An exception carries the telemetry of the call, if there was one.\<close>

definition call_llm ::
  "'w llm \<Rightarrow> string \<Rightarrow> string \<Rightarrow> string \<Rightarrow> (string, json) dict \<Rightarrow> 'w
     \<Rightarrow> ((pyexn \<times> telemetry) + (string option \<times> telemetry)) \<times> 'w" where
  "call_llm lm model sys_p usr_p generate_kwargs w0 =
     (case lm_make lm model w0 of
        (Some e, w1) \<Rightarrow> (Inl (e, no_telemetry), w1)
      | (None, w1) \<Rightarrow>
          (case lm_generate lm model usr_p sys_p
                  (with_max_tokens (lm_max_output_tokens lm model w1) generate_kwargs) w1 of
             (Inl e, w2) \<Rightarrow> (Inl (e, harvest_telemetry lm model w2), w2)
           | (Inr resp, w2) \<Rightarrow> (Inr (resp, harvest_telemetry lm model w2), w2)))"

record call_outcome =
  co_response :: "string option"
  co_telemetry :: telemetry
  co_duration :: real
  co_error_class :: "string option"
  co_error_message :: "string option"

definition call_llm_guarded ::
  "'w llm \<Rightarrow> string \<Rightarrow> string \<Rightarrow> string \<Rightarrow> (string, json) dict \<Rightarrow> real \<Rightarrow> 'w \<Rightarrow> call_outcome \<times> 'w" where
  "call_llm_guarded lm call_model sys_p usr_p generate_kwargs t0 w0 =
     (let (res, w) = call_llm lm call_model sys_p usr_p generate_kwargs w0;
          dur = lm_monotonic lm w - t0
      in (case res of
            Inr (resp, t) \<Rightarrow>
              \<lparr>co_response = resp, co_telemetry = t, co_duration = dur,
               co_error_class = tm_error_class t, co_error_message = tm_error_message t\<rparr>
          | Inl (PyExn name txt, t) \<Rightarrow>
              \<lparr>co_response = None, co_telemetry = t, co_duration = dur,
               co_error_class = Some (classify_provider_error name (Some txt)),
               co_error_message = Some (take 500 (redact_secrets txt))\<rparr>, w))"

section \<open>The state of a round\<close>

text \<open>
  What the pipelines of a round share: the storage, the resume cache, the budget gate if there is
  one, the halving driver's error history, and the round's own counters. \<open>ro_infra\<close> lists the
  calls that could not be persisted.
\<close>

datatype infra_error =
    PersistFailed string string string py_error
  | PromptFailureNotRecorded string string string py_error

record ('s, 'w) round_world =
  ro_store :: 's
  ro_llm :: 'w
  ro_cache :: resume_cache
  ro_gate :: "budget_gate option"
  ro_halving :: halving
  ro_attempted :: "(string, nat) dict"
  ro_seen :: "string set"
  ro_infra :: "infra_error list"

record prompt =
  pr_system :: string
  pr_user :: string
  pr_hash :: string
  pr_call_model :: string

text \<open>A completed call on its way to storage, gate and resume cache.\<close>

record answer =
  an_row :: run_row
  an_cost_usd :: real
  an_effective :: real
  an_reservation :: real
  an_to_cache :: "cached_response option"
  an_error_class :: "string option"

datatype pipe_end = Finished | Quarantined | Aborted | Crashed py_error

text \<open>
  Where a pipeline stands: at the top of the loop, after a cache miss, admitted by the gate (with
  the reservation), with its prompt stored and waiting for the global semaphore, holding that and
  waiting for the semaphore of the op, calling (with the start time), answered, with its row
  recorded, with its cost recorded, ended.
\<close>

datatype phase =
    Ready
  | Missed prompt
  | Admitted prompt real
  | Prompted prompt real
  | Holding prompt real
  | Calling prompt real real
  | Answered answer
  | Recorded answer
  | Costed answer
  | Ended pipe_end

record 'p pipe =
  pp_model :: string
  pp_unit :: task_unit
  pp_ctx :: "'p stage_context"
  pp_errors :: nat
  pp_todo :: "'p stage list"
  pp_phase :: phase

definition new_context :: "task_unit \<Rightarrow> 'p stage_context" where
  "new_context tu = \<lparr>cx_task_unit = tu, cx_outputs = [], cx_parent_prompt_hashes = [],
     cx_response_texts = [], cx_quarantined = False\<rparr>"

definition start_pipe :: "'p stage list \<Rightarrow> string \<times> task_unit \<Rightarrow> 'p pipe" where
  "start_pipe topo = (\<lambda>(model, tu). \<lparr>pp_model = model, pp_unit = tu, pp_ctx = new_context tu,
     pp_errors = 0, pp_todo = topo, pp_phase = Ready\<rparr>)"

section \<open>Rows\<close>

text \<open>The row of a stage whose prompt could not be built.\<close>

definition failed_prompt_row ::
  "('p, 's, 'w) round_config \<Rightarrow> 'p stage \<Rightarrow> task_unit \<Rightarrow> string \<Rightarrow> pyexn \<Rightarrow> run_row" where
  "failed_prompt_row cfg stg tu model e =
     \<lparr>rr_composite_hash = hash_text (rc_sha256 cfg)
        (''__prompt_build_failure__:'' @ sg_id stg @ '':'' @ tu_id tu @ '':'' @ model),
      rr_provider = row_provider cfg, rr_model = model, rr_thinking = rc_thinking cfg,
      rr_stage = sg_id stg, rr_task_unit_id = tu_id tu, rr_stratum = tu_stratum tu,
      rr_lang = sg_lang stg, rr_parent_prompt_hash = None,
      rr_experiment_tag = rc_experiment_tag cfg, rr_response = None,
      rr_error_class = Some ''InternalPipelineError'',
      rr_error_message = Some (take 500 (redact_secrets (exc_text e))),
      rr_cost_usd = Some 0, rr_effective_cost_usd = Some 0, rr_input_tokens = Some 0,
      rr_output_tokens = Some 0, rr_reasoning_tokens = Some 0, rr_cache_hit_tokens = Some 0,
      rr_cache_write_tokens = Some 0, rr_cache_discount_usd = None, rr_is_byok = None,
      rr_web_search_citations = None, rr_upstream_resolved_model = None, rr_upstream_provider = None,
      rr_upstream_model = None, rr_native_finish_reason = None, rr_generation_id = None,
      rr_mean_attempt_duration_sec = None, rr_n_attempts = Some 1, rr_http_status_sequence = None,
      rr_per_attempt_durations_sec = None, rr_logs = None, rr_logs_compressed = None,
      rr_parse_failure_prefix = None, rr_generation_details = [], rr_ts = None\<rparr>"

definition call_row ::
  "('p, 's, 'w) round_config \<Rightarrow> 'p stage \<Rightarrow> task_unit \<Rightarrow> string \<Rightarrow> prompt \<Rightarrow> string option
     \<Rightarrow> call_outcome \<Rightarrow> string option \<Rightarrow> run_row" where
  "call_row cfg stg tu model pr parent_h co parse_failure_prefix =
     (let t = co_telemetry co;
          cost = or0 (tm_cost_usd t);
          eff = (case tm_effective_cost_usd t of None \<Rightarrow> cost | Some e \<Rightarrow> e)
      in \<lparr>rr_composite_hash = pr_hash pr, rr_provider = row_provider cfg, rr_model = model,
          rr_thinking = rc_thinking cfg, rr_stage = sg_id stg, rr_task_unit_id = tu_id tu,
          rr_stratum = tu_stratum tu, rr_lang = sg_lang stg, rr_parent_prompt_hash = parent_h,
          rr_experiment_tag = rc_experiment_tag cfg, rr_response = co_response co,
          rr_error_class = co_error_class co, rr_error_message = co_error_message co,
          rr_cost_usd = Some cost, rr_effective_cost_usd = Some eff,
          rr_input_tokens = Some (or0 (tm_input_tokens t)),
          rr_output_tokens = Some (or0 (tm_output_tokens t)),
          rr_reasoning_tokens = Some (or0 (tm_reasoning_tokens t)),
          rr_cache_hit_tokens = tm_cache_hit_tokens t, rr_cache_write_tokens = tm_cache_write_tokens t,
          rr_cache_discount_usd = tm_cache_discount_usd t, rr_is_byok = tm_is_byok t,
          rr_web_search_citations = tm_web_search_citations t,
          rr_upstream_resolved_model = tm_upstream_resolved_model t,
          rr_upstream_provider = tm_upstream_provider t, rr_upstream_model = tm_upstream_model t,
          rr_native_finish_reason = tm_native_finish_reason t, rr_generation_id = tm_generation_id t,
          rr_mean_attempt_duration_sec = Some (co_duration co), rr_n_attempts = Some 1,
          rr_http_status_sequence = None, rr_per_attempt_durations_sec = None, rr_logs = None,
          rr_logs_compressed = None, rr_parse_failure_prefix = parse_failure_prefix,
          rr_generation_details = (if sg_is_validator stg \<and> pr_call_model pr \<noteq> model
             then [(''validator_model'', JStr (pr_call_model pr))] else []),
          rr_ts = None\<rparr>)"

definition cache_entry :: "('p, 's, 'w) round_config \<Rightarrow> prompt \<Rightarrow> run_row \<Rightarrow> cached_response" where
  "cache_entry cfg pr row =
     \<lparr>cr_composite_hash = pr_hash pr, cr_response = str_or_empty (rr_response row),
      cr_input_tokens = or0 (rr_input_tokens row), cr_output_tokens = or0 (rr_output_tokens row),
      cr_reasoning_tokens = or0 (rr_reasoning_tokens row), cr_cost_usd = or0 (rr_cost_usd row),
      cr_thinking = rc_thinking cfg, cr_source_tag = Some (rc_experiment_tag cfg)\<rparr>"

section \<open>The steps of a pipeline\<close>

text \<open>The end of one pass of the loop: the next stage, with one attempt counted.\<close>

definition next_stage ::
  "'p stage_context \<Rightarrow> 'p pipe \<Rightarrow> ('s, 'w) round_world \<Rightarrow> 'p pipe \<times> ('s, 'w) round_world" where
  "next_stage ctx p w =
     (p\<lparr>pp_ctx := ctx, pp_todo := tl (pp_todo p), pp_phase := Ready\<rparr>,
      w\<lparr>ro_attempted := count_attempt (pp_model p) (ro_attempted w)\<rparr>)"

text \<open>The bookkeeping behind a live call, after the attempt to persist it.\<close>

definition finish_call ::
  "string option \<Rightarrow> 'p pipe \<Rightarrow> ('s, 'w) round_world \<Rightarrow> 'p pipe \<times> ('s, 'w) round_world" where
  "finish_call error_class p w =
     (let (p1, w1) = next_stage (pp_ctx p) p w;
          ((n, stop), h) = update_error_history (pp_model p) error_class (pp_errors p) (ro_halving w1)
      in (p1\<lparr>pp_errors := n, pp_phase := (if stop then Ended Aborted else Ready)\<rparr>, w1\<lparr>ro_halving := h\<rparr>))"

definition stop_pipe :: "pipe_end \<Rightarrow> 'p pipe \<Rightarrow> 'p pipe" where
  "stop_pipe e p = p\<lparr>pp_phase := Ended e\<rparr>"

text \<open>From the top of the loop to the answer of the resume cache.\<close>

definition ready_step ::
  "'g randbelow \<Rightarrow> 'g \<Rightarrow> ('p, 's, 'w) round_config \<Rightarrow> (string \<times> string, run_row) dict
     \<Rightarrow> 'p pipe \<Rightarrow> ('s, 'w) round_world \<Rightarrow> 'p pipe \<times> ('s, 'w) round_world" where
  "ready_step rb g cfg substrates p w =
     (case pp_todo p of [] \<Rightarrow> (stop_pipe Finished p, w)
      | stg # rest \<Rightarrow>
        if cx_quarantined (pp_ctx p) then (stop_pipe Quarantined p, w)
        else case apply_winner_substrate (rc_stages cfg) substrates stg (pp_unit p) (pp_ctx p) of
          Inl e \<Rightarrow> (stop_pipe (Crashed e) p, w)
        | Inr ctx \<Rightarrow>
          (case build_prompt stg (pp_unit p) ctx of
             Inl e \<Rightarrow>
               (let (err, s) = be_record_call (rc_backend cfg) (lm_now (rc_llm cfg) (ro_llm w))
                      (failed_prompt_row cfg stg (pp_unit p) (pp_model p) e) (ro_store w);
                    infra = (case err of None \<Rightarrow> []
                      | Some x \<Rightarrow> [PromptFailureNotRecorded (sg_id stg) (pp_model p) (tu_id (pp_unit p)) x])
                in next_stage ctx p (w\<lparr>ro_store := s, ro_infra := ro_infra w @ infra\<rparr>))
           | Inr (sys_p, usr_p) \<Rightarrow>
             (case resolve_validator_call_model rb g (rc_candidates cfg)
                    (hv_last_eff_cost (ro_halving w)) stg (pp_model p) of
                None \<Rightarrow> next_stage ctx p w
              | Some call_model \<Rightarrow>
                (case prompt_hashes (rc_sha256 cfg) sys_p usr_p of
                   Inl e \<Rightarrow> (stop_pipe (Crashed e) p, w)
                 | Inr (_, _, h) \<Rightarrow>
                   (case resume_get (ro_cache w) h (row_provider cfg) (pp_model p) (rc_thinking cfg) of
                      Some c \<Rightarrow> next_stage (set_output (sg_id stg)
                        (parse_safely stg (pp_unit p) (Some (cr_response c)) (cr_input_tokens c) (cr_output_tokens c))
                        h (cr_response c) ctx) p w
                    | None \<Rightarrow> (p\<lparr>pp_ctx := ctx, pp_phase := Missed
                        \<lparr>pr_system = sys_p, pr_user = usr_p, pr_hash = h, pr_call_model = call_model\<rparr>\<rparr>, w))))))"

text \<open>The budget gate. A call it refuses is skipped, and not counted as attempted.\<close>

definition missed_step ::
  "('p, 's, 'w) round_config \<Rightarrow> 'p stage \<Rightarrow> prompt \<Rightarrow> 'p pipe \<Rightarrow> ('s, 'w) round_world
     \<Rightarrow> 'p pipe \<times> ('s, 'w) round_world" where
  "missed_step cfg stg pr p w =
     (case ro_gate w of None \<Rightarrow> (p\<lparr>pp_phase := Admitted pr 0\<rparr>, w)
      | Some g \<Rightarrow>
        (case gate_check (be_spend_by_op (rc_backend cfg) (ro_store w)) (rc_experiment_tag cfg) (sg_op stg)
                (Some (sg_budget_per_call stg)) g of
           Inl e \<Rightarrow> (stop_pipe (Crashed e) p, w)
         | Inr (ans, g') \<Rightarrow>
             if ga_can_proceed ans
             then (p\<lparr>pp_phase := Admitted pr (ga_reservation ans)\<rparr>, w\<lparr>ro_gate := Some g'\<rparr>)
             else (p\<lparr>pp_todo := tl (pp_todo p), pp_phase := Ready\<rparr>, w\<lparr>ro_gate := Some g'\<rparr>)))"

text \<open>The prompt text is stored once per hash and round, before the call.\<close>

definition admitted_step ::
  "('p, 's, 'w) round_config \<Rightarrow> prompt \<Rightarrow> real \<Rightarrow> 'p pipe \<Rightarrow> ('s, 'w) round_world
     \<Rightarrow> 'p pipe \<times> ('s, 'w) round_world" where
  "admitted_step cfg pr res p w =
     (if pr_hash pr \<in> ro_seen w then (p\<lparr>pp_phase := Prompted pr res\<rparr>, w)
      else let (err, s) = be_upsert_prompts (rc_backend cfg) (pr_system pr) (pr_user pr) (ro_store w);
               w' = w\<lparr>ro_store := s, ro_seen := insert (pr_hash pr) (ro_seen w)\<rparr>
           in case err of None \<Rightarrow> (p\<lparr>pp_phase := Prompted pr res\<rparr>, w')
              | Some e \<Rightarrow> (stop_pipe (Crashed e) p, w'))"

definition calling_step ::
  "('p, 's, 'w) round_config \<Rightarrow> 'p stage \<Rightarrow> prompt \<Rightarrow> real \<Rightarrow> real \<Rightarrow> 'p pipe \<Rightarrow> ('s, 'w) round_world
     \<Rightarrow> 'p pipe \<times> ('s, 'w) round_world" where
  "calling_step cfg stg pr res t0 p w =
     (let (co, lw) = call_llm_guarded (rc_llm cfg) (pr_call_model pr) (pr_system pr) (pr_user pr)
            (stage_generate_kwargs stg (pr_call_model pr) (pr_system pr) (pr_user pr)) t0 (ro_llm w);
          ctx = pp_ctx p;
          parent_h = (case sg_parent_stage stg of None \<Rightarrow> None
            | Some q \<Rightarrow> if q = [] then None else map_of (cx_parent_prompt_hashes ctx) q);
          t = co_telemetry co;
          parsed = (if truthy (co_response co)
            then parse_safely stg (pp_unit p) (co_response co) (or0 (tm_input_tokens t)) (or0 (tm_output_tokens t))
            else None);
          cost = or0 (tm_cost_usd t);
          ctx1 = maybe_quarantine cfg stg (co_duration co) cost
            (set_output (sg_id stg) parsed (pr_hash pr) (str_or_empty (co_response co)) ctx);
          (pfp, spent, cacheable) = classify_call_outcome (co_error_class co) (co_response co) parsed;
          row = call_row cfg stg (pp_unit p) (pp_model p) pr parent_h co pfp
      in (p\<lparr>pp_ctx := ctx1, pp_phase := Answered
            \<lparr>an_row = row, an_cost_usd = cost, an_effective = or0 (rr_effective_cost_usd row),
             an_reservation = res,
             an_to_cache = (if spent \<and> cacheable then Some (cache_entry cfg pr row) else None),
             an_error_class = co_error_class co\<rparr>\<rparr>, w\<lparr>ro_llm := lw\<rparr>))"

text \<open>
  The three awaits of the persistence block. A backend that raises skips the rest of the block, the
  release of the reservation included.
\<close>

definition answered_step ::
  "('p, 's, 'w) round_config \<Rightarrow> answer \<Rightarrow> 'p pipe \<Rightarrow> ('s, 'w) round_world
     \<Rightarrow> 'p pipe \<times> ('s, 'w) round_world" where
  "answered_step cfg an p w =
     (let (err, s) = be_record_call (rc_backend cfg) (lm_now (rc_llm cfg) (ro_llm w)) (an_row an) (ro_store w);
          w' = w\<lparr>ro_store := s\<rparr>
      in case err of None \<Rightarrow> (p\<lparr>pp_phase := Recorded an\<rparr>, w')
         | Some e \<Rightarrow> finish_call (an_error_class an) p
             (w'\<lparr>ro_infra := ro_infra w' @
                [PersistFailed (rr_stage (an_row an)) (pp_model p) (tu_id (pp_unit p)) e]\<rparr>))"

definition recorded_step ::
  "('p, 's, 'w) round_config \<Rightarrow> 'p stage \<Rightarrow> answer \<Rightarrow> 'p pipe \<Rightarrow> ('s, 'w) round_world
     \<Rightarrow> 'p pipe \<times> ('s, 'w) round_world" where
  "recorded_step cfg stg an p w =
     (p\<lparr>pp_phase := Costed an\<rparr>,
      w\<lparr>ro_gate := map_option (record_cost (rc_experiment_tag cfg) (sg_op stg) (an_cost_usd an)
          (Some (an_effective an)) (an_reservation an)) (ro_gate w)\<rparr>)"

definition costed_step ::
  "('p, 's, 'w) round_config \<Rightarrow> answer \<Rightarrow> 'p pipe \<Rightarrow> ('s, 'w) round_world
     \<Rightarrow> 'p pipe \<times> ('s, 'w) round_world" where
  "costed_step cfg an p w =
     finish_call (an_error_class an) p
       (case an_to_cache an of None \<Rightarrow> w
        | Some c \<Rightarrow> w\<lparr>ro_cache := resume_put c (row_provider cfg) (pp_model p) (ro_cache w)\<rparr>)"

definition pipe_step ::
  "'g randbelow \<Rightarrow> 'g \<Rightarrow> ('p, 's, 'w) round_config \<Rightarrow> (string \<times> string, run_row) dict
     \<Rightarrow> 'p pipe \<Rightarrow> ('s, 'w) round_world \<Rightarrow> 'p pipe \<times> ('s, 'w) round_world" where
  "pipe_step rb g cfg substrates p w =
     (case pp_phase p of
        Ready \<Rightarrow> ready_step rb g cfg substrates p w
      | Missed pr \<Rightarrow> missed_step cfg (hd (pp_todo p)) pr p w
      | Admitted pr res \<Rightarrow> admitted_step cfg pr res p w
      | Prompted pr res \<Rightarrow> (p\<lparr>pp_phase := Holding pr res\<rparr>, w)
      | Holding pr res \<Rightarrow> (p\<lparr>pp_phase := Calling pr res (lm_monotonic (rc_llm cfg) (ro_llm w))\<rparr>, w)
      | Calling pr res t0 \<Rightarrow> calling_step cfg (hd (pp_todo p)) pr res t0 p w
      | Answered an \<Rightarrow> answered_step cfg an p w
      | Recorded an \<Rightarrow> recorded_step cfg (hd (pp_todo p)) an p w
      | Costed an \<Rightarrow> costed_step cfg an p w
      | Ended e \<Rightarrow> (p, w))"

end
