(* ===== verification/Round_Protocol.thy ===== *)
theory Round_Protocol
  imports Round_Pipeline
begin

text \<open>
  The pipelines of one round under the event loop: any pipeline that is not waiting for a semaphore may
  take its next step. \<open>pipe_trans\<close> is the protocol a single pipeline follows, an abstraction of
  \<open>pipe_step\<close> that forgets the contents of rows and prompts; the invariants of a round are proved on
  it by case analysis and induction over the run.
\<close>

section \<open>The event loop\<close>

record ('p, 's, 'w) round_state =
  rd_pipes :: "'p pipe list"
  rd_world :: "('s, 'w) round_world"

definition in_global :: "'p pipe \<Rightarrow> bool" where
  "in_global p = (case pp_phase p of Holding _ _ \<Rightarrow> True | Calling _ _ _ \<Rightarrow> True | _ \<Rightarrow> False)"

definition calls_op :: "string \<Rightarrow> 'p pipe \<Rightarrow> bool" where
  "calls_op op p = (case pp_phase p of Calling _ _ _ \<Rightarrow> sg_op (hd (pp_todo p)) = op | _ \<Rightarrow> False)"

text \<open>Whether the pipeline's next step may happen now: it waits only for the two semaphores.\<close>

definition enabled :: "('p, 's, 'w) round_config \<Rightarrow> 'p pipe list \<Rightarrow> 'p pipe \<Rightarrow> bool" where
  "enabled cfg pipes p =
     (case pp_phase p of
        Ended _ \<Rightarrow> False
      | Prompted _ _ \<Rightarrow> length (filter in_global pipes) < rc_global_concurrency cfg
      | Holding _ _ \<Rightarrow>
          (case map_of (rc_per_op_concurrency cfg) (sg_op (hd (pp_todo p))) of None \<Rightarrow> True
           | Some n \<Rightarrow> length (filter (calls_op (sg_op (hd (pp_todo p)))) pipes) < n)
      | _ \<Rightarrow> True)"

inductive round_step ::
  "'g randbelow \<Rightarrow> 'g \<Rightarrow> ('p, 's, 'w) round_config \<Rightarrow> (string \<times> string, run_row) dict
     \<Rightarrow> ('p, 's, 'w) round_state \<Rightarrow> ('p, 's, 'w) round_state \<Rightarrow> bool"
  for rb g cfg substrates where
  pipe: "i < length (rd_pipes s) \<Longrightarrow> enabled cfg (rd_pipes s) (rd_pipes s ! i) \<Longrightarrow>
     pipe_step rb g cfg substrates (rd_pipes s ! i) (rd_world s) = (p', w') \<Longrightarrow>
     round_step rb g cfg substrates s \<lparr>rd_pipes = (rd_pipes s)[i := p'], rd_world = w'\<rparr>"

inductive_cases round_stepE: "round_step rb g cfg substrates s s'"

definition round_start :: "'p stage list \<Rightarrow> (string \<times> task_unit) list \<Rightarrow> ('s, 'w) round_world
     \<Rightarrow> ('p, 's, 'w) round_state" where
  "round_start topo pairs w = \<lparr>rd_pipes = map (start_pipe topo) pairs, rd_world = w\<rparr>"

definition ended :: "'p pipe \<Rightarrow> bool" where
  "ended p = (case pp_phase p of Ended _ \<Rightarrow> True | _ \<Rightarrow> False)"

section \<open>The protocol of one pipeline\<close>

text \<open>The answered calls whose row could not be recorded, as the round's notes list them.\<close>

fun persist_failed :: "infra_error \<Rightarrow> bool" where
  "persist_failed (PersistFailed _ _ _ _) = True"
| "persist_failed (PromptFailureNotRecorded _ _ _ _) = False"

definition unrecorded :: "('s, 'w) round_world \<Rightarrow> nat" where
  "unrecorded w = length (filter persist_failed (ro_infra w))"

text \<open>The prompt and reservation a pipeline carries between admission and the end of the call.\<close>

fun carries :: "phase \<Rightarrow> (prompt \<times> real) option" where
  "carries (Admitted pr res) = Some (pr, res)"
| "carries (Prompted pr res) = Some (pr, res)"
| "carries (Holding pr res) = Some (pr, res)"
| "carries (Calling pr res t0) = Some (pr, res)"
| "carries _ = None"

fun rank :: "phase \<Rightarrow> nat" where
  "rank Ready = 9"
| "rank (Missed _) = 8"
| "rank (Admitted _ _) = 7"
| "rank (Prompted _ _) = 6"
| "rank (Holding _ _) = 5"
| "rank (Calling _ _ _) = 4"
| "rank (Answered _) = 3"
| "rank (Recorded _) = 2"
| "rank (Costed _) = 1"
| "rank (Ended _) = 0"

definition same_counters :: "('s, 'w) round_world \<Rightarrow> ('s, 'w) round_world \<Rightarrow> bool" where
  "same_counters w w' \<longleftrightarrow> ro_attempted w' = ro_attempted w \<and> ro_gate w' = ro_gate w \<and> ro_halving w' = ro_halving w
     \<and> unrecorded w \<le> unrecorded w'"

inductive pipe_trans ::
  "'g randbelow \<Rightarrow> 'g \<Rightarrow> ('p, 's, 'w) round_config \<Rightarrow> 'p pipe \<Rightarrow> ('s, 'w) round_world
     \<Rightarrow> 'p pipe \<Rightarrow> ('s, 'w) round_world \<Rightarrow> bool"
  for rb g cfg p w where
  halt: "same_counters w w' \<Longrightarrow> e \<noteq> Aborted \<Longrightarrow> (e = Finished \<longrightarrow> pp_todo p = []) \<Longrightarrow> \<not> ended p \<Longrightarrow>
     pp_phase p = Ready \<or> (\<exists>pr. pp_phase p = Missed pr) \<or> (carries (pp_phase p) \<noteq> None \<and> (\<exists>x. e = Crashed x)) \<Longrightarrow>
     pipe_trans rb g cfg p w (stop_pipe e p) w'"
| skip: "pp_phase p = Ready \<Longrightarrow> pp_todo p \<noteq> [] \<Longrightarrow> same_counters w w1 \<Longrightarrow> next_stage ctx p w1 = (p', w') \<Longrightarrow>
     pipe_trans rb g cfg p w p' w'"
| miss: "pp_phase p = Ready \<Longrightarrow> pp_todo p \<noteq> [] \<Longrightarrow>
     resolve_validator_call_model rb g (rc_candidates cfg) (hv_last_eff_cost (ro_halving w)) (hd (pp_todo p)) (pp_model p)
       = Some (pr_call_model pr) \<Longrightarrow>
     pipe_trans rb g cfg p w (p\<lparr>pp_ctx := ctx, pp_phase := Missed pr\<rparr>) w"
| pass: "pp_phase p = Missed pr \<Longrightarrow> ro_gate w = None \<Longrightarrow> pipe_trans rb g cfg p w (p\<lparr>pp_phase := Admitted pr 0\<rparr>) w"
| admit: "pp_phase p = Missed pr \<Longrightarrow> ro_gate w = Some gt \<Longrightarrow>
     gate_check query (rc_experiment_tag cfg) (sg_op (hd (pp_todo p))) floor_cost gt = Inr (ans, gt') \<Longrightarrow>
     ga_can_proceed ans \<Longrightarrow>
     pipe_trans rb g cfg p w (p\<lparr>pp_phase := Admitted pr (ga_reservation ans)\<rparr>) (w\<lparr>ro_gate := Some gt'\<rparr>)"
| refuse: "pp_phase p = Missed pr \<Longrightarrow> ro_gate w = Some gt \<Longrightarrow>
     gate_check query (rc_experiment_tag cfg) (sg_op (hd (pp_todo p))) floor_cost gt = Inr (ans, gt') \<Longrightarrow>
     \<not> ga_can_proceed ans \<Longrightarrow>
     pipe_trans rb g cfg p w (p\<lparr>pp_todo := tl (pp_todo p), pp_phase := Ready\<rparr>) (w\<lparr>ro_gate := Some gt'\<rparr>)"
| move: "carries (pp_phase p) = Some c \<Longrightarrow> carries ph = Some c \<Longrightarrow> rank (pp_phase p) = Suc (rank ph) \<Longrightarrow>
     same_counters w w' \<Longrightarrow> pipe_trans rb g cfg p w (p\<lparr>pp_phase := ph\<rparr>) w'"
| answer: "pp_phase p = Calling pr res t0 \<Longrightarrow> an_reservation an = res \<Longrightarrow> same_counters w w' \<Longrightarrow>
     pipe_trans rb g cfg p w (p\<lparr>pp_ctx := ctx, pp_phase := Answered an\<rparr>) w'"
| keep: "pp_phase p = Answered an \<Longrightarrow> same_counters w w' \<Longrightarrow> pipe_trans rb g cfg p w (p\<lparr>pp_phase := Recorded an\<rparr>) w'"
| cost: "pp_phase p = Recorded an \<Longrightarrow>
     w' = w\<lparr>ro_gate := map_option (record_cost (rc_experiment_tag cfg) (sg_op (hd (pp_todo p))) c (Some e) (an_reservation an)) (ro_gate w)\<rparr> \<Longrightarrow>
     pipe_trans rb g cfg p w (p\<lparr>pp_phase := Costed an\<rparr>) w'"
| finish: "pp_phase p = Costed an \<or> (pp_phase p = Answered an \<and> unrecorded w1 = Suc (unrecorded w)) \<Longrightarrow>
     same_counters w w1 \<Longrightarrow> finish_call (an_error_class an) p w1 = (p', w') \<Longrightarrow> pipe_trans rb g cfg p w p' w'"

lemma same_counters_refl [simp]: "same_counters w w"
  by (simp add: same_counters_def)

text \<open>Every step of the code is a transition of the protocol.\<close>

lemma ready_step_trans:
  assumes "pp_phase p = Ready" "ready_step rb g cfg substrates p w = (p', w')"
  shows "pipe_trans rb g cfg p w p' w'"
proof -
  have halt': "pipe_trans rb g cfg p w (stop_pipe e p) w" if "e \<noteq> Aborted" "e = Finished \<longrightarrow> pp_todo p = []" for e
    using assms(1) that by (intro halt) (simp_all add: ended_def)
  have skip': "pipe_trans rb g cfg p w q v"
    if "pp_todo p \<noteq> []" "same_counters w w1" "next_stage ctx p w1 = (q, v)" for w1 q v ctx
    using assms(1) that by (rule skip)
  have miss': "pipe_trans rb g cfg p w (p\<lparr>pp_ctx := ctx, pp_phase := Missed pr\<rparr>) w"
    if "pp_todo p = stg # rest" "resolve_validator_call_model rb g (rc_candidates cfg)
      (hv_last_eff_cost (ro_halving w)) stg (pp_model p) = Some (pr_call_model pr)" for stg rest ctx pr
    using assms(1) that by (intro miss) simp_all
  have counters: "same_counters w (w\<lparr>ro_store := s, ro_infra := ro_infra w @ i\<rparr>)" "same_counters w (w\<lparr>ro_store := s\<rparr>)" for s i
    by (simp_all add: same_counters_def unrecorded_def)
  show ?thesis
    using assms(2) [symmetric] unfolding ready_step_def
    by (auto simp: Let_def split: list.splits if_splits sum.splits option.splits prod.splits
        intro: halt' miss' skip' [OF _ same_counters_refl] skip' [OF _ counters(1)] skip' [OF _ counters(2)] dest: sym)
qed

lemma missed_step_trans:
  assumes "pp_phase p = Missed pr" "missed_step cfg (hd (pp_todo p)) pr p w = (p', w')"
  shows "pipe_trans rb g cfg p w p' w'"
proof -
  have halt': "pipe_trans rb g cfg p w (stop_pipe (Crashed e) p) w" for e
    using assms(1) by (intro halt) (simp_all add: ended_def)
  show ?thesis
    using assms(2) [symmetric] unfolding missed_step_def
    by (auto split: option.splits sum.splits prod.splits if_splits
        intro: halt' pass [OF assms(1)] admit [OF assms(1)] refuse [OF assms(1)])
qed

lemma admitted_step_trans:
  assumes "pp_phase p = Admitted pr res" "admitted_step cfg pr res p w = (p', w')"
  shows "pipe_trans rb g cfg p w p' w'"
proof -
  have move': "pipe_trans rb g cfg p w (p\<lparr>pp_phase := Prompted pr res\<rparr>) v" if "same_counters w v" for v
    using assms(1) that by (intro move [of p "(pr, res)"]) simp_all
  have halt': "pipe_trans rb g cfg p w (stop_pipe (Crashed e) p) v" if "same_counters w v" for v e
    using assms(1) that by (intro halt) (simp_all add: ended_def)
  show ?thesis
    using assms(2) [symmetric] unfolding admitted_step_def
    by (auto simp: same_counters_def unrecorded_def Let_def split: if_splits option.splits prod.splits intro!: move' intro: halt')
qed

lemma calling_step_trans:
  assumes "pp_phase p = Calling pr res t0" "calling_step cfg (hd (pp_todo p)) pr res t0 p w = (p', w')"
  shows "pipe_trans rb g cfg p w p' w'"
  using assms(2) [symmetric] unfolding calling_step_def
  by (auto simp: Let_def same_counters_def unrecorded_def split: prod.splits intro!: answer [OF assms(1)])

lemma answered_step_trans:
  assumes "pp_phase p = Answered an" "answered_step cfg an p w = (p', w')"
  shows "pipe_trans rb g cfg p w p' w'"
proof -
  obtain err s where be: "be_record_call (rc_backend cfg) (lm_now (rc_llm cfg) (ro_llm w)) (an_row an) (ro_store w) = (err, s)"
    by fastforce
  show ?thesis
  proof (cases err)
    case None
    with assms(2) be show ?thesis by (auto simp: answered_step_def same_counters_def unrecorded_def intro!: keep [OF assms(1)])
  next
    case (Some e)
    with assms be show ?thesis
      by (intro finish [where an = an and ?w1.0 = "w\<lparr>ro_store := s, ro_infra := ro_infra w @
          [PersistFailed (rr_stage (an_row an)) (pp_model p) (tu_id (pp_unit p)) e]\<rparr>"])
        (simp_all add: answered_step_def same_counters_def unrecorded_def)
  qed
qed

lemma costed_step_trans:
  assumes "pp_phase p = Costed an" "costed_step cfg an p w = (p', w')"
  shows "pipe_trans rb g cfg p w p' w'"
  using assms unfolding costed_step_def
  by (intro finish [of p an]) (auto simp: same_counters_def unrecorded_def split: option.split)

lemma pipe_step_trans:
  assumes "pipe_step rb g cfg substrates p w = (p', w')" "\<not> ended p"
  shows "pipe_trans rb g cfg p w p' w'"
proof (cases "pp_phase p")
  case (Prompted pr res)
  then have "pipe_trans rb g cfg p w (p\<lparr>pp_phase := Holding pr res\<rparr>) w" by (intro move [of p "(pr, res)"]) simp_all
  with Prompted assms(1) show ?thesis by (simp add: pipe_step_def)
next
  case (Holding pr res)
  then have "pipe_trans rb g cfg p w (p\<lparr>pp_phase := Calling pr res t\<rparr>) w" for t
    by (intro move [of p "(pr, res)"]) simp_all
  with Holding assms(1) [symmetric] show ?thesis by (simp add: pipe_step_def)
next
  case (Recorded an)
  with assms(1) show ?thesis by (auto simp: pipe_step_def recorded_step_def intro!: cost)
qed (use assms in \<open>auto simp: pipe_step_def ended_def intro: ready_step_trans missed_step_trans admitted_step_trans
    calling_step_trans answered_step_trans costed_step_trans\<close>)

section \<open>Runs\<close>

inductive_cases pipe_transE: "pipe_trans rb g cfg p w p' w'"

text \<open>A pipeline in the middle of a stage has a stage to work on.\<close>

definition well_placed :: "'p pipe \<Rightarrow> bool" where
  "well_placed p \<longleftrightarrow> pp_phase p = Ready \<or> ended p \<or> pp_todo p \<noteq> []"

lemma next_stage_fields:
  assumes "next_stage ctx p w = (p', w')"
  shows "pp_model p' = pp_model p" "pp_unit p' = pp_unit p" "pp_todo p' = tl (pp_todo p)" "pp_errors p' = pp_errors p"
    "pp_phase p' = Ready" "ro_attempted w' = count_attempt (pp_model p) (ro_attempted w)" "ro_gate w' = ro_gate w"
    "ro_halving w' = ro_halving w"
  using assms by (auto simp: next_stage_def)

lemma finish_call_fields:
  assumes "finish_call err p w = (p', w')"
  shows "pp_model p' = pp_model p" "pp_unit p' = pp_unit p" "pp_todo p' = tl (pp_todo p)"
    "ro_attempted w' = count_attempt (pp_model p) (ro_attempted w)" "ro_gate w' = ro_gate w"
    "pp_errors p' = (if truthy err \<and> the err \<in> set DEAD_ERROR_CLASSES then Suc (pp_errors p) else pp_errors p)"
    "pp_phase p' = (if truthy err \<and> the err \<in> set DEAD_ERROR_CLASSES \<and> 3 \<le> Suc (pp_errors p) then Ended Aborted else Ready)"
    "ro_halving w' = (if truthy err then (ro_halving w)\<lparr>hv_error_history :=
        dappend (pp_model p) (the err) (hv_error_history (ro_halving w))\<rparr> else ro_halving w)"
  using assms by (auto simp: finish_call_def next_stage_def update_error_history_def Let_def split: if_splits)

lemma pipe_trans_well_placed: "pipe_trans rb g cfg p w p' w' \<Longrightarrow> well_placed p \<Longrightarrow> well_placed p'"
proof (induction rule: pipe_trans.cases)
  case (skip w1 ctx p' w')
  then show ?case by (simp add: well_placed_def next_stage_fields)
next
  case (finish an w1 p' w')
  then show ?case by (simp add: well_placed_def ended_def finish_call_fields)
next
  case (move c ph w')
  then show ?case by (cases ph; cases "pp_phase p") (auto simp: well_placed_def ended_def)
qed (auto simp: well_placed_def ended_def stop_pipe_def)

lemma round_step_trans:
  assumes "round_step rb g cfg substrates s s'"
  obtains i p' w' where "i < length (rd_pipes s)" "enabled cfg (rd_pipes s) (rd_pipes s ! i)"
    "\<not> ended (rd_pipes s ! i)"
    "pipe_step rb g cfg substrates (rd_pipes s ! i) (rd_world s) = (p', w')"
    "pipe_trans rb g cfg (rd_pipes s ! i) (rd_world s) p' w'"
    "s' = \<lparr>rd_pipes = (rd_pipes s)[i := p'], rd_world = w'\<rparr>"
  using assms
proof (cases rule: round_step.cases)
  case (pipe i p' w')
  have ne: "\<not> ended (rd_pipes s ! i)"
    using pipe(3) by (auto simp: enabled_def ended_def split: phase.splits)
  show ?thesis by (rule that [OF pipe(2,3) ne pipe(4) pipe_step_trans [OF pipe(4) ne] pipe(1)])
qed

end
