(* ===== verification/Round_Invariants.thy ===== *)
theory Round_Invariants
  imports Round_Protocol
begin

text \<open>
  What holds in every state a round can reach, however the event loop schedules its pipelines: facts of
  single pipelines (the locale \<open>pipe_invariant\<close>), counts over all of them, the use of the budget gate,
  and that every round comes to its end.
\<close>

section \<open>Invariants of a pipeline\<close>

locale pipe_invariant =
  fixes P :: "('p, 's, 'w) round_config \<Rightarrow> 'p pipe \<Rightarrow> bool" and topo :: "'p stage list"
  assumes holds_at_start: "P cfg (start_pipe topo mt)"
    and kept: "rng_ok rb \<Longrightarrow> pipe_trans (rb :: 'g randbelow) g cfg p w p' w' \<Longrightarrow> P cfg p \<Longrightarrow> P cfg p'"
begin

lemma kept_by_round:
  fixes rb :: "'g randbelow"
  assumes "rng_ok rb" "round_step rb g cfg substrates s s'" "\<forall>p\<in>set (rd_pipes s). P cfg p"
  shows "\<forall>p\<in>set (rd_pipes s'). P cfg p"
  using assms(2,3)
proof (elim round_step_trans)
  fix i p' w'
  assume P: "\<forall>p\<in>set (rd_pipes s). P cfg p" and i: "i < length (rd_pipes s)"
    and tr: "pipe_trans rb g cfg (rd_pipes s ! i) (rd_world s) p' w'"
    and s': "s' = \<lparr>rd_pipes = (rd_pipes s)[i := p'], rd_world = w'\<rparr>"
  from P i have "P cfg (rd_pipes s ! i)" by simp
  with assms(1) tr have "P cfg p'" by (rule kept)
  with P show "\<forall>p\<in>set (rd_pipes s'). P cfg p"
    using set_update_subset_insert [of "rd_pipes s" i p'] by (auto simp: s')
qed

lemma holds_in_round:
  fixes rb :: "'g randbelow"
  assumes "rng_ok rb" "(round_step rb g cfg substrates)\<^sup>*\<^sup>* (round_start topo pairs w) s" "p \<in> set (rd_pipes s)"
  shows "P cfg p"
proof -
  from assms(2) have "\<forall>p\<in>set (rd_pipes s). P cfg p"
  proof (induction rule: rtranclp_induct)
    case base
    show ?case by (auto simp: round_start_def intro: holds_at_start)
  next
    case (step s s')
    from assms(1) step(2,3) show ?case by (rule kept_by_round)
  qed
  with assms(3) show ?thesis by blast
qed

end

interpretation placed: pipe_invariant "\<lambda>_. well_placed" topo for topo
  by unfold_locales (simp add: well_placed_def start_pipe_def case_prod_beta, erule (1) pipe_trans_well_placed)

text \<open>Three strikes.\<close>

definition strikes_ok :: "'p pipe \<Rightarrow> bool" where
  "strikes_ok p \<longleftrightarrow> pp_errors p \<le> 3 \<and> (pp_errors p = 3 \<longleftrightarrow> pp_phase p = Ended Aborted)"

lemma strikes_kept: "pipe_trans rb g cfg p w p' w' \<Longrightarrow> strikes_ok p \<Longrightarrow> strikes_ok p'"
proof (induction rule: pipe_trans.cases)
  case (halt w' e)
  then show ?case by (auto simp: strikes_ok_def stop_pipe_def ended_def)
next
  case (skip w1 ctx p' w')
  then show ?case by (auto simp: strikes_ok_def next_stage_fields)
next
  case (finish an w1 p' w')
  note f = finish_call_fields [OF finish(5)]
  have "pp_errors p < 3" using finish by (auto simp: strikes_ok_def)
  then show ?case unfolding strikes_ok_def finish(1,2) f by (auto split: if_splits)
next
  case (move c ph w')
  then show ?case by (cases ph) (auto simp: strikes_ok_def)
qed (auto simp: strikes_ok_def)

interpretation strikes: pipe_invariant "\<lambda>_. strikes_ok" topo for topo
  by unfold_locales (simp add: strikes_ok_def start_pipe_def case_prod_beta, erule (1) strikes_kept)

text \<open>The prompt a pipeline works on names a model other than its own in a validator stage.\<close>

fun prompt_of :: "phase \<Rightarrow> prompt option" where
  "prompt_of (Missed pr) = Some pr"
| "prompt_of ph = map_option fst (carries ph)"

definition judged_by_other :: "('p, 's, 'w) round_config \<Rightarrow> 'p pipe \<Rightarrow> bool" where
  "judged_by_other cfg p \<longleftrightarrow> (case prompt_of (pp_phase p) of None \<Rightarrow> True
     | Some pr \<Rightarrow> if sg_is_validator (hd (pp_todo p))
         then pr_call_model pr \<noteq> pp_model p \<and> pr_call_model pr \<in> set (rc_candidates cfg)
         else pr_call_model pr = pp_model p)"

lemma select_validator_other:
  assumes "rng_ok rb" "select_validator_for_producer rb g m pool ec = Some v"
  shows "v \<noteq> m \<and> v \<in> set pool"
proof -
  let ?el = "filter (\<lambda>x. x \<noteq> m) pool"
  have "fst (shuffle_list rb g ?el) \<noteq> []" if "?el \<noteq> []"
    using set_shuffle_list [OF assms(1), of g ?el] that by (metis set_empty)
  then have "v \<in> set (fst (shuffle_list rb g ?el))"
    using assms(2) by (auto simp: select_validator_for_producer_def Let_def split: if_splits intro: hd_sort_key_in)
  then show ?thesis using assms(1) by simp
qed

lemma resolved_other:
  assumes "rng_ok rb" "resolve_validator_call_model rb g cands ec stg m = Some v"
  shows "if sg_is_validator stg then v \<noteq> m \<and> v \<in> set cands else v = m"
  using assms select_validator_other [OF assms(1), of g m cands ec v]
  by (auto simp: resolve_validator_call_model_def split: if_splits)

lemma judged_kept:
  assumes "rng_ok rb"
  shows "pipe_trans rb g cfg p w p' w' \<Longrightarrow> judged_by_other cfg p \<Longrightarrow> judged_by_other cfg p'"
proof (induction rule: pipe_trans.cases)
  case (miss pr ctx)
  then show ?case using resolved_other [OF assms miss(5)] by (simp add: judged_by_other_def)
next
  case (move c ph w')
  then have "prompt_of ph = prompt_of (pp_phase p)" by (cases ph; cases "pp_phase p") auto
  with move show ?case by (auto simp: judged_by_other_def split: option.splits)
next
  case (halt w' e)
  then show ?case by (simp add: judged_by_other_def stop_pipe_def)
next
  case (skip w1 ctx p' w')
  then show ?case by (simp add: judged_by_other_def next_stage_fields)
next
  case (finish an w1 p' w')
  then show ?case by (simp add: judged_by_other_def finish_call_fields)
qed (simp_all add: judged_by_other_def)

interpretation judged: pipe_invariant judged_by_other topo for topo
  by unfold_locales (simp add: judged_by_other_def start_pipe_def case_prod_beta, erule (2) judged_kept)

section \<open>Sums over the pipelines\<close>

lemma sum_list_replace:
  fixes f :: "'a \<Rightarrow> 'b::comm_monoid_add"
  assumes "i < length xs"
  shows "sum_list (map f (xs[i := y])) + f (xs ! i) = sum_list (map f xs) + f y"
  using assms
proof (induction xs arbitrary: i)
  case (Cons x xs)
  show ?case
  proof (cases i)
    case 0
    then show ?thesis by (simp add: ac_simps)
  next
    case (Suc j)
    with Cons show ?thesis by (simp add: add.assoc)
  qed
qed simp

lemma length_filter_sum: "length (filter P xs) = sum_list (map (\<lambda>x. if P x then 1 else 0) xs)"
  by (induction xs) simp_all

lemma length_filter_replace:
  assumes "i < length xs"
  shows "length (filter P (xs[i := y])) + (if P (xs ! i) then 1 else 0) = length (filter P xs) + (if P y then 1 else (0::nat))"
  unfolding length_filter_sum using sum_list_replace [OF assms, of "\<lambda>x. if P x then 1 else (0::nat)"] by simp

text \<open>How many stages the pipelines of a model have left.\<close>

definition left_of :: "string \<Rightarrow> 'p pipe \<Rightarrow> nat" where
  "left_of m p = (if pp_model p = m then length (pp_todo p) else 0)"

lemma attempts_step:
  assumes "pipe_trans rb g cfg p w p' w'" "well_placed p"
  shows "dget (ro_attempted w') m 0 + left_of m p' \<le> dget (ro_attempted w) m 0 + left_of m p
    \<and> (ro_gate w = None \<longrightarrow> ro_gate w' = None
        \<and> dget (ro_attempted w') m 0 + left_of m p' = dget (ro_attempted w) m 0 + left_of m p)"
proof -
  have count: "dget (count_attempt n d) m 0 = (if n = m then Suc (dget d m 0) else dget d m 0)" for n d
    by (simp add: count_attempt_def dget_dset)
  show ?thesis using assms
  proof (induction rule: pipe_trans.cases)
    case (skip w1 ctx p' w')
    then show ?case
      by (cases "pp_todo p") (auto simp: next_stage_fields left_of_def same_counters_def count)
  next
    case (finish an w1 p' w')
    then have "pp_todo p \<noteq> []" by (auto simp: well_placed_def ended_def)
    with finish show ?case
      by (cases "pp_todo p") (auto simp: finish_call_fields left_of_def same_counters_def count)
  next
    case (halt w' e)
    then show ?case by (simp add: left_of_def stop_pipe_def same_counters_def)
  qed (auto simp: left_of_def same_counters_def)
qed

end
