(* ===== verification/Round_Properties.thy ===== *)
theory Round_Properties
  imports Round_Invariants
begin

text \<open>
  The properties of a round under every schedule of its pipelines: it ends and never deadlocks, the
  semaphores bound the calls in flight, no model judges its own output, three dead errors abort and
  every stage is counted.
\<close>

section \<open>A small round to run\<close>

definition demo_stage :: "string \<Rightarrow> bool \<Rightarrow> unit stage" where
  "demo_stage sid validator = \<lparr>sg_id = sid, sg_op = sid, sg_prompt_builder = (\<lambda>_ _ _. Inr (Some (''sys'', ''usr''))),
     sg_parser = (\<lambda>_ _ _ _. Inr (Some ())), sg_parent_stage = None, sg_is_validator = validator, sg_lang = None,
     sg_budget_per_call = 1, sg_json_schema = None, sg_generate_kwargs = []\<rparr>"

definition demo_backend :: "py_error option \<Rightarrow> unit backend" where
  "demo_backend fails = \<lparr>be_upsert_prompts = (\<lambda>_ _ s. (None, s)), be_record_call = (\<lambda>_ _ s. (fails, s)),
     be_spend_by_op = (\<lambda>_ _. Inr []), be_query_rows = (\<lambda>_ _ _. Inr []),
     be_load_winners = (\<lambda>_ _ _. Inr None), be_persist_winners = (\<lambda>_ _ _ s. (None, s))\<rparr>"

definition demo_llm :: "unit llm" where
  "demo_llm = \<lparr>lm_make = (\<lambda>_ w. (None, w)), lm_max_output_tokens = (\<lambda>_ _. None),
     lm_generate = (\<lambda>_ _ _ _ w. (Inr (Some (replicate 20 (CHR ''x''))), w)), lm_attrs = (\<lambda>_ _. no_telemetry),
     lm_summary = (\<lambda>_ _. NoSummary), lm_monotonic = (\<lambda>_. 0), lm_now = (\<lambda>_. 0)\<rparr>"

definition demo_config :: "unit stage \<Rightarrow> py_error option \<Rightarrow> (unit, unit, unit) round_config" where
  "demo_config stg fails = \<lparr>rc_experiment_tag = ''t'', rc_round_idx = 1, rc_candidates = [''a'', ''b'', ''c''],
     rc_task_units = [], rc_stages = [stg], rc_schedule = default_schedule, rc_backend = demo_backend fails,
     rc_llm = demo_llm, rc_gold_checker = None, rc_row_scorer = None, rc_global_concurrency = 1,
     rc_per_op_concurrency = [(sg_op stg, 1)], rc_custom_factory = True, rc_thinking = [],
     rc_provider_label = ''p'', rc_provider_kwargs = [], rc_quarantine_duration_sec = 300,
     rc_quarantine_cost_multiplier = 10, rc_sha256 = (\<lambda>_. ''h''), rc_json_dumps = (\<lambda>_. [])\<rparr>"

definition demo_unit :: task_unit where
  "demo_unit = \<lparr>tu_id = ''u'', tu_metadata = [], tu_stratum = None\<rparr>"

definition demo_world :: "budget_gate option \<Rightarrow> (unit, unit) round_world" where
  "demo_world gt = \<lparr>ro_store = (), ro_llm = (), ro_cache = [], ro_gate = gt,
     ro_halving = \<lparr>hv_schedule = default_schedule, hv_survivors_by_round = [], hv_error_history = [],
       hv_last_eff_cost = [], hv_last_score_bonus = []\<rparr>,
     ro_attempted = [], ro_seen = {}, ro_infra = []\<rparr>"

text \<open>\<open>n\<close> steps of the first pipeline.\<close>

fun drive :: "nat \<Rightarrow> 'g randbelow \<Rightarrow> 'g \<Rightarrow> ('p, 's, 'w) round_config \<Rightarrow> (string \<times> string, run_row) dict
    \<Rightarrow> ('p, 's, 'w) round_state \<Rightarrow> ('p, 's, 'w) round_state" where
  "drive 0 rb g cfg sb s = s"
| "drive (Suc n) rb g cfg sb s =
     (if rd_pipes s \<noteq> [] \<and> enabled cfg (rd_pipes s) (hd (rd_pipes s))
      then (case pipe_step rb g cfg sb (hd (rd_pipes s)) (rd_world s) of
              (p', w') \<Rightarrow> drive n rb g cfg sb \<lparr>rd_pipes = p' # tl (rd_pipes s), rd_world = w'\<rparr>)
      else s)"

lemma drive_reachable: "(round_step rb g cfg sb)\<^sup>*\<^sup>* s (drive n rb g cfg sb s)"
proof (induction n arbitrary: s)
  case (Suc n)
  show ?case
  proof (cases "rd_pipes s \<noteq> [] \<and> enabled cfg (rd_pipes s) (hd (rd_pipes s))")
    case True
    obtain p' w' where st: "pipe_step rb g cfg sb (hd (rd_pipes s)) (rd_world s) = (p', w')" by fastforce
    obtain p ps where ps: "rd_pipes s = p # ps" using True by (cases "rd_pipes s") auto
    have "round_step rb g cfg sb s \<lparr>rd_pipes = p' # tl (rd_pipes s), rd_world = w'\<rparr>"
      using round_step.pipe [of 0 s cfg rb g sb p' w'] True st by (simp add: ps)
    then show ?thesis using Suc.IH True st by (simp add: converse_rtranclp_into_rtranclp)
  next
    case False
    then have "drive (Suc n) rb g cfg sb s = s" by auto
    then show ?thesis by simp
  qed
qed simp

lemmas step_simps = enabled_def pipe_step_def ready_step_def missed_step_def admitted_step_def calling_step_def
  answered_step_def recorded_step_def costed_step_def next_stage_def finish_call_def update_error_history_def
  stop_pipe_def apply_winner_substrate_def resolve_validator_call_model_def classify_call_outcome_def
  maybe_quarantine_def over_budget_def set_output_def str_or_empty_def count_attempt_def
  in_global_def calls_op_def ended_def

lemmas demo_simps = demo_config_def demo_stage_def demo_backend_def demo_llm_def demo_world_def demo_unit_def
  round_start_def start_pipe_def new_context_def

lemma demo_hashes: "prompt_hashes (\<lambda>_. ''h'') ''sys'' ''usr'' = Inr (''h'', ''h'', ''h'')"
  by (simp add: prompt_hashes_def composite_hash_def composite_preimage_def to_bytes_big_def hash_text_def
      utf8_def utf8_char_def)

lemma demo_kwargs: "stage_generate_kwargs (demo_stage sid v) m a b = []"
  by (simp add: stage_generate_kwargs_def demo_stage_def dupdate_def)

lemma demo_call:
  "call_llm_guarded demo_llm m a b [] 0 () =
     (\<lparr>co_response = Some (replicate 20 (CHR ''x'')), co_telemetry = no_telemetry, co_duration = 0,
       co_error_class = None, co_error_message = None\<rparr>, ())"
  by (simp add: call_llm_guarded_def call_llm_def demo_llm_def harvest_telemetry_def no_telemetry_def)

lemma demo_selectors:
  "sg_id (demo_stage sid v) = sid" "sg_op (demo_stage sid v) = sid" "sg_parent_stage (demo_stage sid v) = None"
  "sg_is_validator (demo_stage sid v) = v" "sg_lang (demo_stage sid v) = None"
  "sg_budget_per_call (demo_stage sid v) = 1"
  "build_prompt (demo_stage sid v) tu ctx = Inr (''sys'', ''usr'')"
  "parse_safely (demo_stage sid v) tu (Some r) a b = Some ()"
  "be_upsert_prompts (demo_backend fails) x y u = (None, u)" "be_record_call (demo_backend fails) n row u = (fails, u)"
  "be_spend_by_op (demo_backend fails) u = (\<lambda>_. Inr [])" "lm_monotonic demo_llm u' = 0" "lm_now demo_llm u' = 0"
  by (simp_all add: demo_stage_def demo_backend_def demo_llm_def build_prompt_def parse_safely_def)

lemmas drive_simps = numeral_eq_Suc round_start_def start_pipe_def new_context_def demo_config_def demo_world_def
  step_simps Let_def demo_hashes demo_call demo_kwargs demo_selectors resume_get_def

abbreviation demo_start :: "bool \<Rightarrow> budget_gate option \<Rightarrow> (unit, unit, unit) round_state" where
  "demo_start v gt \<equiv> round_start [demo_stage ''s'' v] [(''a'', demo_unit)] (demo_world gt)"

abbreviation demo_state :: "bool \<Rightarrow> nat \<Rightarrow> (unit, unit, unit) round_state" where
  "demo_state v n \<equiv> drive n counter_rng 0 (demo_config (demo_stage ''s'' v) None) [] (demo_start v None)"

abbreviation demo_step :: "bool \<Rightarrow> (unit, unit, unit) round_state \<Rightarrow> (unit, unit, unit) round_state \<Rightarrow> bool" where
  "demo_step v \<equiv> round_step counter_rng 0 (demo_config (demo_stage ''s'' v) None) []"

text \<open>The small round: its call is in flight after five steps, and over, counted and cached after ten.\<close>

lemma demo_runs:
  "map pp_phase (rd_pipes (demo_state False 10)) = [Ended Finished]"
  "ro_attempted (rd_world (demo_state False 10)) = [(''a'', 1)]"
  "map fst (ro_cache (rd_world (demo_state False 10))) = [(''h'', ''p'', ''a'', [])]"
  "map in_global (rd_pipes (demo_state False 5)) = [True]"
  by (simp_all add: drive_simps no_telemetry_def resume_put_def cache_entry_def call_row_def row_provider_def
      provider_identity_def make_cache_key_def)

lemma demo_reachable: "(demo_step v)\<^sup>*\<^sup>* (demo_start v None) (demo_state v n)"
  by (rule drive_reachable)

section \<open>The end of a round\<close>

definition weight :: "'p pipe \<Rightarrow> nat" where
  "weight p = (if ended p then 0 else 10 * length (pp_todo p) + rank (pp_phase p))"

lemma rank_pos: "\<not> ended p \<Longrightarrow> 0 < rank (pp_phase p)"
  by (auto simp: ended_def split: phase.splits)

lemma rank_le: "rank ph \<le> 9"
  by (cases ph) auto

lemma weight_decreases:
  assumes "pipe_trans rb g cfg p w p' w'" "well_placed p" "\<not> ended p"
  shows "weight p' < weight p"
  using assms
proof (induction rule: pipe_trans.cases)
  case (halt w' e)
  then show ?case using rank_pos [of p] by (simp add: weight_def stop_pipe_def ended_def)
next
  case (skip w1 ctx p' w')
  then show ?case by (cases "pp_todo p") (auto simp: weight_def ended_def next_stage_fields)
next
  case (finish an w1 p' w')
  then have "pp_todo p \<noteq> []" "0 < rank (pp_phase p)" by (auto simp: well_placed_def ended_def)
  with finish show ?case by (cases "pp_todo p") (auto simp: weight_def ended_def finish_call_fields)
next
  case (refuse pr gt query floor_cost ans gt')
  then have "pp_todo p \<noteq> []" by (auto simp: well_placed_def ended_def)
  with refuse show ?case by (cases "pp_todo p") (auto simp: weight_def ended_def)
next
  case (move c ph w')
  then show ?case by (cases ph) (auto simp: weight_def ended_def)
qed (auto simp: weight_def ended_def)

definition round_weight :: "('p, 's, 'w) round_state \<Rightarrow> nat" where
  "round_weight s = sum_list (map weight (rd_pipes s))"

lemma round_weight_decreases:
  assumes "round_step rb g cfg sb s s'" "\<forall>p\<in>set (rd_pipes s). well_placed p"
  shows "round_weight s' < round_weight s"
  using assms(1)
proof (elim round_step_trans)
  fix i p' w'
  assume i: "i < length (rd_pipes s)" "\<not> ended (rd_pipes s ! i)"
    "pipe_trans rb g cfg (rd_pipes s ! i) (rd_world s) p' w'"
    and s': "s' = \<lparr>rd_pipes = (rd_pipes s)[i := p'], rd_world = w'\<rparr>"
  from i(1) assms(2) have "well_placed (rd_pipes s ! i)" by simp
  with i have "weight p' < weight (rd_pipes s ! i)" by (blast intro: weight_decreases)
  with sum_list_replace [OF i(1), of weight p'] show ?thesis by (simp add: round_weight_def s')
qed

lemma all_ended_or_step:
  assumes "0 < rc_global_concurrency cfg" "\<forall>(op, n)\<in>set (rc_per_op_concurrency cfg). 0 < n"
    "p \<in> set (rd_pipes s)" "\<not> ended p"
  shows "\<exists>s'. round_step rb g cfg sb s s'"
proof -
  have step: "\<exists>s'. round_step rb g cfg sb s s'" if q: "q \<in> set (rd_pipes s)" "enabled cfg (rd_pipes s) q" for q
  proof -
    obtain i where "i < length (rd_pipes s)" "rd_pipes s ! i = q" using q(1) by (auto simp: in_set_conv_nth)
    moreover obtain p' w' where "pipe_step rb g cfg sb q (rd_world s) = (p', w')" by fastforce
    ultimately show ?thesis using q(2) by (blast intro: round_step.pipe)
  qed
  have none: "length (filter P (rd_pipes s)) = 0" if "\<forall>q\<in>set (rd_pipes s). \<not> P q" for P
    using that by (simp add: filter_empty_conv)
  show ?thesis
  proof (rule ccontr)
    assume stuck: "\<nexists>s'. round_step rb g cfg sb s s'"
    then have off: "\<not> enabled cfg (rd_pipes s) q" if "q \<in> set (rd_pipes s)" for q using that step by blast
    have "\<not> calls_op op q" if "q \<in> set (rd_pipes s)" for op q
      using off [OF that] by (auto simp: enabled_def calls_op_def split: phase.splits)
    then have calls: "length (filter (calls_op op) (rd_pipes s)) = 0" for op by (intro none) blast
    have hold: "\<not> in_global q" if "q \<in> set (rd_pipes s)" for q
      using off [OF that] assms(2) calls
      by (force simp: enabled_def in_global_def split: phase.splits option.splits dest: map_of_SomeD)
    then have glob: "length (filter in_global (rd_pipes s)) = 0" by (intro none) blast
    show False
      using off [OF assms(3)] hold [OF assms(3)] assms(1,4) glob
      by (auto simp: enabled_def in_global_def ended_def split: phase.splits)
  qed
qed

text \<open>
  C8: Every round ends. Whatever the schedule, the storage and the provider do, a round of \<open>n\<close>
  pipelines over \<open>k\<close> stages makes at most \<open>n * (10 k + 9)\<close> steps; and it is never stuck: as long as
  the semaphores admit at least one call each, a state without a next step is one in which every
  pipeline has ended.
\<close>

theorem round_ends:
  assumes "rng_ok rb" "(round_step rb g cfg sb ^^ n) (round_start topo pairs w) s"
  shows "n \<le> length pairs * (10 * length topo + 9)
    \<and> (0 < rc_global_concurrency cfg \<longrightarrow> (\<forall>(op, c)\<in>set (rc_per_op_concurrency cfg). 0 < c) \<longrightarrow>
        (\<nexists>s'. round_step rb g cfg sb s s') \<longrightarrow> (\<forall>p\<in>set (rd_pipes s). ended p))"
proof -
  have start: "round_weight (round_start topo pairs w) = length pairs * (10 * length topo + 9)"
    by (induction pairs) (auto simp: round_weight_def round_start_def start_pipe_def weight_def ended_def)
  have "round_weight s + n \<le> length pairs * (10 * length topo + 9)"
    using assms(2)
  proof (induction n arbitrary: s)
    case 0
    then show ?case using start by auto
  next
    case (Suc n)
    then obtain t where t: "(round_step rb g cfg sb ^^ n) (round_start topo pairs w) t" "round_step rb g cfg sb t s"
      by auto
    have "\<forall>p\<in>set (rd_pipes t). well_placed p"
      using placed.holds_in_round [OF assms(1) relpowp_imp_rtranclp [OF t(1)]] by blast
    with t(2) have "round_weight s < round_weight t" by (rule round_weight_decreases)
    with Suc.IH [OF t(1)] show ?case by simp
  qed
  moreover have "ended p" if "0 < rc_global_concurrency cfg" "\<forall>(op, c)\<in>set (rc_per_op_concurrency cfg). 0 < c"
    "\<nexists>s'. round_step rb g cfg sb s s'" "p \<in> set (rd_pipes s)" for p
    using all_ended_or_step [OF that(1,2,4), where rb = rb and g = g and sb = sb] that(3) by blast
  ultimately show ?thesis by auto
qed

corollary round_ends_witness:
  "\<exists>n s. (demo_step False ^^ n) (demo_start False None) s \<and> map pp_phase (rd_pipes s) = [Ended Finished] \<and> n \<le> 19"
proof -
  obtain n where n: "(demo_step False ^^ n) (demo_start False None) (demo_state False 10)"
    using rtranclp_imp_relpowp [OF demo_reachable [where v = False and n = 10]] by blast
  have "n \<le> 19" using round_ends [OF counter_rng_ok n] by simp
  with n demo_runs(1) show ?thesis by (intro exI conjI)
qed

section \<open>Calls in flight\<close>

lemma in_flight_step:
  assumes "pipe_trans rb g cfg p w p' w'"
  shows "in_global p' \<Longrightarrow> in_global p \<or> (\<exists>pr res. pp_phase p = Prompted pr res)"
    and "calls_op op p' \<Longrightarrow> (\<exists>pr res. pp_phase p = Holding pr res) \<and> sg_op (hd (pp_todo p)) = op"
  using assms
proof (atomize (full), induction rule: pipe_trans.cases)
  case (move c ph w')
  then show ?case by (cases ph; cases "pp_phase p") (auto simp: in_global_def calls_op_def)
next
  case (halt w' e)
  then show ?case by (simp add: in_global_def calls_op_def stop_pipe_def)
next
  case (skip w1 ctx p' w')
  then show ?case by (simp add: in_global_def calls_op_def next_stage_fields)
next
  case (finish an w1 p' w')
  then show ?case by (simp add: in_global_def calls_op_def finish_call_fields)
qed (auto simp: in_global_def calls_op_def)

definition semaphores_ok :: "('p, 's, 'w) round_config \<Rightarrow> 'p pipe list \<Rightarrow> bool" where
  "semaphores_ok cfg pipes \<longleftrightarrow> length (filter in_global pipes) \<le> rc_global_concurrency cfg
     \<and> (\<forall>op n. map_of (rc_per_op_concurrency cfg) op = Some n \<longrightarrow> length (filter (calls_op op) pipes) \<le> n)"

lemma semaphores_kept:
  assumes "round_step rb g cfg sb s s'" "semaphores_ok cfg (rd_pipes s)"
  shows "semaphores_ok cfg (rd_pipes s')"
  using assms(1)
proof (elim round_step_trans)
  fix i p' w'
  assume i: "i < length (rd_pipes s)" and en: "enabled cfg (rd_pipes s) (rd_pipes s ! i)"
    and tr: "pipe_trans rb g cfg (rd_pipes s ! i) (rd_world s) p' w'"
    and s': "s' = \<lparr>rd_pipes = (rd_pipes s)[i := p'], rd_world = w'\<rparr>"
  note fl = in_flight_step [OF tr]
  have "length (filter in_global (rd_pipes s')) \<le> rc_global_concurrency cfg"
    using length_filter_replace [OF i, of in_global p'] assms(2) en fl(1)
    by (auto simp: s' semaphores_ok_def enabled_def split: if_splits)
  moreover have "length (filter (calls_op op) (rd_pipes s')) \<le> n"
    if "map_of (rc_per_op_concurrency cfg) op = Some n" for op n
    using length_filter_replace [OF i, of "calls_op op" p'] assms(2) en fl(2) [of op] that
    by (auto simp: s' semaphores_ok_def enabled_def split: if_splits) fastforce?
  ultimately show ?thesis by (simp add: semaphores_ok_def)
qed

text \<open>
  C18: At every moment at most \<open>global_concurrency\<close> pipelines are between taking the global semaphore
  and the end of their provider call, and at most \<open>n\<close> of them are calling for an op whose limit is \<open>n\<close>.
\<close>

theorem calls_in_flight_bounded:
  assumes "(round_step rb g cfg sb)\<^sup>*\<^sup>* (round_start topo pairs w) s"
  shows "length (filter in_global (rd_pipes s)) \<le> rc_global_concurrency cfg
    \<and> (\<forall>op n. map_of (rc_per_op_concurrency cfg) op = Some n \<longrightarrow> length (filter (calls_op op) (rd_pipes s)) \<le> n)"
proof -
  have "semaphores_ok cfg (rd_pipes s)" using assms
  proof (induction rule: rtranclp_induct)
    case base
    have "filter P (map (start_pipe topo) pairs) = []" if "\<And>x. \<not> P (start_pipe topo x)" for P
      using that by (simp add: filter_empty_conv)
    then show ?case by (simp add: semaphores_ok_def round_start_def in_global_def calls_op_def start_pipe_def case_prod_beta)
  next
    case (step s t)
    from step(2,3) show ?case by (rule semaphores_kept)
  qed
  then show ?thesis unfolding semaphores_ok_def .
qed

corollary calls_in_flight_bounded_witness:
  "length (filter in_global (rd_pipes (demo_state False 5))) \<le> rc_global_concurrency (demo_config (demo_stage ''s'' False) None)
    \<and> map in_global (rd_pipes (demo_state False 5)) = [True]"
  using calls_in_flight_bounded [OF demo_reachable [where v = False and n = 5]] demo_runs(4) by blast

section \<open>Validators and strikes\<close>

text \<open>
  C19: No model judges its own output. Whenever a pipeline of a round holds a prompt for a validator
  stage, from the cache miss to the end of the call, the model to be called is a candidate of the
  round other than the model being judged; for any other stage it is that model itself.
\<close>

theorem validator_is_another_candidate:
  assumes "rng_ok rb" "(round_step rb g cfg sb)\<^sup>*\<^sup>* (round_start topo pairs w) s"
    and "p \<in> set (rd_pipes s)" "prompt_of (pp_phase p) = Some pr"
  shows "if sg_is_validator (hd (pp_todo p))
    then pr_call_model pr \<noteq> pp_model p \<and> pr_call_model pr \<in> set (rc_candidates cfg)
    else pr_call_model pr = pp_model p"
  using judged.holds_in_round [OF assms(1-3)] assms(4) by (simp add: judged_by_other_def)

corollary validator_is_another_candidate_witness:
  "\<exists>pr. map (prompt_of \<circ> pp_phase) (rd_pipes (demo_state True 1)) = [Some pr] \<and> pr_call_model pr \<in> {''b'', ''c''}"
proof -
  have other: "select_validator_for_producer counter_rng 0 ''a'' [''a'', ''b'', ''c''] [] \<noteq> None"
    by (simp add: select_validator_for_producer_def Let_def)
  then obtain v where "select_validator_for_producer counter_rng 0 ''a'' [''a'', ''b'', ''c''] [] = Some v" by blast
  then have st: "map (prompt_of \<circ> pp_phase) (rd_pipes (demo_state True 1)) =
      [Some \<lparr>pr_system = ''sys'', pr_user = ''usr'', pr_hash = ''h'', pr_call_model = v\<rparr>]"
    "map (sg_is_validator \<circ> hd \<circ> pp_todo) (rd_pipes (demo_state True 1)) = [True]"
    "map pp_model (rd_pipes (demo_state True 1)) = [''a'']"
    by (simp_all add: drive_simps)
  then obtain p where p: "rd_pipes (demo_state True 1) = [p]" "pp_model p = ''a''" "sg_is_validator (hd (pp_todo p))"
    "prompt_of (pp_phase p) = Some \<lparr>pr_system = ''sys'', pr_user = ''usr'', pr_hash = ''h'', pr_call_model = v\<rparr>"
    by (auto simp only: map_eq_Cons_conv list.map comp_apply list.inject)
  have "p \<in> set (rd_pipes (demo_state True 1))" unfolding p(1) by simp
  from validator_is_another_candidate [OF counter_rng_ok demo_reachable [where v = True and n = 1] this p(4)] p(2,3)
  show ?thesis unfolding p(1) by (auto simp: p(4) demo_config_def)
qed

text \<open>
  A call of pipeline \<open>i\<close> that comes back with a dead error: the pipeline goes from the call to an
  answer whose error class is one of the dead ones. Between the call and the end of the pass over its
  stage such an answer is on its way to be counted.
\<close>

definition dead_answer :: "answer \<Rightarrow> bool" where
  "dead_answer an \<longleftrightarrow> (\<exists>e\<in>set DEAD_ERROR_CLASSES. an_error_class an = Some e)"

fun dead_call :: "phase \<Rightarrow> phase \<Rightarrow> bool" where
  "dead_call (Calling _ _ _) (Answered an) = dead_answer an"
| "dead_call _ _ = False"

fun dead_on_the_way :: "phase \<Rightarrow> bool" where
  "dead_on_the_way (Answered an) = dead_answer an"
| "dead_on_the_way (Recorded an) = dead_answer an"
| "dead_on_the_way (Costed an) = dead_answer an"
| "dead_on_the_way _ = False"

definition dead_calls :: "nat \<Rightarrow> ('p, 's, 'w) round_state list \<Rightarrow> nat" where
  "dead_calls i ss = length (filter (\<lambda>(s, t). dead_call (pp_phase (rd_pipes s ! i)) (pp_phase (rd_pipes t ! i)))
     (zip ss (tl ss)))"

lemma dead_class_truthy: "e \<in> set DEAD_ERROR_CLASSES \<Longrightarrow> e \<noteq> []"
  by (auto simp: DEAD_ERROR_CLASSES_def)

lemma dead_answer_iff:
  "dead_answer an \<longleftrightarrow> truthy (an_error_class an) \<and> the (an_error_class an) \<in> set DEAD_ERROR_CLASSES"
  by (cases "an_error_class an") (auto simp: dead_answer_def dest: dead_class_truthy)

lemma errors_count_dead_calls:
  assumes "pipe_trans rb g cfg p w p' w'"
  shows "pp_errors p' + of_bool (dead_on_the_way (pp_phase p')) =
    pp_errors p + of_bool (dead_on_the_way (pp_phase p)) + of_bool (dead_call (pp_phase p) (pp_phase p'))"
  using assms
proof (induction rule: pipe_trans.cases)
  case (halt w' e)
  then show ?case by (cases "pp_phase p") (auto simp: stop_pipe_def)
next
  case (skip w1 ctx p' w')
  then show ?case by (simp add: next_stage_fields)
next
  case (move c ph w')
  then show ?case by (cases ph; cases "pp_phase p") auto
next
  case (finish an w1 p' w')
  note f = finish_call_fields [OF finish(5)]
  show ?case using finish(3) unfolding finish(1) f by (auto simp: dead_answer_iff)
qed auto

lemma dead_calls_snoc:
  assumes "ss \<noteq> []"
  shows "dead_calls i (ss @ [t]) =
    dead_calls i ss + of_bool (dead_call (pp_phase (rd_pipes (last ss) ! i)) (pp_phase (rd_pipes t ! i)))"
  using assms by (induction ss rule: induct_list012) (auto simp: dead_calls_def)

lemma dead_call_irrefl [simp]: "\<not> dead_call ph ph"
  by (cases ph) simp_all

lemma run_reaches:
  assumes "successively R ss" "ss \<noteq> []"
  shows "R\<^sup>*\<^sup>* (hd ss) (last ss)"
  using assms
proof (induction ss rule: rev_induct)
  case (snoc t ss)
  then show ?case by (cases "ss = []") (auto simp: successively_append_iff intro: rtranclp.rtrancl_into_rtrancl)
qed simp

lemma errors_along_run:
  assumes "successively (round_step rb g cfg sb) ss" "ss \<noteq> []" "hd ss = round_start topo pairs w" "i < length pairs"
  shows "pp_errors (rd_pipes (last ss) ! i) + of_bool (dead_on_the_way (pp_phase (rd_pipes (last ss) ! i))) = dead_calls i ss
    \<and> length (rd_pipes (last ss)) = length pairs"
  using assms(1-3)
proof (induction ss rule: rev_induct)
  case (snoc t ss)
  show ?case
  proof (cases "ss = []")
    case True
    with snoc.prems assms(4) show ?thesis
      by (auto simp: dead_calls_def round_start_def start_pipe_def case_prod_beta)
  next
    case False
    with snoc have IH: "pp_errors (rd_pipes (last ss) ! i) + of_bool (dead_on_the_way (pp_phase (rd_pipes (last ss) ! i)))
        = dead_calls i ss" "length (rd_pipes (last ss)) = length pairs"
      and st: "round_step rb g cfg sb (last ss) t" by (auto simp: successively_append_iff)
    from st show ?thesis
    proof (elim round_step_trans)
      fix j p' w'
      assume j: "j < length (rd_pipes (last ss))" and tr: "pipe_trans rb g cfg (rd_pipes (last ss) ! j) (rd_world (last ss)) p' w'"
        and t: "t = \<lparr>rd_pipes = (rd_pipes (last ss))[j := p'], rd_world = w'\<rparr>"
      from errors_count_dead_calls [OF tr] IH j assms(4) show ?thesis
        by (cases "i = j") (simp_all add: dead_calls_snoc [OF False] t)
    qed
  qed
qed simp

text \<open>
  C20: Three strikes. Along every run of a round, the errors a pipeline has counted and the dead error
  it is about to count are together exactly the calls of the pipeline that came back with an error class
  of \<open>DEAD_ERROR_CLASSES\<close>; no other error counts. There are at most three such calls, and the pipeline
  is stopped for that reason exactly when it has counted three.
\<close>

theorem pipeline_stops_at_third_dead_error:
  assumes "rng_ok rb" "successively (round_step rb g cfg sb) (round_start topo pairs w # ss)" "i < length pairs"
  defines "p \<equiv> rd_pipes (last (round_start topo pairs w # ss)) ! i"
  shows "pp_errors p + of_bool (dead_on_the_way (pp_phase p)) = dead_calls i (round_start topo pairs w # ss)
    \<and> dead_calls i (round_start topo pairs w # ss) \<le> 3
    \<and> (pp_phase p = Ended Aborted \<longleftrightarrow> pp_errors p = 3)"
proof -
  let ?ss = "round_start topo pairs w # ss"
  note e = errors_along_run [OF assms(2) list.distinct(2) list.sel(1) assms(3), folded p_def]
  have "i < length (rd_pipes (last ?ss))" using conjunct2 [OF e] assms(3) by (simp only:)
  then have p: "p \<in> set (rd_pipes (last ?ss))" unfolding p_def by (rule nth_mem)
  have "(round_step rb g cfg sb)\<^sup>*\<^sup>* (round_start topo pairs w) (last ?ss)"
    using run_reaches [OF assms(2)] by simp
  from strikes.holds_in_round [OF assms(1) this p]
  have s: "pp_errors p \<le> 3" "pp_errors p = 3 \<longleftrightarrow> pp_phase p = Ended Aborted" by (simp_all add: strikes_ok_def)
  moreover from s have "pp_errors p + of_bool (dead_on_the_way (pp_phase p)) \<le> 3"
    by (cases "pp_errors p = 3") auto
  ultimately show ?thesis using conjunct1 [OF e] by auto
qed

text \<open>
  Four stages whose provider is rate limited in the first call, which does not count, and times out
  in the next ones.
\<close>

definition failing_llm :: "nat llm" where
  "failing_llm = \<lparr>lm_make = (\<lambda>_ w. (None, w)), lm_max_output_tokens = (\<lambda>_ _. None),
     lm_generate = (\<lambda>_ _ _ _ w. (Inl (PyExn (if w = 0 then ''RateLimited'' else ''ReadTimeout'') []), Suc w)),
     lm_attrs = (\<lambda>_ _. no_telemetry), lm_summary = (\<lambda>_ _. NoSummary), lm_monotonic = (\<lambda>_. 0), lm_now = (\<lambda>_. 0)\<rparr>"

definition strike_stages :: "unit stage list" where
  "strike_stages = map (\<lambda>sid. demo_stage sid False) [''a'', ''b'', ''c'', ''d'', ''e'']"

definition strike_config :: "(unit, unit, nat) round_config" where
  "strike_config = \<lparr>rc_experiment_tag = ''t'', rc_round_idx = 1, rc_candidates = [''a'', ''b'', ''c''],
     rc_task_units = [], rc_stages = strike_stages, rc_schedule = default_schedule, rc_backend = demo_backend None,
     rc_llm = failing_llm, rc_gold_checker = None, rc_row_scorer = None, rc_global_concurrency = 1,
     rc_per_op_concurrency = [], rc_custom_factory = True, rc_thinking = [],
     rc_provider_label = ''p'', rc_provider_kwargs = [], rc_quarantine_duration_sec = 300,
     rc_quarantine_cost_multiplier = 10, rc_sha256 = (\<lambda>_. ''h''), rc_json_dumps = (\<lambda>_. [])\<rparr>"

definition strike_world :: "(unit, nat) round_world" where
  "strike_world = \<lparr>ro_store = (), ro_llm = 0, ro_cache = [], ro_gate = None,
     ro_halving = \<lparr>hv_schedule = default_schedule, hv_survivors_by_round = [], hv_error_history = [],
       hv_last_eff_cost = [], hv_last_score_bonus = []\<rparr>,
     ro_attempted = [], ro_seen = {}, ro_infra = []\<rparr>"

abbreviation strike_state :: "nat \<Rightarrow> (unit, unit, nat) round_state" where
  "strike_state n \<equiv> drive n counter_rng 0 strike_config [] (round_start strike_stages [(''a'', demo_unit)] strike_world)"

lemma failing_call:
  "call_llm_guarded failing_llm m a b [] 0 w =
     (\<lparr>co_response = None, co_telemetry = no_telemetry, co_duration = 0,
       co_error_class = Some (if w = 0 then ''RateLimited'' else ''ReadTimeout''),
       co_error_message = Some (take 500 (redact_secrets []))\<rparr>, Suc w)"
    "lm_monotonic failing_llm w = 0" "lm_now failing_llm w = 0"
  by (simp_all add: call_llm_guarded_def call_llm_def failing_llm_def harvest_telemetry_def no_telemetry_def
      classify_provider_error_def lower_def has_any_def str_in_iff Let_def)

lemma strike_runs: "map (\<lambda>p. (pp_phase p, length (pp_todo p))) (rd_pipes (strike_state 36)) = [(Ended Aborted, 1)]"
  by (simp add: drive_simps strike_config_def strike_world_def strike_stages_def failing_call DEAD_ERROR_CLASSES_def
      call_row_def no_telemetry_def)

lemma reaches_run:
  assumes "R\<^sup>*\<^sup>* s t"
  shows "\<exists>ss. successively R (s # ss) \<and> last (s # ss) = t"
  using assms
proof (induction rule: rtranclp_induct)
  case base
  have "successively R [s] \<and> last [s] = s" by simp
  then show ?case by blast
next
  case (step t u)
  then obtain ss where "successively R (s # ss)" "last (s # ss) = t" by blast
  with step(2) have "successively R ((s # ss) @ [u]) \<and> last ((s # ss) @ [u]) = u"
    unfolding successively_append_iff by simp
  then show ?case by (metis append_Cons)
qed

corollary pipeline_stops_at_third_dead_error_witness:
  "\<exists>ss. successively (round_step counter_rng 0 strike_config []) (strike_state 0 # ss)
     \<and> last (strike_state 0 # ss) = strike_state 36
     \<and> dead_calls 0 (strike_state 0 # ss) = 3
     \<and> map (\<lambda>p. (pp_phase p, length (pp_todo p))) (rd_pipes (strike_state 36)) = [(Ended Aborted, 1)]"
proof -
  let ?s = "round_start strike_stages [(''a'', demo_unit)] strike_world"
  obtain ss where ss: "successively (round_step counter_rng 0 strike_config []) (?s # ss)" "last (?s # ss) = strike_state 36"
    using reaches_run [OF drive_reachable [of counter_rng 0 strike_config "[]" ?s 36]] by (elim exE conjE)
  from strike_runs obtain p where p: "rd_pipes (strike_state 36) = [p]" "pp_phase p = Ended Aborted" by auto
  have "0 < length [(''a'', demo_unit)]" by (simp only: list.size)
  from pipeline_stops_at_third_dead_error [OF counter_rng_ok ss(1) this, unfolded ss(2) p nth_Cons_0]
  have "dead_calls 0 (?s # ss) = 3" unfolding dead_on_the_way.simps of_bool_eq add_0_right by metis
  with ss strike_runs show ?thesis unfolding drive.simps(1) by (intro exI conjI)
qed

section \<open>Counting attempts\<close>

definition stages_left :: "string \<Rightarrow> ('p, 's, 'w) round_state \<Rightarrow> nat" where
  "stages_left m s = sum_list (map (left_of m) (rd_pipes s))"

lemma attempts_round_step:
  assumes "round_step rb g cfg sb s s'" "\<forall>p\<in>set (rd_pipes s). well_placed p"
  shows "dget (ro_attempted (rd_world s')) m 0 + stages_left m s' \<le> dget (ro_attempted (rd_world s)) m 0 + stages_left m s
    \<and> (ro_gate (rd_world s) = None \<longrightarrow> ro_gate (rd_world s') = None
        \<and> dget (ro_attempted (rd_world s')) m 0 + stages_left m s' = dget (ro_attempted (rd_world s)) m 0 + stages_left m s)"
  using assms(1)
proof (elim round_step_trans)
  fix i p' w'
  assume i: "i < length (rd_pipes s)" and tr: "pipe_trans rb g cfg (rd_pipes s ! i) (rd_world s) p' w'"
    and s': "s' = \<lparr>rd_pipes = (rd_pipes s)[i := p'], rd_world = w'\<rparr>"
  from i assms(2) have "well_placed (rd_pipes s ! i)" by simp
  from attempts_step [OF tr this, of m] sum_list_replace [OF i, of "left_of m" p'] show ?thesis
    by (auto simp: s' stages_left_def)
qed

lemma attempts_run:
  assumes "rng_ok rb" "(round_step rb g cfg sb)\<^sup>*\<^sup>* (round_start topo pairs w) s"
  shows "dget (ro_attempted (rd_world s)) m 0 + stages_left m s
      \<le> dget (ro_attempted w) m 0 + length (filter (\<lambda>mt. fst mt = m) pairs) * length topo
    \<and> (ro_gate w = None \<longrightarrow> ro_gate (rd_world s) = None \<and>
        dget (ro_attempted (rd_world s)) m 0 + stages_left m s
          = dget (ro_attempted w) m 0 + length (filter (\<lambda>mt. fst mt = m) pairs) * length topo)"
  using assms(2)
proof (induction rule: rtranclp_induct)
  case base
  have "sum_list (map (left_of m) (map (start_pipe topo) pairs)) = length (filter (\<lambda>mt. fst mt = m) pairs) * length topo"
    by (induction pairs) (auto simp: left_of_def start_pipe_def)
  then show ?case by (simp add: stages_left_def round_start_def)
next
  case (step s t)
  have "\<forall>p\<in>set (rd_pipes s). well_placed p" using placed.holds_in_round [OF assms(1) step(1)] by blast
  from attempts_round_step [OF step(2) this, of m] step.IH show ?case by auto
qed

text \<open>
  C21: The counter behind the coverage gate. A model's attempts never exceed the number of its pairs
  times the number of stages, whatever happens. Without a budget gate the attempts and the stages its
  pipelines have not reached add up to exactly that product, so a round whose pipelines all run
  through counts every stage of every pair, whether it was called, answered from the cache, skipped
  for want of a validator, failed, or could not be persisted.
\<close>

theorem attempts_cover_all_stages:
  assumes "rng_ok rb" "(round_step rb g cfg sb)\<^sup>*\<^sup>* (round_start topo pairs w) s" "ro_attempted w = []"
  shows "dget (ro_attempted (rd_world s)) m 0 \<le> length (filter (\<lambda>mt. fst mt = m) pairs) * length topo
    \<and> (ro_gate w = None \<longrightarrow>
        dget (ro_attempted (rd_world s)) m 0 + (\<Sum>p\<leftarrow>rd_pipes s. if pp_model p = m then length (pp_todo p) else 0)
          = length (filter (\<lambda>mt. fst mt = m) pairs) * length topo)"
  using attempts_run [OF assms(1,2), of m] by (auto simp: assms(3) stages_left_def left_of_def [abs_def])

corollary attempts_cover_all_stages_witness:
  "dget (ro_attempted (rd_world (demo_state False 10))) ''a'' 0 \<le> 1 \<and> ro_attempted (rd_world (demo_state False 10)) = [(''a'', 1)]"
  using attempts_cover_all_stages [OF counter_rng_ok demo_reachable [where v = False and n = 10], where m = "''a''"] demo_runs(2)
  by (simp add: demo_world_def)

end
