(* ===== verification/Round_Budget.thy ===== *)
theory Round_Budget
  imports Round_Properties
begin

text \<open>
  The budget gate under a round: every step of a round is a step of the gate of its own theory or leaves
  the gate alone, so the cap it promises holds for a round; and what happens when storage fails.
\<close>

section \<open>The budget gate\<close>

text \<open>The reservations the pipelines hold: from the admission until the cost is recorded.\<close>

fun holds_reservation :: "phase \<Rightarrow> real option" where
  "holds_reservation (Answered an) = Some (an_reservation an)"
| "holds_reservation (Recorded an) = Some (an_reservation an)"
| "holds_reservation ph = map_option snd (carries ph)"

definition flight :: "('p, 's, 'w) round_config \<Rightarrow> 'p pipe \<Rightarrow> (budget_key \<times> real) multiset" where
  "flight cfg p = (case holds_reservation (pp_phase p) of None \<Rightarrow> {#}
     | Some res \<Rightarrow> {#((rc_experiment_tag cfg, sg_op (hd (pp_todo p))), res)#})"

definition in_flight :: "('p, 's, 'w) round_config \<Rightarrow> 'p pipe list \<Rightarrow> (budget_key \<times> real) multiset" where
  "in_flight cfg pipes = sum_list (map (flight cfg) pipes)"

text \<open>
  What a round can lose of its reservations: one with each pipeline that crashed, and one with each
  answered call that could not be recorded.
\<close>

definition crashed :: "'p pipe \<Rightarrow> bool" where
  "crashed p \<longleftrightarrow> (case pp_phase p of Ended (Crashed _) \<Rightarrow> True | _ \<Rightarrow> False)"

abbreviation crashes :: "'p pipe list \<Rightarrow> nat" where
  "crashes pipes \<equiv> length (filter crashed pipes)"

text \<open>
  The effect of a transition on the gate: none, or one \<open>gate_step\<close>, with the reservations in flight
  following the open reservations of the observer; at most \<open>lost\<close> of them are held by no pipeline.
  The number \<open>n\<close> stands for the unrecorded calls at the start.
\<close>

definition gate_sim ::
  "nat \<Rightarrow> (budget_key \<times> real) multiset \<Rightarrow> nat \<Rightarrow> budget_gate option \<Rightarrow> (string, stage_budget) dict \<Rightarrow> bool" where
  "gate_sim n fl lost gt budgets \<longleftrightarrow> (\<exists>r. gate_step\<^sup>*\<^sup>* (run_start budgets) r \<and> gt = Some (gr_gate r) \<and> fl \<subseteq># gr_open r
     \<and> size (gr_open r) + n \<le> size fl + lost)"

lemma gate_simI:
  assumes "gate_step\<^sup>*\<^sup>* (run_start budgets) r" "gate_step r r'" "gt = Some (gr_gate r')" "fl \<subseteq># gr_open r'"
    "size (gr_open r') + n \<le> size fl + lost"
  shows "gate_sim n fl lost gt budgets"
  unfolding gate_sim_def using assms rtranclp.rtrancl_into_rtrancl [OF assms(1,2)] by blast

lemma gate_sim_check:
  assumes "gate_sim n fl lost (Some gt) budgets" "gate_check query tag op floor_cost gt = Inr (ans, gt')"
  shows "gate_sim n (if ga_can_proceed ans then add_mset ((tag, op), ga_reservation ans) fl else fl) lost (Some gt') budgets"
proof -
  obtain r where r: "gate_step\<^sup>*\<^sup>* (run_start budgets) r" "gt = gr_gate r" "fl \<subseteq># gr_open r"
    "size (gr_open r) + n \<le> size fl + lost"
    using assms(1) unfolding gate_sim_def by blast
  have check: "gate_check query tag op floor_cost (gr_gate r) = Inr (ans, gt')" using assms(2) by (simp add: r(2))
  show ?thesis
  proof (cases "ga_can_proceed ans")
    case True
    then show ?thesis using r(3,4) by (intro gate_simI [OF r(1) admitted [OF check True]]) simp_all
  next
    case False
    then show ?thesis using r(3,4) by (intro gate_simI [OF r(1) skipped [OF check False]]) simp_all
  qed
qed

lemma gate_sim_record:
  assumes "gate_sim n (add_mset ((tag, op), res) fl) lost (Some gt) budgets"
  shows "gate_sim n fl lost (Some (record_cost tag op c (Some e) res gt)) budgets"
proof -
  obtain r where r: "gate_step\<^sup>*\<^sup>* (run_start budgets) r" "gt = gr_gate r" "add_mset ((tag, op), res) fl \<subseteq># gr_open r"
    "size (gr_open r) + n \<le> size (add_mset ((tag, op), res) fl) + lost"
    using assms unfolding gate_sim_def by blast
  have mem: "((tag, op), res) \<in># gr_open r" using r(3) by (simp add: insert_subset_eq_iff)
  have "fl \<subseteq># gr_open r - {#((tag, op), res)#}" using r(3) by (simp add: insert_subset_eq_iff)
  moreover have "size (gr_open r - {#((tag, op), res)#}) + n \<le> size fl + lost"
    using r(4) mem by (auto dest!: multi_member_split)
  ultimately show ?thesis using r(2)
    by (intro gate_simI [OF r(1) reconciled [OF mem refl, where cost = c and eff = "Some e"]]) simp_all
qed

lemma gate_sim_drop:
  assumes "gate_sim n (fl + rest) lost gt budgets" "size fl + lost \<le> lost'"
  shows "gate_sim n rest lost' gt budgets"
proof -
  obtain r where r: "gate_step\<^sup>*\<^sup>* (run_start budgets) r" "gt = Some (gr_gate r)" "fl + rest \<subseteq># gr_open r"
    "size (gr_open r) + n \<le> size (fl + rest) + lost"
    using assms(1) unfolding gate_sim_def by blast
  have "rest \<subseteq># fl + rest" by simp
  then have "rest \<subseteq># gr_open r" using r(3) by (rule subset_mset.order_trans)
  moreover from r(4) assms(2) have "size (gr_open r) + n \<le> size rest + lost'" by simp
  ultimately show ?thesis using r(1,2) unfolding gate_sim_def by blast
qed

lemma size_flight: "size (flight cfg p) \<le> 1" "holds_reservation (pp_phase p) = None \<Longrightarrow> flight cfg p = {#}"
  by (simp_all add: flight_def split: option.split)

lemma gate_sim_step:
  assumes "pipe_trans rb g cfg p w p' w'" "\<not> ended p"
    "gate_sim n (flight cfg p + rest) (of_bool (crashed p) + unrecorded w + k) (ro_gate w) budgets"
  shows "gate_sim n (flight cfg p' + rest) (of_bool (crashed p') + unrecorded w' + k) (ro_gate w') budgets"
proof -
  have "\<not> crashed p" using assms(2) by (auto simp: crashed_def ended_def split: phase.splits)
  with assms(3) have start: "gate_sim n (flight cfg p + rest) (unrecorded w + k) (ro_gate w) budgets" by simp
  have drop: ?thesis if "ro_gate w' = ro_gate w" "flight cfg p' = {#}"
    "size (flight cfg p) + unrecorded w \<le> of_bool (crashed p') + unrecorded w'"
    using gate_sim_drop [OF start, of "of_bool (crashed p') + unrecorded w' + k"] that by simp
  have stay: ?thesis if "ro_gate w' = ro_gate w" "flight cfg p' = flight cfg p" "unrecorded w \<le> unrecorded w'"
    using gate_sim_drop [of n "{#}" "flight cfg p + rest" "unrecorded w + k" _ _ "of_bool (crashed p') + unrecorded w' + k"]
      start that by simp
  have live: "\<not> crashed p'" if "\<not> ended p'" using that by (auto simp: crashed_def ended_def split: phase.splits)
  show ?thesis using assms(1)
  proof (cases rule: pipe_trans.cases)
    case (halt e)
    have "size (flight cfg p) \<le> of_bool (crashed p')"
      using halt(6) size_flight(1) [of cfg p] by (auto simp: halt(1) crashed_def stop_pipe_def flight_def)
    with halt show ?thesis by (intro drop) (auto simp: same_counters_def flight_def stop_pipe_def)
  next
    case (skip w1 ctx)
    moreover from skip have "unrecorded w' = unrecorded w1" by (auto simp: next_stage_def unrecorded_def)
    ultimately show ?thesis by (intro drop) (auto simp: same_counters_def flight_def next_stage_fields)
  next
    case (miss pr ctx)
    then show ?thesis by (intro drop) (auto simp: flight_def)
  next
    case (pass pr)
    then show ?thesis using start by (simp add: gate_sim_def)
  next
    case (admit pr gt query floor_cost ans gt')
    then show ?thesis using start gate_sim_check [OF _ admit(5), of n "flight cfg p + rest"]
      by (simp add: flight_def crashed_def unrecorded_def)
  next
    case (refuse pr gt query floor_cost ans gt')
    then show ?thesis using start gate_sim_check [OF _ refuse(5), of n "flight cfg p + rest"]
      by (simp add: flight_def crashed_def unrecorded_def)
  next
    case (move c ph)
    then have "holds_reservation ph = holds_reservation (pp_phase p)" by (cases ph; cases "pp_phase p") auto
    with move show ?thesis by (intro stay) (auto simp: same_counters_def flight_def split: option.splits)
  next
    case (answer pr res t0 an ctx)
    then show ?thesis by (intro stay) (simp_all add: same_counters_def flight_def)
  next
    case (keep an)
    then show ?thesis by (intro stay) (simp_all add: same_counters_def flight_def)
  next
    case (cost an c e)
    obtain gt where gt: "ro_gate w = Some gt" using start unfolding gate_sim_def by blast
    with cost start gate_sim_record [of n "rc_experiment_tag cfg" "sg_op (hd (pp_todo p))" "an_reservation an" rest _ gt budgets c e]
    show ?thesis by (simp add: flight_def crashed_def unrecorded_def)
  next
    case (finish an w1)
    note f = finish_call_fields [OF finish(3)]
    have "unrecorded w' = unrecorded w1"
      using finish(3) by (auto simp: finish_call_def next_stage_def Let_def unrecorded_def split: prod.splits)
    with finish f have "size (flight cfg p) + unrecorded w \<le> unrecorded w'"
      by (auto simp: same_counters_def flight_def)
    with finish(2) f show ?thesis by (intro drop) (auto simp: same_counters_def flight_def)
  qed
qed

lemma gate_sim_run:
  assumes "(round_step rb g cfg sb)\<^sup>*\<^sup>* (round_start topo pairs w) s" "ro_gate w = Some (gate_new budgets)"
  shows "gate_sim (unrecorded w) (in_flight cfg (rd_pipes s)) (crashes (rd_pipes s) + unrecorded (rd_world s))
    (ro_gate (rd_world s)) budgets"
  using assms(1)
proof (induction rule: rtranclp_induct)
  case base
  have "in_flight cfg (map (start_pipe topo) pairs) = {#}"
    by (induction pairs) (auto simp: in_flight_def flight_def start_pipe_def)
  then show ?case using assms(2) unfolding gate_sim_def
    by (intro exI [of _ "run_start budgets"]) (simp add: round_start_def run_start_def)
next
  case (step s t)
  from step(2) show ?case
  proof (elim round_step_trans)
    fix i p' w'
    assume i: "i < length (rd_pipes s)" and tr: "pipe_trans rb g cfg (rd_pipes s ! i) (rd_world s) p' w'"
      and on: "\<not> ended (rd_pipes s ! i)" and t: "t = \<lparr>rd_pipes = (rd_pipes s)[i := p'], rd_world = w'\<rparr>"
    have "flight cfg q \<subseteq># in_flight cfg qs" if "q \<in> set qs" for q qs
      using that unfolding in_flight_def by (induction qs) (auto simp: subset_mset.add_increasing subset_mset.add_increasing2)
    then obtain rest where rest: "in_flight cfg (rd_pipes s) = flight cfg (rd_pipes s ! i) + rest"
      using i by (metis nth_mem subset_mset.le_iff_add)
    have "in_flight cfg (rd_pipes t) + flight cfg (rd_pipes s ! i) = flight cfg p' + rest + flight cfg (rd_pipes s ! i)"
      using sum_list_replace [OF i, of "flight cfg" p'] rest by (simp add: in_flight_def t ac_simps)
    then have fl: "in_flight cfg (rd_pipes t) = flight cfg p' + rest" by simp
    have "\<not> crashed (rd_pipes s ! i)" using on by (auto simp: crashed_def ended_def split: phase.splits)
    with length_filter_replace [OF i, of crashed p']
    have "crashes (rd_pipes t) = crashes (rd_pipes s) + of_bool (crashed p')" by (simp add: t)
    with gate_sim_step [OF tr on, of "unrecorded w" rest "crashes (rd_pipes s)" budgets] step.IH rest fl on
    show ?thesis by (simp add: t ac_simps \<open>\<not> crashed (rd_pipes s ! i)\<close>)
  qed
qed

definition capped :: budget_gate where
  "capped = gate_new [(''s'', \<lparr>sb_cap_usd = 1, sb_headroom_factor = 1\<rparr>)]"

lemma capped_check:
  "gate_check (\<lambda>_. Inr []) ''t'' ''s'' (Some 1) capped =
     Inr (\<lparr>ga_can_proceed = True, ga_spend = 0, ga_cap = Fin 1, ga_reservation = 1\<rparr>,
       capped\<lparr>bg_spent_by_key := [((''t'', ''s''), 0)], bg_seeded_keys := {(''t'', ''s'')},
         bg_reserved_by_key := [((''t'', ''s''), 1)]\<rparr>)"
  by (simp add: gate_check_def capped_def gate_new_def seed_key_def projected_cost_def Let_def dget_def)

text \<open>
  C9: The pipelines use the budget gate as its own theory demands. Started with a fresh gate, the gate
  of every reachable state of a round is one that a sequence of the gate's steps leads to, and every
  reservation a pipeline holds is an open one there. So the cap holds for a round: what is spent and
  reserved of a capped op exceeds the cap by no more than the recorded costs went beyond their
  reservations. The open reservations no pipeline holds are at most as many as the pipelines that
  crashed and the answered calls that could not be recorded. So unless one of the two has happened the
  open reservations are exactly those the pipelines hold, and none is left once all have ended.
\<close>

theorem round_refines_budget_gate:
  assumes "(round_step rb g cfg sb)\<^sup>*\<^sup>* (round_start topo pairs w) s" "ro_gate w = Some (gate_new budgets)"
  defines "lost \<equiv> crashes (rd_pipes s) + unrecorded (rd_world s) - unrecorded w"
  shows "\<exists>r. gate_step\<^sup>*\<^sup>* (run_start budgets) r \<and> ro_gate (rd_world s) = Some (gr_gate r)
    \<and> in_flight cfg (rd_pipes s) \<subseteq># gr_open r
    \<and> size (gr_open r) \<le> size (in_flight cfg (rd_pipes s)) + lost
    \<and> (\<forall>tag op b. map_of budgets op = Some b \<and> (tag, op) \<in> bg_seeded_keys (gr_gate r) \<longrightarrow>
         dget (bg_spent_by_key (gr_gate r)) (tag, op) 0 + dget (bg_reserved_by_key (gr_gate r)) (tag, op) 0
           \<le> max (sb_cap_usd b) (gr_seed r (tag, op)) + gr_over r (tag, op))
    \<and> (lost = 0 \<longrightarrow> in_flight cfg (rd_pipes s) = gr_open r)
    \<and> (lost = 0 \<and> (\<forall>p\<in>set (rd_pipes s). ended p) \<longrightarrow>
         (\<forall>key. dget (bg_reserved_by_key (gr_gate r)) key 0 = 0))"
proof -
  obtain r where r: "gate_step\<^sup>*\<^sup>* (run_start budgets) r" "ro_gate (rd_world s) = Some (gr_gate r)"
    "in_flight cfg (rd_pipes s) \<subseteq># gr_open r"
    and size: "size (gr_open r) + unrecorded w
      \<le> size (in_flight cfg (rd_pipes s)) + (crashes (rd_pipes s) + unrecorded (rd_world s))"
    using gate_sim_run [OF assms(1,2)] unfolding gate_sim_def by blast
  have inv: "key_inv budgets r key" for key using gate_run_inv [OF r(1)] unfolding gate_inv_def by blast
  have cap: "dget (bg_spent_by_key (gr_gate r)) (tag, op) 0 + dget (bg_reserved_by_key (gr_gate r)) (tag, op) 0
           \<le> max (sb_cap_usd b) (gr_seed r (tag, op)) + gr_over r (tag, op)"
    if "map_of budgets op = Some b" "(tag, op) \<in> bg_seeded_keys (gr_gate r)" for tag op b
    using inv [of "(tag, op)"] that by (simp add: key_inv_def key_ok_def)
  have few: "size (gr_open r) \<le> size (in_flight cfg (rd_pipes s)) + lost"
    using size size_mset_mono [OF r(3)] by (simp add: lost_def)
  have eq: "in_flight cfg (rd_pipes s) = gr_open r" if "lost = 0"
    using few that r(3) mset_subset_size [of "in_flight cfg (rd_pipes s)" "gr_open r"] by (auto simp: subset_mset.less_le)
  have none: "dget (bg_reserved_by_key (gr_gate r)) key 0 = 0" if "lost = 0" "\<forall>p\<in>set (rd_pipes s). ended p" for key
  proof -
    have "in_flight cfg ps = {#}" if "\<forall>p\<in>set ps. ended p" for ps
      using that by (induction ps) (auto simp: in_flight_def flight_def ended_def split: phase.splits)
    with that eq have "gr_open r = {#}" by simp
    then show ?thesis using inv [of key] by (simp add: key_inv_def key_ok_def)
  qed
  show ?thesis using r few cap eq none by blast
qed

corollary round_refines_budget_gate_witness:
  "\<exists>gt. ro_gate (rd_world (drive 10 counter_rng 0 (demo_config (demo_stage ''s'' False) None) [] (demo_start False (Some capped)))) = Some gt
     \<and> (\<forall>key. dget (bg_reserved_by_key gt) key 0 = 0)"
proof -
  let ?cfg = "demo_config (demo_stage ''s'' False) None"
  let ?s = "drive 10 counter_rng 0 ?cfg [] (demo_start False (Some capped))"
  have "map pp_phase (rd_pipes ?s) = [Ended Finished]" "ro_infra (rd_world ?s) = []"
    by (simp_all add: drive_simps capped_check no_telemetry_def)
  then have ended: "\<forall>p\<in>set (rd_pipes ?s). ended p" and lost: "crashes (rd_pipes ?s) + unrecorded (rd_world ?s) - n = 0" for n
    by (auto simp: ended_def crashed_def unrecorded_def)
  have "ro_gate (demo_world (Some capped)) = Some (gate_new [(''s'', \<lparr>sb_cap_usd = 1, sb_headroom_factor = 1\<rparr>)])"
    by (simp add: demo_world_def capped_def)
  from round_refines_budget_gate [OF drive_reachable [of counter_rng 0 ?cfg "[]" "demo_start False (Some capped)" 10] this]
    ended lost show ?thesis by blast
qed

section \<open>A failing backend\<close>

text \<open>
  A call that cannot be recorded is paid for twice in the budget. When \<open>record_call\<close> raises, the
  pipeline goes on to its end, the attempt is counted and noted as an infrastructure failure, but the
  reservation made before the call stays with the gate although no pipeline holds it any more. Here
  the one call of a round leaves the whole cap of its op reserved with nothing spent, and every
  further check of the op is refused.
\<close>

theorem failed_record_leaks_reservation:
  "\<exists>s gt. (round_step counter_rng 0 (demo_config (demo_stage ''s'' False) (Some DatabaseError)) [])\<^sup>*\<^sup>*
       (round_start [demo_stage ''s'' False] [(''a'', demo_unit)] (demo_world (Some capped))) s
     \<and> map pp_phase (rd_pipes s) = [Ended Finished] \<and> ro_gate (rd_world s) = Some gt
     \<and> bg_spent_by_key gt = [((''t'', ''s''), 0)] \<and> bg_reserved_by_key gt = [((''t'', ''s''), 1)]
     \<and> (case gate_check query ''t'' ''s'' f gt of Inr (ans, _) \<Rightarrow> \<not> ga_can_proceed ans | Inl _ \<Rightarrow> False)"
proof -
  let ?s = "drive 8 counter_rng 0 (demo_config (demo_stage ''s'' False) (Some DatabaseError)) []
     (round_start [demo_stage ''s'' False] [(''a'', demo_unit)] (demo_world (Some capped)))"
  let ?g = "capped\<lparr>bg_spent_by_key := [((''t'', ''s''), 0)], bg_seeded_keys := {(''t'', ''s'')},
         bg_reserved_by_key := [((''t'', ''s''), 1)]\<rparr>"
  have "map pp_phase (rd_pipes ?s) = [Ended Finished]" "ro_gate (rd_world ?s) = Some ?g"
    by (simp_all add: drive_simps capped_check no_telemetry_def)
  moreover have "case gate_check query ''t'' ''s'' f ?g of Inr (ans, _) \<Rightarrow> \<not> ga_can_proceed ans | Inl _ \<Rightarrow> False"
    by (cases f) (simp_all add: gate_check_def capped_def gate_new_def seed_key_def projected_cost_def Let_def dget_def)
  ultimately show ?thesis
    by (intro exI [of _ ?s] exI [of _ ?g] conjI) (simp_all add: drive_reachable)
qed

end
