(* ===== verification/Round_Aggregation.thy ===== *)
theory Round_Aggregation
  imports Stage_Winners Halving_Driver
begin

text \<open>
  \<open>runner/round_aggregation.py\<close>: from the per-stage report to the per-model numbers the halving
  decides on.
\<close>

text \<open>\<open>total[m] = total.get(m, 0.0) + v\<close> over all stages, then every total divided by the stage count.\<close>

definition aggregate_stage_metric ::
  "ranking_report \<Rightarrow> (stage_ranking \<Rightarrow> (string, real) dict) \<Rightarrow> (string, real) dict" where
  "aggregate_stage_metric report extractor =
     (let totals = fold (\<lambda>(st, sr). fold (\<lambda>(m, v). dadd m v) (extractor sr)) (rp_stages report) []
      in if rp_stages report = [] then totals
         else map (\<lambda>kv. (fst kv, snd kv / real (length (rp_stages report)))) totals)"

definition bonus_step :: "string \<times> real \<Rightarrow> (string, real) dict \<Rightarrow> (string, real) dict" where
  "bonus_step = (\<lambda>(m, bonus) scores.
     case map_of scores m of None \<Rightarrow> scores
     | Some s \<Rightarrow> if bonus \<noteq> 0 then dset m (min 1 (s + bonus)) scores else scores)"

definition apply_last_round_score_bonus :: "(string, real) dict \<Rightarrow> halving \<Rightarrow> (string, real) dict" where
  "apply_last_round_score_bonus scores h = fold bonus_step (hv_last_score_bonus h) scores"

text \<open>
  The unit scores of one model over the stages, in the order the loops meet the units. The set
  comprehension over the models is iterated in an order that shows in the order of the result only,
  here the order of first appearance.
\<close>

definition unit_scores_of :: "ranking_report \<Rightarrow> string \<Rightarrow> (string, real list) dict" where
  "unit_scores_of report m =
     fold (\<lambda>(st, sr). fold (\<lambda>(tu, score). dappend tu score) (dget (sr_model_task_unit_scores sr) m []))
       (rp_stages report) []"

definition scored_models :: "ranking_report \<Rightarrow> string list" where
  "scored_models report = remdups (concat (map (\<lambda>kv. map fst (sr_model_task_unit_scores (snd kv))) (rp_stages report)))"

definition build_per_task_unit_scores :: "ranking_report \<Rightarrow> (string, real list) dict" where
  "build_per_task_unit_scores report =
     fold (\<lambda>m out. let unit_scores = unit_scores_of report m in
        if unit_scores = [] then out
        else dset m (map (\<lambda>kv. sum_list (snd kv) / real (length (snd kv))) unit_scores) out)
       (scored_models report) []"

section \<open>The mean over all stages\<close>

lemma dget_fold_dadd:
  "dget (fold (\<lambda>(m, v). dadd m v) xs d) j (0::real) =
     dget d j 0 + sum_list (map snd (filter (\<lambda>kv. fst kv = j) xs))"
  by (induction xs arbitrary: d) (auto simp: dict_simps)

lemma filter_key_singleton:
  assumes "dict_ok d"
  shows "sum_list (map snd (filter (\<lambda>kv. fst kv = j) d)) = dget d j (0::real)"
  using assms
proof (induction d)
  case (Cons x d)
  have "filter (\<lambda>kv. fst kv = fst x) d = []" using Cons.prems by (force simp: filter_empty_conv)
  with Cons show ?case by (auto simp: dget_def)
qed simp

lemma keys_fold_dadd: "fst ` set (fold (\<lambda>(m, v). dadd m v) xs d) = fst ` set xs \<union> fst ` set d"
  by (induction xs arbitrary: d) (simp_all add: dadd_def keys_dset case_prod_beta)

lemma dict_ok_fold_dadd: "dict_ok d \<Longrightarrow> dict_ok (fold (\<lambda>(m, v). dadd m v) xs d)"
  by (induction xs arbitrary: d) auto

definition stage_sums :: "(stage_ranking \<Rightarrow> (string, real) dict) \<Rightarrow> (string, stage_ranking) dict
    \<Rightarrow> (string, real) dict \<Rightarrow> (string, real) dict" where
  "stage_sums f stages d = fold (\<lambda>(st, sr). fold (\<lambda>(m, v). dadd m v) (f sr)) stages d"

lemma stage_sums_keys:
  "fst ` set (stage_sums f stages d) = (\<Union>(st, sr)\<in>set stages. fst ` set (f sr)) \<union> fst ` set d"
  unfolding stage_sums_def
  by (induction stages arbitrary: d) (simp_all add: keys_fold_dadd case_prod_beta Un_assoc Un_left_commute)

lemma stage_sums_get:
  assumes "list_all (\<lambda>x. dict_ok (f (snd x))) stages"
  shows "dget (stage_sums f stages d) m 0 = dget d m 0 + (\<Sum>(st, sr)\<leftarrow>stages. dget (f sr) m 0)"
  using assms
proof (induction stages arbitrary: d)
  case (Cons x stages)
  then show ?case
    by (cases x) (simp add: stage_sums_def dget_fold_dadd filter_key_singleton)
qed (simp add: stage_sums_def)

lemma dict_ok_stage_sums: "dict_ok d \<Longrightarrow> dict_ok (stage_sums f stages d)"
  unfolding stage_sums_def by (induction stages arbitrary: d) (auto intro: dict_ok_fold_dadd)

lemma map_of_by_dget: "map_of d k = (if k \<in> fst ` set d then Some (dget d k 0) else None)"
  by (auto simp: dget_def in_keys_iff split: option.split)

lemma aggregate_mean:
  assumes "list_all (\<lambda>x. dict_ok (f (snd x))) (rp_stages report)"
  shows "map_of (aggregate_stage_metric report f) m =
    (if \<exists>(st, sr)\<in>set (rp_stages report). m \<in> fst ` set (f sr)
     then Some ((\<Sum>(st, sr)\<leftarrow>rp_stages report. dget (f sr) m 0) / real (length (rp_stages report)))
     else None)"
proof -
  let ?s = "stage_sums f (rp_stages report) []"
  have map: "map_of (aggregate_stage_metric report f) m =
      map_option (\<lambda>v. v / real (length (rp_stages report))) (map_of ?s m)"
    using map_of_map_values [of "\<lambda>v. v / real (length (rp_stages report))" ?s m]
    by (cases "rp_stages report = []") (simp_all add: aggregate_stage_metric_def stage_sums_def)
  show ?thesis
    unfolding map map_of_by_dget [of ?s] stage_sums_keys stage_sums_get [OF assms] by auto
qed

section \<open>Properties\<close>

text \<open>The score of a model in a stage, or 0 where it has none.\<close>

definition score_or_0 :: "ranking_report \<Rightarrow> string \<Rightarrow> string \<Rightarrow> real" where
  "score_or_0 rep m st = (case get2 (rp_per_model_summary rep) m st of None \<Rightarrow> 0 | Some v \<Rightarrow> v)"

text \<open>
  The score with which a model enters the halving decision exists exactly if the experiment has
  a row of the model, and is the sum of its stage scores divided by the number of all stages with
  rows: a stage in which the model has no row counts as 0.
\<close>

theorem round_score_is_mean_over_stages:
  fixes tag scorer ck w look rows
  defines "rep \<equiv> compute_ranking tag scorer ck w look rows"
  shows "map_of (aggregate_stage_metric rep sr_model_scores) m =
    (if rows_of m rows = [] then None
     else Some ((\<Sum>st\<leftarrow>map fst (rp_stages rep). score_or_0 rep m st) / real (length (rp_stages rep))))"
proof -
  have ok: "dict_ok (rp_stages rep)" by (simp add: rep_def)
  have st: "map_of (rp_stages rep) s = Some r \<longleftrightarrow> stage_rows s rows \<noteq> [] \<and>
      r = rank_stage (pick_scorer scorer) ck w look s (stage_rows s rows)" for s r
    by (auto simp: rep_def report_stage)
  have mem: "(s, r) \<in> set (rp_stages rep) \<longleftrightarrow> map_of (rp_stages rep) s = Some r" for s r
    using ok by (simp add: dict_ok_def)
  have dicts: "list_all (\<lambda>x. dict_ok (sr_model_scores (snd x))) (rp_stages rep)"
    using mem st by (auto simp: list_all_iff)
  have "dget (sr_model_scores r) m 0 = score_or_0 rep m s" if "(s, r) \<in> set (rp_stages rep)" for s r
    using that mem report_summary [of tag scorer ck w look rows m s, folded rep_def]
    by (simp add: score_or_0_def dget_def)
  then have "(\<Sum>(s, r)\<leftarrow>rp_stages rep. dget (sr_model_scores r) m 0) =
      (\<Sum>s\<leftarrow>map fst (rp_stages rep). score_or_0 rep m s)"
    unfolding map_map comp_def by (intro arg_cong [where f = sum_list] map_cong) auto
  moreover have "(\<exists>(s, r)\<in>set (rp_stages rep). m \<in> fst ` set (sr_model_scores r)) \<longleftrightarrow> rows_of m rows \<noteq> []"
  proof -
    have "m \<in> fst ` set (sr_model_scores (rank_stage (pick_scorer scorer) ck w look s (stage_rows s rows)))
        \<longleftrightarrow> rows_of m (stage_rows s rows) \<noteq> []" for s
      by (simp add: in_keys_iff rank_stage_scores)
    note key = this
    have "(\<exists>(s, r)\<in>set (rp_stages rep). m \<in> fst ` set (sr_model_scores r)) \<longleftrightarrow>
        (\<exists>s r. (s, r) \<in> set (rp_stages rep) \<and> m \<in> fst ` set (sr_model_scores r))" by blast
    also have "\<dots> \<longleftrightarrow> (\<exists>s. stage_rows s rows \<noteq> [] \<and> rows_of m (stage_rows s rows) \<noteq> [])"
      by (simp only: mem st key simp_thms ex_simps conj_assoc flip: ex_simps cong: conj_cong) (use key in blast)
    also have "\<dots> \<longleftrightarrow> (\<exists>s. rows_of m (stage_rows s rows) \<noteq> [])"
      by (metis filter.simps(1) rows_of_def)
    also have "\<dots> \<longleftrightarrow> rows_of m rows \<noteq> []"
      by (auto simp: rows_of_def stage_rows_def filter_empty_conv)
    finally show ?thesis .
  qed
  ultimately show ?thesis unfolding aggregate_mean [OF dicts] by simp
qed

text \<open>Two models answer two task units equally; their rows arrive in opposite order of units.\<close>

definition unit_row :: "string \<Rightarrow> string \<Rightarrow> bool \<Rightarrow> run_row" where
  "unit_row m u ok = (if ok then good_row ''t'' else failed_row ''t'')\<lparr>rr_model := m, rr_task_unit_id := u\<rparr>"

definition crossed_rows :: "run_row list" where
  "crossed_rows = [unit_row ''a'' ''u1'' True, unit_row ''a'' ''u2'' False,
                   unit_row ''b'' ''u2'' False, unit_row ''b'' ''u1'' True]"

lemma unit_row_simps [simp]:
  "rr_model (unit_row m u ok) = m" "rr_task_unit_id (unit_row m u ok) = u" "rr_stage (unit_row m u ok) = ''s''"
  "default_row_scorer (unit_row m u ok) = Num (if ok then 1 else 0)"
  by (simp_all add: unit_row_def good_row_def failed_row_def sample_row_def default_row_scorer_def
      is_row_usable_def MIN_USABLE_RESPONSE_LEN_def)

text \<open>
  The per-unit score lists handed to the paired bootstrap are not aligned by task unit. Two
  models with the same score on each of two units get the lists \<open>[1, 0]\<close> and \<open>[0, 1]\<close> when storage
  yields their rows in opposite orders, so the resampling, which pairs the lists by position,
  compares one model's first unit with the other's second.
\<close>

theorem unit_scores_not_aligned:
  "map_of (unit_scores_of (compute_ranking ''t'' None None 0 None crossed_rows) ''a'') =
      map_of (unit_scores_of (compute_ranking ''t'' None None 0 None crossed_rows) ''b'')
   \<and> map_of (build_per_task_unit_scores (compute_ranking ''t'' None None 0 None crossed_rows)) ''a'' = Some [1, 0]
   \<and> map_of (build_per_task_unit_scores (compute_ranking ''t'' None None 0 None crossed_rows)) ''b'' = Some [0, 1]"
proof -
  let ?rep = "compute_ranking ''t'' None None 0 None crossed_rows"
  have groups: "group_by_stage crossed_rows = [(''s'', crossed_rows)]"
    by (simp add: group_by_stage_def crossed_rows_def dappend_def dget_def)
  have units: "sr_model_task_unit_scores (rank_stage default_row_scorer None 0 None ''s'' crossed_rows) =
      [(''a'', [(''u1'', 1), (''u2'', 0)]), (''b'', [(''u2'', 0), (''u1'', 1)])]"
    by (simp add: rank_stage_def Let_def accumulate_def acc_row_def acc_new_def crossed_rows_def
        dappend_def dget_def unit_means_def fmean_def)
  have stages: "rp_stages ?rep = [(''s'', rank_stage default_row_scorer None 0 None ''s'' crossed_rows)]"
    by (simp add: compute_ranking_def Let_def groups pick_scorer_def)
  have u: "unit_scores_of ?rep ''a'' = [(''u1'', [1]), (''u2'', [0])]"
    "unit_scores_of ?rep ''b'' = [(''u2'', [0]), (''u1'', [1])]"
    by (simp_all add: unit_scores_of_def stages units dget_def dappend_def)
  have "build_per_task_unit_scores ?rep = [(''a'', [1, 0]), (''b'', [0, 1])]"
    by (simp add: build_per_task_unit_scores_def scored_models_def stages units u)
  with u show ?thesis by (simp add: fun_eq_iff)
qed

end
