(* ===== verification/Round_Runner.thy ===== *)
theory Round_Runner
  imports Round_Budget Round_Aggregation
begin

text \<open>
  \<open>run_round\<close> of \<open>runner/round_runner.py\<close>: the pairs of a round, the winner rows it preloads, and,
  once all pipelines have ended, ranking, promotion and the winner set of the next round. Between the
  two lies any run of the event loop (\<open>round_step\<close>).
\<close>

section \<open>Before the pipelines\<close>

text \<open>\<open>{u.id: u for u in task_units}\<close>.\<close>

definition units_by_id :: "task_unit list \<Rightarrow> (string, task_unit) dict" where
  "units_by_id units = fold (\<lambda>u. dset (tu_id u) u) units []"

definition round_pairs :: "('p, 's, 'w) round_config \<Rightarrow> (string \<times> task_unit) list result" where
  "round_pairs cfg =
     (case assign_task_units_for_round (rc_candidates cfg) (map tu_id (rc_task_units cfg)) (rc_round_idx cfg) (rc_schedule cfg) of
        Inl e \<Rightarrow> Inl e
      | Inr per_candidate \<Rightarrow>
          let by_id = units_by_id (rc_task_units cfg)
          in Inr (concat (map (\<lambda>m. List.map_filter (\<lambda>uid. map_option (Pair m) (map_of by_id uid)) (dget per_candidate m []))
               (rc_candidates cfg))))"

text \<open>The parents of the round's stages; an empty name counts as none. A Python set, in some order.\<close>

definition parent_stage_ids :: "'p stage list \<Rightarrow> string list" where
  "parent_stage_ids stages =
     remdups (List.map_filter (\<lambda>s. if truthy (sg_parent_stage s) then sg_parent_stage s else None) stages)"

text \<open>The first error among the queries of the stages, if any.\<close>

definition query_error ::
  "'s backend \<Rightarrow> 's \<Rightarrow> string \<Rightarrow> winner_set \<Rightarrow> string list \<Rightarrow> py_error option" where
  "query_error be s tag winners stages =
     (case List.map_filter (\<lambda>st. if ws_get winners st = None then None
         else (case be_query_rows be s tag (Some st) of Inl e \<Rightarrow> Some e | Inr _ \<Rightarrow> None)) stages of
        [] \<Rightarrow> None | e # _ \<Rightarrow> Some e)"

definition preload_winner_substrates ::
  "('p, 's, 'w) round_config \<Rightarrow> 's \<Rightarrow> (string \<times> string, run_row) dict result" where
  "preload_winner_substrates cfg s =
     (let parents = parent_stage_ids (rc_stages cfg); be = rc_backend cfg in
      if rc_round_idx cfg \<le> 1 \<or> parents = [] then Inr []
      else case be_load_winners be s (rc_experiment_tag cfg) (rc_round_idx cfg - 1) of
        Inl e \<Rightarrow> Inl e
      | Inr None \<Rightarrow> Inr []
      | Inr (Some prev) \<Rightarrow>
          (case query_error be s (rc_experiment_tag cfg) prev parents of
             Some e \<Rightarrow> Inl e
           | None \<Rightarrow> Inr (load_winner_substrates_for_round
               (\<lambda>tag st. case be_query_rows be s tag (Some st) of Inr rows \<Rightarrow> rows | Inl _ \<Rightarrow> [])
               prev parents (Some (rc_experiment_tag cfg)))))"

text \<open>The start of the event loop: the pairs and the winner rows are loaded, the order of stages is fixed.\<close>

definition begin_round ::
  "('p, 's, 'w) round_config \<Rightarrow> ('s, 'w) round_world
     \<Rightarrow> ((string \<times> string, run_row) dict \<times> ('p, 's, 'w) round_state) result" where
  "begin_round cfg w =
     (case round_pairs cfg of Inl e \<Rightarrow> Inl e
      | Inr pairs \<Rightarrow>
          (case preload_winner_substrates cfg (ro_store w) of Inl e \<Rightarrow> Inl e
           | Inr substrates \<Rightarrow>
               (case topo_order (rc_stages cfg) of Inl e \<Rightarrow> Inl e
                | Inr topo \<Rightarrow> Inr (substrates,
                    round_start topo pairs (w\<lparr>ro_attempted := [], ro_seen := {}, ro_infra := []\<rparr>)))))"

section \<open>After the pipelines\<close>

definition nonempty :: "('k, 'v) dict \<Rightarrow> ('k, 'v) dict option" where
  "nonempty d = (if d = [] then None else Some d)"

text \<open>\<open>{stage: sr.winner for stage, sr in report.stages.items() if sr.winner}\<close>.\<close>

definition stage_winners :: "ranking_report \<Rightarrow> (string, string) dict" where
  "stage_winners report = List.map_filter (\<lambda>(st, sr). if truthy (sr_winner sr) then Some (st, the (sr_winner sr)) else None)
     (rp_stages report)"

definition round_report :: "('p, 's, 'w) round_config \<Rightarrow> run_row list \<Rightarrow> ranking_report" where
  "round_report cfg rows = compute_ranking (rc_experiment_tag cfg) (rc_row_scorer cfg) (rc_gold_checker cfg) (3 / 10)
     (Some (\<lambda>uid. map_of (units_by_id (rc_task_units cfg)) uid)) rows"

text \<open>The call of \<open>promote\<close>; its coverage minimum is the default 0.7.\<close>

definition promote_round ::
  "'g randbelow \<Rightarrow> 'g \<Rightarrow> ('p, 's, 'w) round_config \<Rightarrow> (string, nat) dict \<Rightarrow> halving \<Rightarrow> ranking_report
     \<Rightarrow> (round_result \<times> halving) result" where
  "promote_round rb g cfg attempted h report =
     (let scores = apply_last_round_score_bonus (aggregate_stage_metric report sr_model_scores) h;
          eff_cost = aggregate_stage_metric report sr_model_eff_cost;
          latency = aggregate_stage_metric report sr_model_avg_latency_sec;
          units = hs_units_per_arm (rc_schedule cfg) ! nat (rc_round_idx cfg - 1)
      in promote rb g h (rc_round_idx cfg) scores eff_cost (Some (stage_winners report))
           (Some (map (\<lambda>kv. (fst kv, int (snd kv))) attempted))
           (Some (int (length (rc_stages cfg)) * units)) (7 / 10) (nonempty latency)
           (nonempty (build_per_task_unit_scores report)))"

text \<open>The result of a round: what \<open>promote\<close> returned, and the note on calls that could not be persisted.\<close>

record round_outcome =
  out_result :: round_result
  out_notes :: "nat list"

definition attach_infra_error_notes :: "infra_error list \<Rightarrow> nat list" where
  "attach_infra_error_notes infra = (if infra = [] then [] else [length infra])"

definition finish_round ::
  "'g randbelow \<Rightarrow> 'g \<Rightarrow> ('p, 's, 'w) round_config \<Rightarrow> ('s, 'w) round_world
     \<Rightarrow> round_outcome result \<times> ('s, 'w) round_world" where
  "finish_round rb g cfg w =
     (case be_query_rows (rc_backend cfg) (ro_store w) (rc_experiment_tag cfg) None of
        Inl e \<Rightarrow> (Inl e, w)
      | Inr rows \<Rightarrow>
          let report = round_report cfg rows in
          (case promote_round rb g cfg (ro_attempted w) (ro_halving w) report of
             Inl e \<Rightarrow> (Inl e, w)
           | Inr (res, h) \<Rightarrow>
               let ws = select_per_stage_winners report (rc_experiment_tag cfg) (rc_round_idx cfg) (Some (rs_candidates_out res));
                   (err, s) = be_persist_winners (rc_backend cfg) (rc_experiment_tag cfg) (rc_round_idx cfg) ws (ro_store w);
                   w' = w\<lparr>ro_store := s, ro_halving := h\<rparr>
               in (case err of Some e \<Rightarrow> (Inl e, w')
                   | None \<Rightarrow> (Inr \<lparr>out_result = res, out_notes = attach_infra_error_notes (ro_infra w)\<rparr>, w'))))"

text \<open>
  One round, for one schedule of its pipelines: begun, run to a state in which all have ended, finished.
  The result is the exception that leaves \<open>run_round\<close>, or the outcome.
\<close>

inductive run_round ::
  "'g randbelow \<Rightarrow> 'g \<Rightarrow> ('p, 's, 'w) round_config \<Rightarrow> ('s, 'w) round_world \<Rightarrow> round_outcome result
     \<Rightarrow> ('s, 'w) round_world \<Rightarrow> bool" where
  not_begun: "begin_round cfg w = Inl e \<Longrightarrow> run_round rb g cfg w (Inl e) w"
| complete: "begin_round cfg w = Inr (substrates, s0) \<Longrightarrow> (round_step rb g cfg substrates)\<^sup>*\<^sup>* s0 s \<Longrightarrow>
     (\<forall>p\<in>set (rd_pipes s). ended p) \<Longrightarrow> finish_round rb g cfg (rd_world s) = (res, w') \<Longrightarrow>
     run_round rb g cfg w res w'"

inductive_cases run_roundE: "run_round rb g cfg w (Inr out) w'"

section \<open>The coverage of a round\<close>

lemma filter_map_length: "length (List.map_filter f xs) \<le> length xs"
  by (induction xs) (simp_all add: List.map_filter_simps split: option.split)

lemma filter_map_all: "(\<And>x. x \<in> set xs \<Longrightarrow> f x \<noteq> None) \<Longrightarrow> length (List.map_filter f xs) = length xs"
proof (induction xs)
  case (Cons x xs)
  then have "f x \<noteq> None" "length (List.map_filter f xs) = length xs" by simp_all
  then show ?case by (auto simp: List.map_filter_simps)
qed (simp add: List.map_filter_simps)

lemma filter_map_fst:
  "filter (\<lambda>mt. fst mt = m) (List.map_filter (\<lambda>u. map_option (Pair n) (f u)) us) =
     (if n = m then List.map_filter (\<lambda>u. map_option (Pair n) (f u)) us else [])"
  by (induction us) (auto simp: List.map_filter_simps split: option.split)

lemma filter_concat_fst:
  assumes "distinct cs"
  shows "filter (\<lambda>mt. fst mt = m) (concat (map (\<lambda>n. List.map_filter (\<lambda>u. map_option (Pair n) (f u)) (us n)) cs)) =
    (if m \<in> set cs then List.map_filter (\<lambda>u. map_option (Pair m) (f u)) (us m) else [])"
  using assms by (induction cs) (auto simp: filter_map_fst)

lemma units_by_id_lookup: "map_of (units_by_id us) i \<noteq> None \<longleftrightarrow> i \<in> tu_id ` set us"
proof -
  have "map_of (fold (\<lambda>u. dset (tu_id u) u) us d) i \<noteq> None \<longleftrightarrow> i \<in> tu_id ` set us \<or> map_of d i \<noteq> None" for d
    by (induction us arbitrary: d) auto
  from this [of "[]"] show ?thesis by (simp add: units_by_id_def)
qed

text \<open>How often a model is paired: the units per arm, cut to the size of the pool.\<close>

abbreviation units_of_round :: "('p, 's, 'w) round_config \<Rightarrow> int" where
  "units_of_round cfg \<equiv> hs_units_per_arm (rc_schedule cfg) ! nat (rc_round_idx cfg - 1)"

lemma pairs_of_model:
  assumes "distinct (rc_candidates cfg)" "0 \<le> units_of_round cfg" "round_pairs cfg = Inr pairs"
  shows "int (length (filter (\<lambda>mt. fst mt = m) pairs)) =
    (if m \<in> set (rc_candidates cfg) then min (units_of_round cfg) (int (length (rc_task_units cfg))) else 0)"
proof -
  let ?ids = "map tu_id (rc_task_units cfg)" and ?n = "min (units_of_round cfg) (int (length (rc_task_units cfg)))"
  from assms(3) obtain d where d: "assign_task_units_for_round (rc_candidates cfg) ?ids (rc_round_idx cfg) (rc_schedule cfg) = Inr d"
    and pairs: "pairs = concat (map (\<lambda>m. List.map_filter (\<lambda>uid. map_option (Pair m) (map_of (units_by_id (rc_task_units cfg)) uid))
        (dget d m [])) (rc_candidates cfg))"
    by (auto simp: round_pairs_def Let_def split: sum.splits)
  have units: "dget d m [] = take (nat ?n) ?ids" if "m \<in> set (rc_candidates cfg)"
    using that assms(2) assign_units_lookup [OF d, of m] by (auto simp: dget_def slice_to_def)
  have "length (List.map_filter (\<lambda>uid. map_option (Pair m) (map_of (units_by_id (rc_task_units cfg)) uid)) (take (nat ?n) ?ids))
      = length (take (nat ?n) ?ids)"
  proof (rule filter_map_all)
    fix i
    assume "i \<in> set (take (nat ?n) ?ids)"
    then have "i \<in> tu_id ` set (rc_task_units cfg)" using set_take_subset [of "nat ?n" ?ids] by auto
    then show "map_option (Pair m) (map_of (units_by_id (rc_task_units cfg)) i) \<noteq> None"
      using units_by_id_lookup [of "rc_task_units cfg" i] by simp
  qed
  with units assms(2) show ?thesis
    unfolding pairs filter_concat_fst [OF assms(1)] by auto
qed

lemma begin_round_cases:
  assumes "begin_round cfg w = Inr (sb, s0)"
  obtains pairs topo where "round_pairs cfg = Inr pairs" "topo_order (rc_stages cfg) = Inr topo"
    "s0 = round_start topo pairs (w\<lparr>ro_attempted := [], ro_seen := {}, ro_infra := []\<rparr>)"
  using assms by (auto simp: begin_round_def split: sum.splits)

lemma topo_length: "stage_graph stages = Inr g \<Longrightarrow> topo_order stages = Inr topo \<Longrightarrow> length topo = length stages"
  by (auto simp: stage_graph_def Let_def split: if_splits sum.splits)

text \<open>The attempts a round can count for a model, and must count if nothing stops its pipelines.\<close>

definition full_coverage :: "('p, 's, 'w) round_config \<Rightarrow> string \<Rightarrow> int" where
  "full_coverage cfg m = (if m \<in> set (rc_candidates cfg)
     then min (units_of_round cfg) (int (length (rc_task_units cfg))) * int (length (rc_stages cfg)) else 0)"

lemma round_attempts:
  assumes "rng_ok rb" "begin_round cfg w = Inr (sb, s0)" "(round_step rb g cfg sb)\<^sup>*\<^sup>* s0 s"
    "stage_graph (rc_stages cfg) = Inr gs" "distinct (rc_candidates cfg)" "0 \<le> units_of_round cfg"
  shows "int (dget (ro_attempted (rd_world s)) m 0) \<le> full_coverage cfg m"
    and "ro_gate w = None \<Longrightarrow> \<forall>p\<in>set (rd_pipes s). pp_todo p = [] \<Longrightarrow>
      int (dget (ro_attempted (rd_world s)) m 0) = full_coverage cfg m"
proof -
  from assms(2) obtain pairs topo where pairs: "round_pairs cfg = Inr pairs" and topo: "topo_order (rc_stages cfg) = Inr topo"
    and s0: "s0 = round_start topo pairs (w\<lparr>ro_attempted := [], ro_seen := {}, ro_infra := []\<rparr>)"
    by (rule begin_round_cases)
  from assms(3) have run: "(round_step rb g cfg sb)\<^sup>*\<^sup>*
      (round_start topo pairs (w\<lparr>ro_attempted := [], ro_seen := {}, ro_infra := []\<rparr>)) s" by (simp add: s0)
  have most: "full_coverage cfg m = int (length (filter (\<lambda>mt. fst mt = m) pairs) * length topo)"
    unfolding full_coverage_def topo_length [OF assms(4) topo] of_nat_mult pairs_of_model [OF assms(5,6) pairs] by simp
  note att = attempts_run [OF assms(1) run, of m]
  from att show "int (dget (ro_attempted (rd_world s)) m 0) \<le> full_coverage cfg m"
    unfolding most of_nat_le_iff by simp
  assume "ro_gate w = None" "\<forall>p\<in>set (rd_pipes s). pp_todo p = []"
  then have "stages_left m s = 0" by (auto simp: stages_left_def left_of_def)
  with att \<open>ro_gate w = None\<close> show "int (dget (ro_attempted (rd_world s)) m 0) = full_coverage cfg m"
    unfolding most of_nat_eq_iff by simp
qed

lemma promote_all_excluded:
  assumes "promote rb g h k scores ec winners (Some att) (Some n) (7 / 10) lat ptu = Inr (r, h')" "0 < n"
    "\<And>m. of_int (dget att m 0) / of_int n < (7 / 10 :: real)"
  shows "rs_candidates_out r = []"
proof -
  have "gated_scores scores (Some att) (Some n) (7 / 10) = []"
    using assms(2,3) by (force simp: gated_scores_def without_def coverage_gate_def filter_empty_conv)
  with assms(1) show ?thesis by (cases rule: promote_cases) auto
qed

text \<open>A pipeline that ran through has no stage left.\<close>

definition finished_ok :: "'p pipe \<Rightarrow> bool" where
  "finished_ok p \<longleftrightarrow> (pp_phase p = Ended Finished \<longrightarrow> pp_todo p = [])"

lemma finished_kept: "pipe_trans rb g cfg p w p' w' \<Longrightarrow> finished_ok p \<Longrightarrow> finished_ok p'"
proof (induction rule: pipe_trans.cases)
  case (skip w1 ctx p' w')
  then show ?case by (simp add: finished_ok_def next_stage_fields)
next
  case (finish an w1 p' w')
  then show ?case by (simp add: finished_ok_def finish_call_fields)
next
  case (move c ph w')
  then show ?case by (cases ph) (auto simp: finished_ok_def)
qed (auto simp: finished_ok_def stop_pipe_def)

interpretation finished: pipe_invariant "\<lambda>_. finished_ok" topo for topo
  by unfold_locales (simp add: finished_ok_def start_pipe_def case_prod_beta, erule (1) finished_kept)

text \<open>The arguments of the coverage gate as \<open>run_round\<close> passes them.\<close>

abbreviation attempts_arg :: "('s, 'w) round_world \<Rightarrow> (string, int) dict option" where
  "attempts_arg w \<equiv> Some (map (\<lambda>kv. (fst kv, int (snd kv))) (ro_attempted w))"

abbreviation stages_arg :: "('p, 's, 'w) round_config \<Rightarrow> int option" where
  "stages_arg cfg \<equiv> Some (int (length (rc_stages cfg)) * units_of_round cfg)"

lemma dget_attempts: "dget (map (\<lambda>kv. (fst kv, int (snd kv))) d) m 0 = int (dget d m 0)"
  by (induction d) (auto simp: dget_def)

lemma begun_units_pos:
  assumes "begin_round cfg w = Inr (sb, s0)" "schedule_ok (rc_schedule cfg)"
  shows "0 < units_of_round cfg"
proof -
  from assms(1) have "1 \<le> rc_round_idx cfg" "rc_round_idx cfg \<le> int (length (hs_units_per_arm (rc_schedule cfg)))"
    by (auto simp: begin_round_def round_pairs_def assign_task_units_for_round_def split: sum.splits if_splits)
  then have "nat (rc_round_idx cfg - 1) < length (hs_round_sizes (rc_schedule cfg))"
    using assms(2) by (simp add: schedule_ok_def)
  with assms(2) show ?thesis by (simp add: schedule_ok_nth)
qed

lemma coverage_ratio:
  assumes "0 < u" "stages \<noteq> []"
  shows "real_of_int (min u n * int (length stages)) / real_of_int (int (length stages) * u) = min 1 (real_of_int n / real_of_int u)"
  using assms by (auto simp: min_def field_simps)

section \<open>Properties\<close>

text \<open>
  Coverage of an undisturbed round. Without a budget gate, when every pipeline has run through,
  the gate excludes a candidate exactly if the pool of task units is smaller than seven tenths of the
  units per arm. With a large enough pool no candidate can fail it, whatever the provider did.
\<close>

theorem undisturbed_round_coverage:
  assumes "rng_ok rb" "begin_round cfg w = Inr (sb, s0)" "(round_step rb g cfg sb)\<^sup>*\<^sup>* s0 s"
    "\<forall>p\<in>set (rd_pipes s). pp_phase p = Ended Finished" "ro_gate w = None"
    "stage_graph (rc_stages cfg) = Inr gs" "rc_stages cfg \<noteq> []" "distinct (rc_candidates cfg)"
    "schedule_ok (rc_schedule cfg)" "m \<in> set (rc_candidates cfg)"
  shows "m \<in> fst ` set (coverage_gate scores (attempts_arg (rd_world s)) (stages_arg cfg) (7 / 10)) \<longleftrightarrow>
    m \<in> fst ` set scores \<and> real (length (rc_task_units cfg)) < 7 / 10 * real_of_int (units_of_round cfg)"
proof -
  have pos: "0 < units_of_round cfg" using assms(2,9) by (rule begun_units_pos)
  from assms(2) obtain topo pairs where s0: "s0 = round_start topo pairs (w\<lparr>ro_attempted := [], ro_seen := {}, ro_infra := []\<rparr>)"
    by (rule begin_round_cases) blast
  have "pp_todo p = []" if "p \<in> set (rd_pipes s)" for p
    using finished.holds_in_round [OF assms(1) assms(3) [unfolded s0] that] assms(4) that by (simp add: finished_ok_def)
  then have "int (dget (ro_attempted (rd_world s)) m 0) = full_coverage cfg m"
    using round_attempts(2) [OF assms(1,2,3,6,8) less_imp_le [OF pos] assms(5)] by blast
  then have "of_int (dget (map (\<lambda>kv. (fst kv, int (snd kv))) (ro_attempted (rd_world s))) m 0)
      / of_int (int (length (rc_stages cfg)) * units_of_round cfg)
      = min 1 (real (length (rc_task_units cfg)) / real_of_int (units_of_round cfg))"
    unfolding dget_attempts using assms(10) coverage_ratio [OF pos assms(7), of "int (length (rc_task_units cfg))"]
    by (simp add: full_coverage_def)
  then show ?thesis
    using pos assms(7) by (auto simp: coverage_gate_def image_iff field_simps min_def)
qed

text \<open>
  C17: A pool smaller than seven tenths of the units per arm eliminates everybody. The assignment of
  task units only warns and cuts to the pool, but the coverage gate counts against the uncut units per
  arm, so whatever happens in the round, no candidate reaches the required share and none is promoted.
\<close>

theorem small_pool_promotes_nobody:
  assumes "rng_ok rb" "run_round rb g cfg w (Inr out) w'"
    "real (length (rc_task_units cfg)) < 7 / 10 * real_of_int (units_of_round cfg)"
    "stage_graph (rc_stages cfg) = Inr gs" "rc_stages cfg \<noteq> []" "distinct (rc_candidates cfg)"
    "schedule_ok (rc_schedule cfg)"
  shows "rs_candidates_out (out_result out) = []"
  using assms(2)
proof (cases rule: run_round.cases)
  case (complete sb s0 s)
  have pos: "0 < units_of_round cfg" using complete(1) assms(7) by (rule begun_units_pos)
  have small: "of_int (dget (map (\<lambda>kv. (fst kv, int (snd kv))) (ro_attempted (rd_world s))) m 0)
      / of_int (int (length (rc_stages cfg)) * units_of_round cfg) < (7 / 10 :: real)" for m
  proof -
    let ?n = "int (length (rc_stages cfg)) * units_of_round cfg"
    have n: "0 < ?n" using pos assms(5) by simp
    have "int (dget (ro_attempted (rd_world s)) m 0) \<le> full_coverage cfg m"
      using round_attempts(1) [OF assms(1) complete(1,2) assms(4,6) less_imp_le [OF pos]] .
    also have "\<dots> \<le> int (length (rc_task_units cfg)) * int (length (rc_stages cfg))"
      by (simp add: full_coverage_def mult_right_mono)
    finally have "real (dget (ro_attempted (rd_world s)) m 0) \<le> real (length (rc_task_units cfg)) * real (length (rc_stages cfg))"
      by (metis of_nat_le_iff of_nat_mult)
    also have "\<dots> < 7 / 10 * real_of_int ?n"
      using assms(3,5) mult_strict_right_mono [OF assms(3), of "real (length (rc_stages cfg))"] by (simp add: mult_ac)
    finally show ?thesis unfolding dget_attempts using n by (simp add: divide_less_eq)
  qed
  from complete(4) obtain rows h' where "promote_round rb g cfg (ro_attempted (rd_world s)) (ro_halving (rd_world s))
      (round_report cfg rows) = Inr (out_result out, h')"
    by (auto simp: finish_round_def Let_def split: sum.splits prod.splits option.splits)
  from promote_all_excluded [OF this [unfolded promote_round_def Let_def] _ small] pos assms(5) show ?thesis by simp
qed

section \<open>A whole round\<close>

definition solo_config :: "int \<Rightarrow> (unit, unit, unit) round_config" where
  "solo_config units = (demo_config (demo_stage ''s'' False) None)
     \<lparr>rc_candidates := [''a''], rc_task_units := [demo_unit],
      rc_schedule := \<lparr>hs_round_sizes = [1], hs_units_per_arm = [units], hs_pool_size = 1\<rparr>,
      rc_backend := (demo_backend None)\<lparr>be_query_rows := (\<lambda>_ _ _. Inr [(good_row ''t'')\<lparr>rr_model := ''a''\<rparr>])\<rparr>\<rparr>"

abbreviation solo_state :: "int \<Rightarrow> nat \<Rightarrow> (unit, unit, unit) round_state" where
  "solo_state units n \<equiv> drive n counter_rng 0 (solo_config units) [] (demo_start False None)"

lemma solo_begins:
  "0 < units \<Longrightarrow> begin_round (solo_config units) (demo_world None) = Inr ([], demo_start False None)"
  by (simp add: begin_round_def round_pairs_def solo_config_def demo_config_def assign_task_units_for_round_def
      units_by_id_def demo_unit_def List.map_filter_simps preload_winner_substrates_def Let_def slice_to_def dget_def
      topo_order_def stages_by_id_def visit.simps demo_stage_def demo_world_def)

lemma solo_ends:
  "map pp_phase (rd_pipes (solo_state units 10)) = [Ended Finished]"
  "hv_schedule (ro_halving (rd_world (solo_state units 10))) = default_schedule"
  by (simp_all add: drive_simps solo_config_def no_telemetry_def resume_put_def cache_entry_def call_row_def row_provider_def
      provider_identity_def make_cache_key_def)

lemma solo_reachable: "(round_step counter_rng 0 (solo_config units) [])\<^sup>*\<^sup>* (demo_start False None) (solo_state units n)"
  by (rule drive_reachable)

lemma solo_fields:
  "rc_candidates (solo_config n) = [''a'']" "rc_task_units (solo_config n) = [demo_unit]" "units_of_round (solo_config n) = n"
  "rc_stages (solo_config n) \<noteq> []" "stage_graph (rc_stages (solo_config n)) = Inr (rc_stages (solo_config n))"
  "0 < n \<Longrightarrow> schedule_ok (rc_schedule (solo_config n))"
  by (simp_all add: solo_config_def demo_config_def stage_graph_def stage_ids_def missing_parent_def demo_stage_def
      topo_order_def stages_by_id_def visit.simps Let_def schedule_ok_def)

corollary undisturbed_round_coverage_witness:
  "coverage_gate [(''a'', 1)] (attempts_arg (rd_world (solo_state 1 10))) (stages_arg (solo_config 1)) (7 / 10) = []"
proof -
  have ended: "\<forall>p\<in>set (rd_pipes (solo_state 1 10)). pp_phase p = Ended Finished"
    using solo_ends(1) [of 1] by (auto simp: map_eq_Cons_conv)
  have "''a'' \<notin> fst ` set (coverage_gate [(''a'', 1)] (attempts_arg (rd_world (solo_state 1 10))) (stages_arg (solo_config 1)) (7 / 10))"
    using undisturbed_round_coverage [OF counter_rng_ok solo_begins solo_reachable ended _ solo_fields(5,4) _ solo_fields(6),
        where m = "''a''" and scores = "[(''a'', 1)]"]
    by (simp add: solo_fields demo_world_def)
  then show ?thesis by (auto simp: coverage_gate_def split: if_splits)
qed

corollary small_pool_promotes_nobody_witness:
  "\<exists>out w'. run_round counter_rng 0 (solo_config 4) (demo_world None) (Inr out) w' \<and> rs_candidates_out (out_result out) = []"
proof -
  have ended: "\<forall>p\<in>set (rd_pipes (solo_state 4 10)). ended p"
    using solo_ends(1) [of 4] by (auto simp: map_eq_Cons_conv ended_def)
  let ?w = "rd_world (solo_state 4 10)"
  have "\<exists>out w'. finish_round counter_rng 0 (solo_config 4) ?w = (Inr out, w')"
  proof -
    have "\<nexists>e. promote_round counter_rng 0 (solo_config 4) (ro_attempted ?w) (ro_halving ?w) r = Inl e" for r
      unfolding promote_round_def Let_def promote_raises solo_ends(2) default_schedule_def by (simp add: solo_config_def demo_config_def)
    then obtain p where "promote_round counter_rng 0 (solo_config 4) (ro_attempted ?w) (ro_halving ?w)
        (round_report (solo_config 4) [(good_row ''t'')\<lparr>rr_model := ''a''\<rparr>]) = Inr p"
      by (metis sum.exhaust)
    then show ?thesis
      by (cases p) (simp add: finish_round_def Let_def solo_config_def demo_config_def demo_backend_def)
  qed
  then obtain out w' where "finish_round counter_rng 0 (solo_config 4) ?w = (Inr out, w')" by blast
  with solo_begins solo_reachable ended have run: "run_round counter_rng 0 (solo_config 4) (demo_world None) (Inr out) w'"
    by (intro run_round.complete) auto
  have "rs_candidates_out (out_result out) = []"
    by (rule small_pool_promotes_nobody [OF counter_rng_ok run]) (simp_all add: solo_fields)
  with run show ?thesis by blast
qed

end
