(* ===== verification/Storage_Keeper.thy ===== *)
theory Storage_Keeper
  imports Round_Runner
begin

text \<open>
  What the pipelines of a round do to the storage: which step writes what, the locale \<open>store_keeper\<close>
  for a property of the storage state that every operation of a round keeps, and its extension
  \<open>answering_store\<close> for a storage that keeps answering the final reads and writes of a round.
\<close>

section \<open>Answers on their way to the mirror\<close>

text \<open>The key under which a pipeline is about to extend the mirror, its row being stored already.\<close>

definition about_to_put :: "'p pipe \<Rightarrow> cache_key \<Rightarrow> bool" where
  "about_to_put p k = (case pp_phase p of
       Recorded an \<Rightarrow> row_cache_key (an_row an) = k \<and> usable (an_row an)
     | Costed an \<Rightarrow> row_cache_key (an_row an) = k \<and> usable (an_row an)
     | _ \<Rightarrow> False)"

text \<open>A completed call with a usable row carries the entry for its own key.\<close>

definition answer_ok :: "('p, 's, 'w) round_config \<Rightarrow> 'p pipe \<Rightarrow> answer \<Rightarrow> bool" where
  "answer_ok cfg p an \<longleftrightarrow> (usable (an_row an) \<longrightarrow> (\<exists>c. an_to_cache an = Some c \<and>
     make_cache_key (cr_composite_hash c) (row_provider cfg) (pp_model p) (cr_thinking c) = row_cache_key (an_row an)))"

definition carries_ok :: "('p, 's, 'w) round_config \<Rightarrow> 'p pipe \<Rightarrow> bool" where
  "carries_ok cfg p = (case pp_phase p of
       Answered an \<Rightarrow> answer_ok cfg p an | Recorded an \<Rightarrow> answer_ok cfg p an | Costed an \<Rightarrow> answer_ok cfg p an
     | _ \<Rightarrow> True)"

lemma usable_cacheable:
  assumes "usable row" "rr_response row = resp" "rr_error_class row = err" "rr_parse_failure_prefix row = pfp"
    "classify_call_outcome err resp parsed = (pfp, spent, cacheable)"
  shows "spent \<and> cacheable"
proof -
  obtain r where r: "resp = Some r" "20 \<le> length r" "\<not> truthy err" "\<not> truthy pfp"
    using assms(1-4) by (auto simp: row_usable_def is_row_usable_iff MIN_USABLE_RESPONSE_LEN_def)
  then have "r \<noteq> []" by auto
  with r assms(5) show ?thesis by (cases parsed) (auto simp: classify_call_outcome_def)
qed

lemma called_answer_ok:
  assumes "pp_phase p = Calling pr res t0" "calling_step cfg stg pr res t0 p w = (p', w')"
  shows "carries_ok cfg p' \<and> ro_store w' = ro_store w \<and> ro_cache w' = ro_cache w \<and> (\<forall>k. \<not> about_to_put p' k)"
proof -
  obtain co lw where co: "call_llm_guarded (rc_llm cfg) (pr_call_model pr) (pr_system pr) (pr_user pr)
      (stage_generate_kwargs stg (pr_call_model pr) (pr_system pr) (pr_user pr)) t0 (ro_llm w) = (co, lw)" by fastforce
  show ?thesis
    using assms(2)
    by (auto simp: calling_step_def co Let_def carries_ok_def answer_ok_def about_to_put_def row_cache_key_def
        cache_entry_def call_row_def split: prod.splits
        dest!: usable_cacheable [where resp = "co_response co" and err = "co_error_class co", rotated 4])
qed

lemma failed_prompt_unusable: "\<not> usable (failed_prompt_row cfg stg tu m e)"
  by (simp add: failed_prompt_row_def row_usable_def is_row_usable_iff)

text \<open>No other step than that of a call makes an answer.\<close>

definition no_answer :: "'p pipe \<Rightarrow> bool" where
  "no_answer p \<longleftrightarrow> (case pp_phase p of Answered _ \<Rightarrow> False | Recorded _ \<Rightarrow> False | Costed _ \<Rightarrow> False | _ \<Rightarrow> True)"

lemma no_answer_facts: "no_answer p \<Longrightarrow> carries_ok cfg p" "no_answer p \<Longrightarrow> \<not> about_to_put p k"
  by (auto simp: no_answer_def carries_ok_def about_to_put_def split: phase.splits)

lemma no_answer_phases [simp]:
  "no_answer (p\<lparr>pp_phase := Ready\<rparr>)" "no_answer (p\<lparr>pp_phase := Missed pr\<rparr>)" "no_answer (p\<lparr>pp_phase := Ended e\<rparr>)"
  "no_answer (p\<lparr>pp_phase := Admitted pr res\<rparr>)" "no_answer (p\<lparr>pp_phase := Prompted pr res\<rparr>)"
  "no_answer (p\<lparr>pp_phase := Holding pr res\<rparr>)" "no_answer (p\<lparr>pp_phase := Calling pr res t\<rparr>)"
  by (simp_all add: no_answer_def)

lemma finish_call_quiet:
  assumes "finish_call err p w = (p', w')"
  shows "no_answer p' \<and> ro_store w' = ro_store w \<and> ro_cache w' = ro_cache w"
  using assms by (auto simp: finish_call_def next_stage_def update_error_history_def Let_def split: if_splits)

lemma ready_step_quiet:
  assumes "ready_step rb g cfg sb p w = (p', w')"
  shows "no_answer p' \<and> ro_cache w' = ro_cache w \<and> (ro_store w' = ro_store w \<or>
    (\<exists>now r. \<not> usable r \<and> ro_store w' = snd (be_record_call (rc_backend cfg) now r (ro_store w))))"
  using assms unfolding ready_step_def stop_pipe_def next_stage_def Let_def
  by (auto simp: failed_prompt_unusable split: list.splits if_splits sum.splits option.splits prod.splits
      intro!: exI [where x = "failed_prompt_row _ _ _ _ _"] exI [where x = "lm_now _ _"] dest: arg_cong [where f = snd])

lemma admitted_step_quiet:
  assumes "admitted_step cfg pr res p w = (p', w')"
  shows "no_answer p' \<and> ro_cache w' = ro_cache w \<and> (ro_store w' = ro_store w \<or>
    ro_store w' = snd (be_upsert_prompts (rc_backend cfg) (pr_system pr) (pr_user pr) (ro_store w)))"
  using assms
  by (auto simp: admitted_step_def stop_pipe_def Let_def split: if_splits prod.splits option.splits
      dest: arg_cong [where f = snd])

section \<open>What storage keeps\<close>

lemma pipe_step_store:
  assumes "pipe_step rb g cfg sb p w = (p', w')"
  shows "ro_store w' = ro_store w
    \<or> (\<exists>now r. ro_store w' = snd (be_record_call (rc_backend cfg) now r (ro_store w)))
    \<or> (\<exists>a b. ro_store w' = snd (be_upsert_prompts (rc_backend cfg) a b (ro_store w)))"
proof (cases "pp_phase p")
  case Ready
  with assms ready_step_quiet [of rb g cfg sb p w p' w'] show ?thesis by (auto simp: pipe_step_def)
next
  case (Missed pr)
  with assms show ?thesis
    by (auto simp: pipe_step_def missed_step_def split: option.splits sum.splits prod.splits if_splits)
next
  case (Admitted pr res)
  with assms admitted_step_quiet [of cfg pr res p w p' w'] show ?thesis by (auto simp: pipe_step_def)
next
  case (Calling pr res t0)
  with assms called_answer_ok [OF Calling, of cfg "hd (pp_todo p)" w p' w'] show ?thesis by (simp add: pipe_step_def)
next
  case (Answered an)
  obtain err s where "be_record_call (rc_backend cfg) (lm_now (rc_llm cfg) (ro_llm w)) (an_row an) (ro_store w) = (err, s)"
    by fastforce
  with Answered assms have "ro_store w' = s"
    by (auto simp: pipe_step_def answered_step_def Let_def split: option.splits dest: finish_call_quiet)
  with \<open>be_record_call _ _ _ _ = (err, s)\<close> show ?thesis by (metis snd_conv)
next
  case (Costed an)
  with assms show ?thesis
    by (auto simp: pipe_step_def costed_step_def split: option.splits dest: finish_call_quiet)
qed (use assms in \<open>auto simp: pipe_step_def recorded_step_def\<close>)

text \<open>A property of the storage state that every operation of a round keeps.\<close>

locale store_keeper =
  fixes be :: "'s backend" and P :: "'s \<Rightarrow> bool"
  assumes record_keeps: "P s \<Longrightarrow> P (snd (be_record_call be now r s))"
    and upsert_keeps: "P s \<Longrightarrow> P (snd (be_upsert_prompts be a b s))"
    and persist_keeps: "P s \<Longrightarrow> P (snd (be_persist_winners be tag n ws s))"
begin

lemma kept_by_steps:
  fixes cfg :: "('p, 's, 'w) round_config"
  assumes "(round_step rb g cfg sb)\<^sup>*\<^sup>* s t" "rc_backend cfg = be" "P (ro_store (rd_world s))"
  shows "P (ro_store (rd_world t))"
  using assms(1)
proof (induction rule: rtranclp_induct)
  case (step t u)
  from step(2) show ?case
  proof (elim round_step_trans)
    fix i p' w'
    assume "pipe_step rb g cfg sb (rd_pipes t ! i) (rd_world t) = (p', w')"
      and u: "u = \<lparr>rd_pipes = (rd_pipes t)[i := p'], rd_world = w'\<rparr>"
    from pipe_step_store [OF this(1)] step.IH show ?thesis
      by (auto simp: assms(2) u record_keeps upsert_keeps)
  qed
qed (rule assms(3))

lemma kept_by_round:
  fixes cfg :: "('p, 's, 'w) round_config"
  assumes "run_round rb g cfg w res w'" "rc_backend cfg = be" "P (ro_store w)"
  shows "P (ro_store w')"
  using assms(1)
proof (cases rule: run_round.cases)
  case (complete sb s0 s)
  from complete(1) obtain pairs topo where "s0 = round_start topo pairs (w\<lparr>ro_attempted := [], ro_seen := {}, ro_infra := []\<rparr>)"
    by (rule begin_round_cases) blast
  with kept_by_steps [OF complete(2) assms(2)] assms(3) have "P (ro_store (rd_world s))" by (simp add: round_start_def)
  with complete(4) persist_keeps show ?thesis
    by (auto simp: finish_round_def Let_def assms(2) split: sum.splits prod.splits option.splits
        dest!: arg_cong [where f = snd and x = "be_persist_winners _ _ _ _ _"])
qed (use assms(3) in simp)

end

section \<open>Storage that answers\<close>

text \<open>
  While \<open>P\<close> holds, the reads of a round and the write of its winners succeed for the tag of the
  experiment. Nothing is said of prompts and of single rows, whose writes may fail.
\<close>

locale answering_store = store_keeper be P for be :: "'s backend" and P +
  fixes tag :: string
  assumes query_answers: "P s \<Longrightarrow> \<exists>rows. be_query_rows be s tag stg = Inr rows"
    and winners_answer: "P s \<Longrightarrow> \<exists>ws. be_load_winners be s tag k = Inr ws"
    and persist_answers: "P s \<Longrightarrow> fst (be_persist_winners be tag k win s) = None"

end
