(* ===== verification/Round_Outcome.thy ===== *)
theory Round_Outcome
  imports Storage_Keeper
begin

text \<open>
  What a round as a whole guarantees to the phase around it: its survivors are candidates it was given,
  and every run of its event loop can be completed.
\<close>

section \<open>The driver keeps its schedule\<close>

lemma schedule_kept_trans:
  "pipe_trans rb g cfg p w p' w' \<Longrightarrow> hv_schedule (ro_halving w') = hv_schedule (ro_halving w)"
proof (induction rule: pipe_trans.cases)
  case (skip w1 ctx p' w')
  then show ?case by (simp add: next_stage_fields same_counters_def)
next
  case (finish an w1 p' w')
  then show ?case by (simp add: finish_call_fields same_counters_def)
qed (simp_all add: same_counters_def)

lemma schedule_kept_run:
  assumes "(round_step rb g cfg sb)\<^sup>*\<^sup>* s s'"
  shows "hv_schedule (ro_halving (rd_world s')) = hv_schedule (ro_halving (rd_world s))"
  using assms
proof (induction rule: rtranclp_induct)
  case (step t u)
  from step(2) have "hv_schedule (ro_halving (rd_world u)) = hv_schedule (ro_halving (rd_world t))"
    by (elim round_step_trans) (simp add: schedule_kept_trans)
  with step.IH show ?case by simp
qed simp

lemma schedule_kept_promote:
  "promote rb g h k scores ec winners att n_total cmin lat ptu = Inr (r, h') \<Longrightarrow> hv_schedule h' = hv_schedule h"
  by (erule promote_cases) auto

lemma schedule_kept_begun:
  assumes "begin_round cfg w = Inr (sb, s0)" "(round_step rb g cfg sb)\<^sup>*\<^sup>* s0 s"
  shows "hv_schedule (ro_halving (rd_world s)) = hv_schedule (ro_halving w)"
  using schedule_kept_run [OF assms(2)] assms(1) by (elim begin_round_cases) (simp add: round_start_def)

section \<open>The survivors of a promotion\<close>

lemma promoted_passed_gate:
  assumes "dict_ok scores" "promote rb g h k scores ec winners att n_total cmin lat ptu = Inr (r, h')"
  shows "distinct (rs_candidates_out r)"
    and "set (rs_candidates_out r) \<subseteq> fst ` set scores - fst ` set (coverage_gate scores att n_total cmin)"
    and "schedule_ok (hv_schedule h) \<Longrightarrow> k = int (length (hs_round_sizes (hv_schedule h))) \<Longrightarrow> length (rs_candidates_out r) \<le> 1"
proof -
  have "distinct (rs_candidates_out r) \<and>
      set (rs_candidates_out r) \<subseteq> fst ` set scores - fst ` set (coverage_gate scores att n_total cmin) \<and>
      (schedule_ok (hv_schedule h) \<longrightarrow> k = int (length (hs_round_sizes (hv_schedule h))) \<longrightarrow> length (rs_candidates_out r) \<le> 1)"
    using assms(2)
  proof (cases rule: promote_cases)
    case (decided n S lb ex sc st)
    note spec = decided_spec [OF assms(1) decided(3,4,7)]
    let ?cut = "halving_cut n sc (without ex ec) (map_option (without ex) lat)"
    have sc: "dict_ok sc" "fst ` set sc = fst ` set scores - fst ` set ex"
      using decided(3,4) assms(1) by (simp_all add: gated_scores_def)
    have sub: "set (pl_promoted st) \<subseteq> fst ` set sc"
      using spec(2) halving_cut_facts(2) [OF sc(1), of n "without ex ec" "map_option (without ex) lat"]
      by (auto simp: force_promoted_def split: if_splits)
    have "length (pl_promoted st) \<le> 1" if "schedule_ok (hv_schedule h)" and last: "k = int (length (hs_round_sizes (hv_schedule h)))"
    proof -
      have "n = 1" using decided(2) last by (simp add: next_round_size_def split: if_splits)
      then have "length ?cut \<le> 1" using halving_cut_facts(3) [OF sc(1), of n] by simp
      then show ?thesis using spec(3) [OF last] length_filter_le [of _ ?cut] by (metis le_trans)
    qed
    with spec(1) sub show ?thesis unfolding decided(9) by (auto simp: locals_ok_def sc(2) decided(3))
  qed simp_all
  then show "distinct (rs_candidates_out r)"
    "set (rs_candidates_out r) \<subseteq> fst ` set scores - fst ` set (coverage_gate scores att n_total cmin)"
    "schedule_ok (hv_schedule h) \<Longrightarrow> k = int (length (hs_round_sizes (hv_schedule h))) \<Longrightarrow> length (rs_candidates_out r) \<le> 1"
    by auto
qed

lemma dict_ok_bonus: "dict_ok scores \<Longrightarrow> dict_ok (apply_last_round_score_bonus scores h)"
proof -
  have "dict_ok d \<Longrightarrow> dict_ok (fold bonus_step bs d)" for bs and d :: "(string, real) dict"
    by (induction bs arbitrary: d) (auto simp: bonus_step_def split: option.split)
  then show "dict_ok scores \<Longrightarrow> dict_ok (apply_last_round_score_bonus scores h)"
    by (simp add: apply_last_round_score_bonus_def)
qed

lemma dict_ok_aggregate: "dict_ok (aggregate_stage_metric report f)"
  using dict_ok_stage_sums [of "[]" f "rp_stages report"]
  by (simp add: aggregate_stage_metric_def Let_def stage_sums_def dict_ok_def comp_def)

section \<open>The survivors of a round\<close>

lemma finish_round_promotes:
  assumes "finish_round rb g cfg w = (Inr out, w')"
  obtains rows where
    "promote_round rb g cfg (ro_attempted w) (ro_halving w) (round_report cfg rows) = Inr (out_result out, ro_halving w')"
    "ro_llm w' = ro_llm w" "ro_cache w' = ro_cache w" "ro_gate w' = ro_gate w"
  using assms by (auto simp: finish_round_def Let_def split: sum.splits prod.splits option.splits)

lemma round_survivors:
  assumes "rng_ok rb" "run_round rb g cfg w (Inr out) w'" "stage_graph (rc_stages cfg) = Inr gs" "rc_stages cfg \<noteq> []"
    "distinct (rc_candidates cfg)" "schedule_ok (rc_schedule cfg)" "hv_schedule (ro_halving w) = rc_schedule cfg"
  shows "set (rs_candidates_out (out_result out)) \<subseteq> set (rc_candidates cfg)"
    and "distinct (rs_candidates_out (out_result out))"
    and "rc_round_idx cfg = int (length (hs_round_sizes (rc_schedule cfg))) \<Longrightarrow> length (rs_candidates_out (out_result out)) \<le> 1"
    and "hv_schedule (ro_halving w') = rc_schedule cfg"
proof -
  from assms(2) obtain sb s0 s where r: "begin_round cfg w = Inr (sb, s0)" "(round_step rb g cfg sb)\<^sup>*\<^sup>* s0 s"
    "finish_round rb g cfg (rd_world s) = (Inr out, w')" by (cases rule: run_round.cases) blast
  obtain rows where "promote_round rb g cfg (ro_attempted (rd_world s)) (ro_halving (rd_world s)) (round_report cfg rows)
      = Inr (out_result out, ro_halving w')" using r(3) by (rule finish_round_promotes)
  note prom = this [unfolded promote_round_def Let_def]
  have pos: "0 < units_of_round cfg" using r(1) assms(6) by (rule begun_units_pos)
  have sched: "hv_schedule (ro_halving (rd_world s)) = rc_schedule cfg"
    using schedule_kept_run [OF r(2)] r(1) assms(7) by (elim begin_round_cases) (simp add: round_start_def)
  note passed = promoted_passed_gate [OF dict_ok_bonus [OF dict_ok_aggregate] prom]
  show "distinct (rs_candidates_out (out_result out))" by (rule passed(1))
  show "length (rs_candidates_out (out_result out)) \<le> 1"
    if "rc_round_idx cfg = int (length (hs_round_sizes (rc_schedule cfg)))"
    using passed(3) assms(6) that by (simp add: sched)
  show "hv_schedule (ro_halving w') = rc_schedule cfg" using schedule_kept_promote [OF prom] sched by simp
  show "set (rs_candidates_out (out_result out)) \<subseteq> set (rc_candidates cfg)"
  proof
    fix m
    assume "m \<in> set (rs_candidates_out (out_result out))"
    with passed(2) have m: "m \<in> fst ` set (apply_last_round_score_bonus
          (aggregate_stage_metric (round_report cfg rows) sr_model_scores) (ro_halving (rd_world s)))"
      "m \<notin> fst ` set (coverage_gate (apply_last_round_score_bonus
          (aggregate_stage_metric (round_report cfg rows) sr_model_scores) (ro_halving (rd_world s)))
          (attempts_arg (rd_world s)) (stages_arg cfg) (7 / 10))" by auto
    then have "\<not> of_int (int (dget (ro_attempted (rd_world s)) m 0)) / of_int (int (length (rc_stages cfg)) * units_of_round cfg)
        < (7 / 10 :: real)"
      using pos assms(4) by (force simp: coverage_gate_def dget_attempts image_iff)
    then have "0 < dget (ro_attempted (rd_world s)) m 0" by (cases "dget (ro_attempted (rd_world s)) m 0") auto
    then have "0 < full_coverage cfg m"
      using round_attempts(1) [OF assms(1) r(1,2) assms(3,5) less_imp_le [OF pos], of m] by linarith
    then show "m \<in> set (rc_candidates cfg)" by (auto simp: full_coverage_def split: if_splits)
  qed
qed

section \<open>Every round can be completed\<close>

lemma run_to_end:
  assumes "rng_ok rb" "0 < rc_global_concurrency cfg" "\<forall>(op, n)\<in>set (rc_per_op_concurrency cfg). 0 < n"
    "(round_step rb g cfg sb)\<^sup>*\<^sup>* (round_start topo pairs w) s"
  shows "\<exists>s'. (round_step rb g cfg sb)\<^sup>*\<^sup>* s s' \<and> (\<forall>p\<in>set (rd_pipes s'). ended p)"
  using assms(4)
proof (induction "round_weight s" arbitrary: s rule: less_induct)
  case less
  show ?case
  proof (cases "\<forall>p\<in>set (rd_pipes s). ended p")
    case True
    then show ?thesis by blast
  next
    case False
    then obtain p where "p \<in> set (rd_pipes s)" "\<not> ended p" by blast
    from all_ended_or_step [OF assms(2,3) this, where rb = rb and g = g and sb = sb] obtain t where t: "round_step rb g cfg sb s t" by blast
    have "\<forall>p\<in>set (rd_pipes s). well_placed p" using placed.holds_in_round [OF assms(1) less.prems] by blast
    from round_weight_decreases [OF t this] have "round_weight t < round_weight s" .
    from less.hyps [OF this rtranclp.rtrancl_into_rtrancl [OF less.prems t]] t
    show ?thesis by (meson converse_rtranclp_into_rtranclp)
  qed
qed

text \<open>A round of the schedule begins and ends with a result while its storage answers.\<close>

lemma begun_round_in_schedule:
  assumes "begin_round cfg w = Inr (sb, s0)" "schedule_ok (rc_schedule cfg)"
  shows "1 \<le> rc_round_idx cfg" "rc_round_idx cfg \<le> int (length (hs_round_sizes (rc_schedule cfg)))"
  using assms
  by (auto simp: begin_round_def round_pairs_def assign_task_units_for_round_def schedule_ok_def split: sum.splits if_splits)

lemma begun_round_runs_to_end:
  assumes "rng_ok rb" "begin_round cfg w = Inr (sb, s0)" "(round_step rb g cfg sb)\<^sup>*\<^sup>* s0 s"
    "0 < rc_global_concurrency cfg" "\<forall>(op, n)\<in>set (rc_per_op_concurrency cfg). 0 < n"
  shows "\<exists>s'. (round_step rb g cfg sb)\<^sup>*\<^sup>* s s' \<and> (\<forall>p\<in>set (rd_pipes s'). ended p)"
  using assms(2)
proof (rule begin_round_cases)
  fix pairs topo
  assume "s0 = round_start topo pairs (w\<lparr>ro_attempted := [], ro_seen := {}, ro_infra := []\<rparr>)"
  with run_to_end [OF assms(1,4,5)] assms(3) show ?thesis by blast
qed

context answering_store
begin

lemma query_answers_all: "P s \<Longrightarrow> query_error be s tag prev stages = None"
proof -
  assume "P s"
  then have "(case be_query_rows be s tag (Some stg) of Inl e \<Rightarrow> Some e | Inr rows \<Rightarrow> None) = None" for stg
    using query_answers [of s "Some stg"] by auto
  then show ?thesis by (simp add: query_error_def List.map_filter_def)
qed

lemma preload_returns:
  assumes "rc_backend cfg = be" "rc_experiment_tag cfg = tag" "P s"
  shows "\<exists>sb. preload_winner_substrates cfg s = Inr sb"
  using winners_answer [OF assms(3), of "rc_round_idx cfg - 1"]
  by (auto simp: preload_winner_substrates_def Let_def assms query_answers_all split: option.split)

lemma begin_round_returns:
  fixes cfg :: "('p, 's, 'w) round_config"
  assumes "rc_backend cfg = be" "rc_experiment_tag cfg = tag" "P (ro_store w)" "stage_graph (rc_stages cfg) = Inr gs"
    "schedule_ok (rc_schedule cfg)" "1 \<le> rc_round_idx cfg" "rc_round_idx cfg \<le> int (length (hs_round_sizes (rc_schedule cfg)))"
  shows "\<exists>sb s0. begin_round cfg w = Inr (sb, s0)"
proof -
  have "\<exists>pairs. round_pairs cfg = Inr pairs"
    using assms(5-7) by (simp add: round_pairs_def assign_task_units_for_round_def schedule_ok_def Let_def)
  moreover obtain topo where "topo_order (rc_stages cfg) = Inr topo"
    using assms(4) by (auto simp: stage_graph_def Let_def split: if_splits sum.splits)
  moreover obtain sb where "preload_winner_substrates cfg (ro_store w) = Inr sb" using preload_returns assms(1-3) by blast
  ultimately show ?thesis by (auto simp: begin_round_def)
qed

lemma finish_round_returns:
  assumes "rc_backend cfg = be" "rc_experiment_tag cfg = tag" "P (ro_store w)" "hv_schedule (ro_halving w) = rc_schedule cfg"
    "1 \<le> rc_round_idx cfg" "rc_round_idx cfg \<le> int (length (hs_round_sizes (rc_schedule cfg)))"
  shows "\<exists>out w'. finish_round rb g cfg w = (Inr out, w')"
proof -
  obtain rows where rows: "be_query_rows be (ro_store w) tag None = Inr rows"
    using query_answers [OF assms(3)] by blast
  have "\<nexists>e. promote_round rb g cfg (ro_attempted w) (ro_halving w) (round_report cfg rows) = Inl e"
    unfolding promote_round_def Let_def promote_raises using assms(4-6) by simp
  then obtain p where prom: "promote_round rb g cfg (ro_attempted w) (ro_halving w) (round_report cfg rows) = Inr p"
    by (metis sum.exhaust)
  have persists: "be_persist_winners be tag k ws (ro_store w) = (None, snd (be_persist_winners be tag k ws (ro_store w)))" for k ws
    using persist_answers [OF assms(3)] by (metis prod.collapse)
  show ?thesis
    using prom by (cases p) (simp add: finish_round_def rows assms(1,2) Let_def, subst persists, simp)
qed

lemma ended_round_finishes:
  fixes cfg :: "('p, 's, 'w) round_config"
  assumes "begin_round cfg w = Inr (sb, s0)" "(round_step rb g cfg sb)\<^sup>*\<^sup>* s0 s" "rc_backend cfg = be" "rc_experiment_tag cfg = tag"
    "P (ro_store w)" "schedule_ok (rc_schedule cfg)" "hv_schedule (ro_halving w) = rc_schedule cfg"
  shows "\<exists>out w'. finish_round rb g cfg (rd_world s) = (Inr out, w')"
proof (rule finish_round_returns [OF assms(3,4)])
  from assms(1) obtain pairs topo where s0: "s0 = round_start topo pairs (w\<lparr>ro_attempted := [], ro_seen := {}, ro_infra := []\<rparr>)"
    by (rule begin_round_cases)
  show "P (ro_store (rd_world s))" using kept_by_steps [OF assms(2,3)] assms(5) by (simp add: s0 round_start_def)
  show "hv_schedule (ro_halving (rd_world s)) = rc_schedule cfg" using schedule_kept_begun [OF assms(1,2)] assms(7) by simp
qed (use begun_round_in_schedule [OF assms(1,6)] in auto)

text \<open>A round that ends has a result, and some run ends.\<close>

lemma round_result:
  fixes cfg :: "('p, 's, 'w) round_config"
  assumes "run_round rb g cfg w res w'" "begin_round cfg w = Inr b" "rc_backend cfg = be" "rc_experiment_tag cfg = tag"
    "P (ro_store w)" "schedule_ok (rc_schedule cfg)" "hv_schedule (ro_halving w) = rc_schedule cfg"
  shows "\<exists>out. res = Inr out"
  using assms(1)
proof (cases rule: run_round.cases)
  case (complete sb s0 s)
  from ended_round_finishes [OF complete(1,2) assms(3-7)] complete(4) show ?thesis by (metis prod.inject)
qed (use assms(2) in simp)

lemma round_returns:
  fixes cfg :: "('p, 's, 'w) round_config"
  assumes "rng_ok rb" "begin_round cfg w = Inr (sb, s0)" "0 < rc_global_concurrency cfg"
    "\<forall>(op, n)\<in>set (rc_per_op_concurrency cfg). 0 < n" "rc_backend cfg = be" "rc_experiment_tag cfg = tag"
    "P (ro_store w)" "schedule_ok (rc_schedule cfg)" "hv_schedule (ro_halving w) = rc_schedule cfg"
  shows "\<exists>out w'. run_round rb g cfg w (Inr out) w'"
proof -
  obtain s' where run: "(round_step rb g cfg sb)\<^sup>*\<^sup>* s0 s'" and "\<forall>p\<in>set (rd_pipes s'). ended p"
    using begun_round_runs_to_end [OF assms(1,2) rtranclp.rtrancl_refl assms(3,4)] by blast
  with ended_round_finishes [OF assms(2) run assms(5-9)] run_round.complete [OF assms(2) run] show ?thesis by blast
qed

end

text \<open>
  C6: A round can always be completed. From every state a begun round can reach, whatever happened so
  far, some run of the event loop leads to the end of all pipelines, and ranking, promotion and the
  winner set then succeed, if the semaphores admit at least one call each, the round belongs to the
  schedule and the storage keeps answering its final reads and writes for the tag. Failing calls,
  prompts and writes of single rows do not keep a round from its result.
\<close>

theorem begun_round_completes:
  assumes "rng_ok rb" "begin_round cfg w = Inr (sb, s0)" "(round_step rb g cfg sb)\<^sup>*\<^sup>* s0 s"
    "0 < rc_global_concurrency cfg" "\<forall>(op, n)\<in>set (rc_per_op_concurrency cfg). 0 < n"
    "answering_store (rc_backend cfg) P (rc_experiment_tag cfg)" "P (ro_store w)"
    "schedule_ok (rc_schedule cfg)" "hv_schedule (ro_halving w) = rc_schedule cfg"
  shows "\<exists>s' out w'. (round_step rb g cfg sb)\<^sup>*\<^sup>* s s' \<and> (\<forall>p\<in>set (rd_pipes s'). ended p)
    \<and> finish_round rb g cfg (rd_world s') = (Inr out, w') \<and> run_round rb g cfg w (Inr out) w'"
proof -
  obtain s' where s': "(round_step rb g cfg sb)\<^sup>*\<^sup>* s s'" "\<forall>p\<in>set (rd_pipes s'). ended p"
    using begun_round_runs_to_end [OF assms(1-5)] by blast
  have run: "(round_step rb g cfg sb)\<^sup>*\<^sup>* s0 s'" using assms(3) s'(1) by simp
  with answering_store.ended_round_finishes [OF assms(6) assms(2) run refl refl assms(7-9)]
    run_round.complete [OF assms(2) run s'(2)] s' show ?thesis by blast
qed

text \<open>The storage of the demo configuration keeps nothing and answers everything.\<close>

lemma demo_answers: "answering_store (rc_backend (solo_config n)) (\<lambda>_. True) tag"
  by unfold_locales (simp_all add: solo_config_def demo_backend_def demo_config_def)

corollary begun_round_completes_witness:
  "\<exists>out w'. run_round counter_rng 0 (solo_config 4)
     ((demo_world None)\<lparr>ro_halving := (ro_halving (demo_world None))\<lparr>hv_schedule := rc_schedule (solo_config 4)\<rparr>\<rparr>) (Inr out) w'"
proof -
  let ?w = "(demo_world None)\<lparr>ro_halving := (ro_halving (demo_world None))\<lparr>hv_schedule := rc_schedule (solo_config 4)\<rparr>\<rparr>"
  obtain sb s0 where b: "begin_round (solo_config 4) ?w = Inr (sb, s0)"
    using solo_begins [of 4] by (auto simp: begin_round_def preload_winner_substrates_def Let_def solo_config_def demo_config_def
        split: sum.splits if_splits)
  have ok: "0 < rc_global_concurrency (solo_config 4)"
    "\<forall>(op, n)\<in>set (rc_per_op_concurrency (solo_config 4)). 0 < n" "hv_schedule (ro_halving ?w) = rc_schedule (solo_config 4)"
    by (simp_all add: solo_config_def demo_config_def)
  from begun_round_completes [OF counter_rng_ok b rtranclp.rtrancl_refl ok(1,2) demo_answers TrueI solo_fields(6) ok(3), where g = 0]
  show ?thesis by auto
qed

end
