(* ===== verification/Benchmark_Phase.thy ===== *)
theory Benchmark_Phase
  imports Round_Outcome
begin

text \<open>
  \<open>runner/benchmark.py\<close>: the facade that owns the storage and the resume cache, pings the candidates if
  asked to, and runs the rounds of a phase one after the other, each on the survivors of the one before.
\<close>

section \<open>The benchmark\<close>

text \<open>The plug-ins. The task pool is its \<open>sample\<close> and \<open>total_size\<close>; the storage's life cycle is a function on its state.\<close>

record ('p, 's, 'w) benchmark =
  bm_sample :: "int \<Rightarrow> task_unit list result"
  bm_total_size :: "int result"
  bm_stages :: "'p stage list"
  bm_backend :: "'s backend"
  bm_storage_initialize :: "'s \<Rightarrow> py_error option \<times> 's"
  bm_storage_close :: "'s \<Rightarrow> py_error option \<times> 's"
  bm_prefetch :: "'s \<Rightarrow> (bool \<Rightarrow> int \<Rightarrow> resume_cache) result"
  bm_halving_schedule :: halving_schedule
  bm_gold_checker :: "gold_checker option"
  bm_row_scorer :: "row_scorer option"
  bm_llm :: "'w llm"
  bm_custom_factory :: bool
  bm_thinking :: string
  bm_provider_label :: string
  bm_provider_kwargs :: "(string, json) dict"
  bm_global_concurrency :: nat
  bm_per_op_concurrency :: "(string, nat) dict"
  bm_sha256 :: "byte list \<Rightarrow> string"
  bm_json_dumps :: "(string, json) dict \<Rightarrow> string"

text \<open>What outlives a phase: storage, provider, resume cache, budget gate, and the flag.\<close>

record ('s, 'w) bench_state =
  bs_initialized :: bool
  bs_world :: "('s, 'w) round_world"

definition initialize :: "('p, 's, 'w) benchmark \<Rightarrow> ('s, 'w) bench_state \<Rightarrow> py_error option \<times> ('s, 'w) bench_state" where
  "initialize bm st =
     (if bs_initialized st then (None, st)
      else
        let w = bs_world st; (err, s) = bm_storage_initialize bm (ro_store w); w1 = w\<lparr>ro_store := s\<rparr>
        in case err of Some e \<Rightarrow> (Some e, st\<lparr>bs_world := w1\<rparr>)
           | None \<Rightarrow>
             (case bm_prefetch bm s of
                Inl e \<Rightarrow> (Some e, st\<lparr>bs_world := w1\<rparr>)
              | Inr prefetch \<Rightarrow> (None, st\<lparr>bs_initialized := True,
                  bs_world := w1\<lparr>ro_cache := snd (resume_populate prefetch True MIN_USABLE_RESPONSE_LEN)\<rparr>\<rparr>)))"

definition aclose :: "('p, 's, 'w) benchmark \<Rightarrow> ('s, 'w) bench_state \<Rightarrow> py_error option \<times> ('s, 'w) bench_state" where
  "aclose bm st =
     (let (err, s) = bm_storage_close bm (ro_store (bs_world st))
      in (err, st\<lparr>bs_world := (bs_world st)\<lparr>ro_store := s\<rparr>\<rparr>))"

section \<open>The preflight ping\<close>

record preflight_result =
  pf_model :: string
  pf_ok :: bool
  pf_error_class :: "string option"
  pf_error_message :: "string option"
  pf_latency_sec :: real

text \<open>
  One ping with the default arguments: \<open>max_tokens=None\<close> and 30 seconds for the call. A call still
  running at the deadline is cancelled, which shows as \<open>TimeoutError\<close>.
\<close>

definition ping_prompt :: string where
  "ping_prompt = ''Reply with one word.''"

definition ping_system :: string where
  "ping_system = ''You are a benchmark preflight ping.''"

definition ping_outcome :: "string \<Rightarrow> real \<Rightarrow> pyexn + string option \<Rightarrow> preflight_result" where
  "ping_outcome model latency res =
     (case res of
        Inr _ \<Rightarrow> \<lparr>pf_model = model, pf_ok = True, pf_error_class = None, pf_error_message = None, pf_latency_sec = latency\<rparr>
      | Inl (PyExn name msg) \<Rightarrow>
          if name = ''TimeoutError''
          then \<lparr>pf_model = model, pf_ok = False, pf_error_class = Some ''LLMCallTimeout'',
                pf_error_message = Some ''preflight exceeded 30.0s'', pf_latency_sec = latency\<rparr>
          else
            let error_class = classify_provider_error name (Some msg) in
            if error_class = ''LLMTruncationError'' \<or> str_in ''truncat'' (lower msg)
            then \<lparr>pf_model = model, pf_ok = True, pf_error_class = Some error_class,
                  pf_error_message = Some (''answered but truncated at max_tokens=None; route is alive - '' @ take 150 msg),
                  pf_latency_sec = latency\<rparr>
            else \<lparr>pf_model = model, pf_ok = False, pf_error_class = Some error_class,
                  pf_error_message = Some (take 200 msg), pf_latency_sec = latency\<rparr>)"

definition preflight_one :: "'w llm \<Rightarrow> string \<Rightarrow> 'w \<Rightarrow> preflight_result \<times> 'w" where
  "preflight_one lm model w0 =
     (let t0 = lm_monotonic lm w0 in
      case lm_make lm model w0 of
        (Some (PyExn name msg), w1) \<Rightarrow>
          (\<lparr>pf_model = model, pf_ok = False, pf_error_class = Some ''ProviderFactoryError'',
            pf_error_message = Some (take 200 msg), pf_latency_sec = lm_monotonic lm w1 - t0\<rparr>, w1)
      | (None, w1) \<Rightarrow>
          (let (res, w2) = lm_generate lm model ping_prompt ping_system [(''max_tokens'', JNull)] w1;
               late = lm_monotonic lm w2 - lm_monotonic lm w1 > 30
           in (ping_outcome model (lm_monotonic lm w2 - t0)
                 (if late then Inl (PyExn ''TimeoutError'' []) else res), w2)))"

text \<open>
  All pings. They run concurrently, eight at a time; \<open>order\<close> is the order in which they complete, and
  the results are gathered in the order of the candidates.
\<close>

definition preflight ::
  "'w llm \<Rightarrow> nat list \<Rightarrow> string list \<Rightarrow> 'w \<Rightarrow> (string, preflight_result) dict \<times> 'w" where
  "preflight lm order candidates w =
     (let (results, w') = fold (\<lambda>i (rs, w). case preflight_one lm (candidates ! i) w of (r, w') \<Rightarrow> (rs[i := Some r], w'))
            order (replicate (length candidates) None, w)
      in (fold (\<lambda>r d. dset (pf_model r) r d) (List.map_filter id results) [], w'))"

definition preflight_survivors :: "(string, preflight_result) dict \<Rightarrow> string list" where
  "preflight_survivors verdicts = map fst (filter (\<lambda>kv. pf_ok (snd kv)) verdicts)"

section \<open>A phase\<close>

text \<open>The size of the whole pool is asked for a log line only, but may raise.\<close>

definition sample_units :: "('p, 's, 'w) benchmark \<Rightarrow> task_unit list result" where
  "sample_units bm =
     (case bm_sample bm (hs_pool_size (bm_halving_schedule bm)) of
        Inl e \<Rightarrow> Inl e
      | Inr units \<Rightarrow> (case bm_total_size bm of Inl e \<Rightarrow> Inl e | Inr _ \<Rightarrow> Inr units))"

definition round_config_of ::
  "('p, 's, 'w) benchmark \<Rightarrow> string \<Rightarrow> int \<Rightarrow> string list \<Rightarrow> task_unit list \<Rightarrow> ('p, 's, 'w) round_config" where
  "round_config_of bm tag k candidates units =
     \<lparr>rc_experiment_tag = tag, rc_round_idx = k, rc_candidates = candidates, rc_task_units = units,
      rc_stages = bm_stages bm, rc_schedule = bm_halving_schedule bm, rc_backend = bm_backend bm,
      rc_llm = bm_llm bm, rc_gold_checker = bm_gold_checker bm, rc_row_scorer = bm_row_scorer bm,
      rc_global_concurrency = bm_global_concurrency bm, rc_per_op_concurrency = bm_per_op_concurrency bm,
      rc_custom_factory = bm_custom_factory bm, rc_thinking = bm_thinking bm,
      rc_provider_label = bm_provider_label bm, rc_provider_kwargs = bm_provider_kwargs bm,
      rc_quarantine_duration_sec = 300, rc_quarantine_cost_multiplier = 10,
      rc_sha256 = bm_sha256 bm, rc_json_dumps = bm_json_dumps bm\<rparr>"

text \<open>The loop over the rounds: the outcomes so far, and the survivors or the exception that ended it.\<close>

inductive phase_rounds ::
  "'g randbelow \<Rightarrow> 'g \<Rightarrow> ('p, 's, 'w) benchmark \<Rightarrow> string \<Rightarrow> task_unit list \<Rightarrow> int list \<Rightarrow> string list
     \<Rightarrow> ('s, 'w) round_world \<Rightarrow> round_outcome list \<Rightarrow> string list result \<Rightarrow> ('s, 'w) round_world \<Rightarrow> bool"
  for rb g bm tag units where
  no_rounds: "phase_rounds rb g bm tag units [] cs w [] (Inr cs) w"
| no_candidates: "phase_rounds rb g bm tag units (k # ks) [] w [] (Inr []) w"
| next_round: "cs \<noteq> [] \<Longrightarrow> run_round rb g (round_config_of bm tag k cs units) w (Inr out) w1 \<Longrightarrow>
     phase_rounds rb g bm tag units ks (rs_candidates_out (out_result out)) w1 outs res w' \<Longrightarrow>
     phase_rounds rb g bm tag units (k # ks) cs w (out # outs) res w'"
| round_raises: "cs \<noteq> [] \<Longrightarrow> run_round rb g (round_config_of bm tag k cs units) w (Inl e) w1 \<Longrightarrow>
     phase_rounds rb g bm tag units (k # ks) cs w [] (Inl e) w1"

inductive_cases phase_rounds_NilE: "phase_rounds rb g bm tag units [] cs w outs res w'"
inductive_cases phase_rounds_ConsE: "phase_rounds rb g bm tag units (k # ks) cs w outs res w'"

record phase_report =
  ph_experiment_tag :: string
  ph_rounds :: "round_outcome list"
  ph_final_candidates :: "string list"
  ph_final_ranking :: ranking_report
  ph_elapsed_sec :: real
  ph_preflight :: "(string, preflight_result) dict"

definition fresh_driver :: "halving_schedule \<Rightarrow> halving" where
  "fresh_driver sched = \<lparr>hv_schedule = sched, hv_survivors_by_round = [], hv_error_history = [],
     hv_last_eff_cost = [], hv_last_score_bonus = []\<rparr>"

definition phase_round_list :: "('p, 's, 'w) benchmark \<Rightarrow> int list option \<Rightarrow> int list" where
  "phase_round_list bm rounds = (case rounds of Some ks \<Rightarrow> ks
     | None \<Rightarrow> [1 .. int (length (hs_round_sizes (bm_halving_schedule bm)))])"

definition final_ranking ::
  "('p, 's, 'w) benchmark \<Rightarrow> string \<Rightarrow> task_unit list \<Rightarrow> ('s, 'w) round_world \<Rightarrow> ranking_report result" where
  "final_ranking bm tag units w =
     (case be_query_rows (bm_backend bm) (ro_store w) tag None of
        Inl e \<Rightarrow> Inl e
      | Inr rows \<Rightarrow> Inr (compute_ranking tag (bm_row_scorer bm) (bm_gold_checker bm) (3 / 10)
          (Some (\<lambda>uid. find (\<lambda>u. tu_id u = uid) units)) rows))"

text \<open>The start of a phase: initialised, units sampled, a fresh driver, the candidates pinged.\<close>

definition begin_phase ::
  "('p, 's, 'w) benchmark \<Rightarrow> nat list \<Rightarrow> string list \<Rightarrow> task_unit list option \<Rightarrow> bool \<Rightarrow> ('s, 'w) bench_state
     \<Rightarrow> (task_unit list \<times> string list \<times> (string, preflight_result) dict) result \<times> ('s, 'w) bench_state" where
  "begin_phase bm order candidates units ping st =
     (case initialize bm st of (Some e, st1) \<Rightarrow> (Inl e, st1)
      | (None, st1) \<Rightarrow>
        (case (case units of None \<Rightarrow> sample_units bm | Some us \<Rightarrow> Inr us) of
           Inl e \<Rightarrow> (Inl e, st1)
         | Inr us \<Rightarrow>
             let w = (bs_world st1)\<lparr>ro_halving := fresh_driver (bm_halving_schedule bm)\<rparr>
             in if ping
                then (let (verdicts, lw) = preflight (bm_llm bm) order candidates (ro_llm w)
                      in (Inr (us, preflight_survivors verdicts, verdicts), st1\<lparr>bs_world := w\<lparr>ro_llm := lw\<rparr>\<rparr>))
                else (Inr (us, candidates, []), st1\<lparr>bs_world := w\<rparr>)))"

inductive run_phase ::
  "'g randbelow \<Rightarrow> 'g \<Rightarrow> ('p, 's, 'w) benchmark \<Rightarrow> nat list \<Rightarrow> string \<Rightarrow> string list \<Rightarrow> int list option
     \<Rightarrow> task_unit list option \<Rightarrow> bool \<Rightarrow> ('s, 'w) bench_state \<Rightarrow> phase_report result \<Rightarrow> ('s, 'w) bench_state \<Rightarrow> bool"
  for rb g bm order tag candidates rounds units ping st where
  not_started: "begin_phase bm order candidates units ping st = (Inl e, st1) \<Longrightarrow>
     run_phase rb g bm order tag candidates rounds units ping st (Inl e) st1"
| stopped: "begin_phase bm order candidates units ping st = (Inr (us, cs, verdicts), st1) \<Longrightarrow>
     phase_rounds rb g bm tag us (phase_round_list bm rounds) cs (bs_world st1) outs (Inl e) w' \<Longrightarrow>
     run_phase rb g bm order tag candidates rounds units ping st (Inl e) (st1\<lparr>bs_world := w'\<rparr>)"
| ranked: "begin_phase bm order candidates units ping st = (Inr (us, cs, verdicts), st1) \<Longrightarrow>
     phase_rounds rb g bm tag us (phase_round_list bm rounds) cs (bs_world st1) outs (Inr final) w' \<Longrightarrow>
     final_ranking bm tag us w' = ranking \<Longrightarrow>
     run_phase rb g bm order tag candidates rounds units ping st
       (case ranking of Inl e \<Rightarrow> Inl e
        | Inr rep \<Rightarrow> Inr \<lparr>ph_experiment_tag = tag, ph_rounds = outs, ph_final_candidates = final, ph_final_ranking = rep,
            ph_elapsed_sec = lm_monotonic (bm_llm bm) (ro_llm w') - lm_monotonic (bm_llm bm) (ro_llm (bs_world st)),
            ph_preflight = verdicts\<rparr>) (st1\<lparr>bs_world := w'\<rparr>)"

end
