(* ===== verification/Benchmark_Properties.thy ===== *)
theory Benchmark_Properties
  imports Benchmark_Phase
begin

text \<open>
  The properties of a phase: the candidates only ever get fewer, the last round of the schedule leaves at
  most one, and the verdicts of the preflight do not depend on the order in which the pings return.
\<close>

section \<open>The preflight\<close>

lemma preflight_one_model [simp]: "pf_model (fst (preflight_one lm m w)) = m"
  by (auto simp: preflight_one_def ping_outcome_def Let_def split: prod.split option.split sum.split pyexn.split)

text \<open>The results of the pings so far: one slot per candidate, filled when its ping has returned.\<close>

definition slots_ok :: "string list \<Rightarrow> preflight_result option list \<Rightarrow> bool" where
  "slots_ok cs rs \<longleftrightarrow> length rs = length cs \<and> (\<forall>i<length cs. \<forall>r. rs ! i = Some r \<longrightarrow> pf_model r = cs ! i)"

abbreviation ping_all :: "'w llm \<Rightarrow> string list \<Rightarrow> nat list \<Rightarrow> preflight_result option list \<times> 'w
    \<Rightarrow> preflight_result option list \<times> 'w" where
  "ping_all lm cs order \<equiv> fold (\<lambda>i (rs, w). case preflight_one lm (cs ! i) w of (r, w') \<Rightarrow> (rs[i := Some r], w')) order"

lemma slots_pinged: "slots_ok cs rs \<Longrightarrow> slots_ok cs (fst (ping_all lm cs order (rs, w)))"
proof (induction order arbitrary: rs w)
  case (Cons i order)
  obtain r w' where one: "preflight_one lm (cs ! i) w = (r, w')" by fastforce
  with preflight_one_model [of lm "cs ! i" w] have "pf_model r = cs ! i" by simp
  with Cons.prems have "slots_ok cs (rs[i := Some r])"
    unfolding slots_ok_def by (metis length_list_update nth_list_update_eq nth_list_update_neq option.inject)
  from Cons.IH [OF this] show ?case by (simp add: one)
qed simp

lemma slots_models: "slots_ok cs rs \<Longrightarrow> r \<in> set (List.map_filter id rs) \<Longrightarrow> pf_model r \<in> set cs"
  by (auto simp: slots_ok_def map_filter_def in_set_conv_nth)

lemma keys_fold_models:
  "fst ` set (fold (\<lambda>r d. dset (pf_model r) r d) rs d) = pf_model ` set rs \<union> fst ` set d"
  "dict_ok d \<Longrightarrow> dict_ok (fold (\<lambda>r d. dset (pf_model r) r d) rs d)"
  by (induction rs arbitrary: d) (simp_all add: keys_dset)

lemma preflight_survivors_ok:
  "set (preflight_survivors (fst (preflight lm order cs w))) \<subseteq> set cs"
  "distinct (preflight_survivors (fst (preflight lm order cs w)))"
proof -
  obtain rs w' where fold: "ping_all lm cs order (replicate (length cs) None, w) = (rs, w')" by fastforce
  have v: "fst (preflight lm order cs w) = fold (\<lambda>r d. dset (pf_model r) r d) (List.map_filter id rs) []"
    by (simp add: preflight_def fold)
  have "slots_ok cs (replicate (length cs) None)" by (simp add: slots_ok_def)
  from slots_pinged [OF this, of lm order w] have "slots_ok cs rs" by (simp add: fold)
  with slots_models have "fst ` set (fst (preflight lm order cs w)) \<subseteq> set cs"
    unfolding v keys_fold_models(1) by auto
  then show "set (preflight_survivors (fst (preflight lm order cs w))) \<subseteq> set cs"
    by (auto simp: preflight_survivors_def)
  have "dict_ok (fst (preflight lm order cs w))" unfolding v by (rule keys_fold_models(2)) simp
  then show "distinct (preflight_survivors (fst (preflight lm order cs w)))"
    by (simp add: preflight_survivors_def dict_ok_def distinct_map_filter)
qed

lemma ping_all_fixed:
  assumes "\<And>m w. fst (preflight_one lm m w) = verdict m"
  shows "fst (ping_all lm cs order (rs, w)) = fold (\<lambda>i rs. rs[i := Some (verdict (cs ! i))]) order rs"
proof (induction order arbitrary: rs w)
  case (Cons i order)
  obtain r w' where one: "preflight_one lm (cs ! i) w = (r, w')" by fastforce
  with assms [of "cs ! i" w] Cons.IH show ?case by simp
qed simp

lemma fold_updates_nth:
  "i < length rs \<Longrightarrow> fold (\<lambda>i rs. rs[i := f i]) order rs ! i = (if i \<in> set order then f i else rs ! i)"
  by (induction order arbitrary: rs) auto

lemma fold_updates_length: "length (fold (\<lambda>i rs. rs[i := f i]) order rs) = length rs"
  by (induction order arbitrary: rs) auto

lemma fold_fresh_keys:
  assumes "distinct (map fst xs)" "fst ` set xs \<inter> fst ` set d = {}"
  shows "fold (\<lambda>(k, v). dset k v) xs d = d @ xs"
proof -
  have new: "dset k v d = d @ [(k, v)]" if "k \<notin> fst ` set d" for k v and d :: "('a, 'b) dict"
    using that by (induction d) auto
  show ?thesis
    using assms
  proof (induction xs arbitrary: d)
    case (Cons x xs)
    then show ?case by (cases x) (auto simp: new)
  qed simp
qed

text \<open>
  The verdicts of the preflight do not depend on the order in which the pings return. If the
  provider's answer to a ping depends on the model alone, every order in which all pings return gives
  each candidate its own verdict, and exactly the candidates with a good one survive, in their order.
\<close>

theorem preflight_ignores_completion_order:
  assumes "\<And>m w. fst (preflight_one lm m w) = verdict m" "distinct cs" "set order = {..<length cs}"
  shows "fst (preflight lm order cs w) = map (\<lambda>m. (m, verdict m)) cs
    \<and> preflight_survivors (fst (preflight lm order cs w)) = filter (\<lambda>m. pf_ok (verdict m)) cs"
proof -
  let ?rs = "fold (\<lambda>i rs. rs[i := Some (verdict (cs ! i))]) order (replicate (length cs) None)"
  have "?rs = map (\<lambda>m. Some (verdict m)) cs"
    by (rule nth_equalityI) (simp_all add: fold_updates_length fold_updates_nth assms(3))
  moreover obtain rs w' where fold: "ping_all lm cs order (replicate (length cs) None, w) = (rs, w')" by fastforce
  ultimately have rs: "rs = map (\<lambda>m. Some (verdict m)) cs"
    using ping_all_fixed [OF assms(1), of cs order "replicate (length cs) None" w] by simp
  have all: "List.map_filter id rs = map verdict cs" by (simp add: rs map_filter_def comp_def)
  have model: "pf_model (verdict m) = m" for m
    using preflight_one_model [of lm m w] by (simp add: assms(1))
  have "fold (\<lambda>r d. dset (pf_model r) r d) (map verdict cs) [] = fold (\<lambda>(k, v). dset k v) (map (\<lambda>m. (m, verdict m)) cs) []"
    by (simp add: fold_map comp_def model)
  also have "\<dots> = map (\<lambda>m. (m, verdict m)) cs"
    using fold_fresh_keys [of "map (\<lambda>m. (m, verdict m)) cs" "[]"] assms(2) by (simp add: comp_def)
  finally have "fst (preflight lm order cs w) = map (\<lambda>m. (m, verdict m)) cs"
    by (simp add: preflight_def fold all)
  then show ?thesis by (simp add: preflight_survivors_def filter_map comp_def)
qed

text \<open>A provider on which one model is missing and one is cut off.\<close>

definition ping_llm :: "unit llm" where
  "ping_llm = demo_llm\<lparr>lm_generate := (\<lambda>m _ _ _ w.
     (if m = ''gone'' then Inl (PyExn ''ProviderError'' ''api error 404'')
      else if m = ''thinker'' then Inl (PyExn ''ProviderError'' ''output truncated'')
      else Inr (Some ''ok''), w))\<rparr>"

corollary preflight_ignores_completion_order_witness:
  "preflight_survivors (fst (preflight ping_llm [2, 0, 1] [''gone'', ''thinker'', ''m''] ())) = [''thinker'', ''m'']"
proof -
  have pure: "fst (preflight_one ping_llm m w) = fst (preflight_one ping_llm m ())" for m w by simp
  have "set [2, 0, 1] = {..<length [''gone'', ''thinker'', ''m'']}" by auto
  from conjunct2 [OF preflight_ignores_completion_order [OF pure _ this, of "()"]]
  have "preflight_survivors (fst (preflight ping_llm [2, 0, 1] [''gone'', ''thinker'', ''m''] ())) =
      filter (\<lambda>m. pf_ok (fst (preflight_one ping_llm m ()))) [''gone'', ''thinker'', ''m'']"
    by simp
  also have "\<dots> = [''thinker'', ''m'']"
    by (simp add: preflight_one_def ping_llm_def demo_llm_def ping_outcome_def classify_provider_error_def has_any_def
        lower_def lower_char_def Let_def)
  finally show ?thesis .
qed

section \<open>The candidates of a phase\<close>

text \<open>The lists of candidates from round to round.\<close>

definition candidate_lists :: "string list \<Rightarrow> round_outcome list \<Rightarrow> string list list" where
  "candidate_lists cs outs = cs # map (\<lambda>out. rs_candidates_out (out_result out)) outs"

lemma phase_rounds_narrow:
  assumes "phase_rounds rb g bm tag units ks cs w outs (Inr final) w'" "rng_ok rb"
    "stage_graph (bm_stages bm) = Inr gs" "bm_stages bm \<noteq> []" "schedule_ok (bm_halving_schedule bm)"
    "distinct cs" "hv_schedule (ro_halving w) = bm_halving_schedule bm"
  shows "sorted_wrt (\<lambda>a b. set b \<subseteq> set a) (candidate_lists cs outs) \<and> list_all distinct (candidate_lists cs outs)
    \<and> final = last (candidate_lists cs outs)
    \<and> (ks \<noteq> [] \<and> last ks = int (length (hs_round_sizes (bm_halving_schedule bm))) \<longrightarrow> length final \<le> 1)"
  using assms(1,6,7)
proof (induction ks cs w outs "Inr final :: string list result" w' rule: phase_rounds.induct)
  case (next_round cs k w out w1 ks outs w')
  let ?cfg = "round_config_of bm tag k cs units" and ?next = "rs_candidates_out (out_result out)"
  have cfg: "rc_stages ?cfg = bm_stages bm" "rc_candidates ?cfg = cs" "rc_schedule ?cfg = bm_halving_schedule bm"
    "rc_round_idx ?cfg = k" by (simp_all add: round_config_of_def)
  note surv = round_survivors [OF assms(2) next_round(2), unfolded cfg, OF assms(3,4) next_round(5) assms(5) next_round(6)]
  note ih = next_round(4) [OF surv(2,4)]
  have first: "set b \<subseteq> set cs" if "b \<in> set (candidate_lists ?next outs)" for b
    using ih surv(1) that by (auto simp: candidate_lists_def)
  have short: "length final \<le> 1" if last: "last (k # ks) = int (length (hs_round_sizes (bm_halving_schedule bm)))"
  proof (cases "ks = []")
    case True
    with next_round(3) have "outs = []" "final = ?next" by (auto elim: phase_rounds_NilE)
    then show ?thesis using surv(3) last True by simp
  qed (use ih last in auto)
  have ne: "candidate_lists ?next outs \<noteq> []" by (simp add: candidate_lists_def)
  have "candidate_lists cs (out # outs) = cs # candidate_lists ?next outs" by (simp add: candidate_lists_def)
  with ih first short next_round(5) ne show ?case by auto
qed (auto simp: candidate_lists_def)

lemma last_upto: "1 \<le> n \<Longrightarrow> last [1 .. n] = (n :: int)"
  by (simp add: upto_rec2)

lemma begin_phase_start:
  assumes "begin_phase bm order candidates units ping st = (Inr (us, cs, verdicts), st1)"
  shows "hv_schedule (ro_halving (bs_world st1)) = bm_halving_schedule bm" "set cs \<subseteq> set candidates"
    "distinct candidates \<Longrightarrow> distinct cs" "ping \<Longrightarrow> distinct cs"
  using assms preflight_survivors_ok [of "bm_llm bm" order candidates]
  by (auto simp: begin_phase_def fresh_driver_def Let_def split: prod.splits option.splits sum.splits if_splits)
    (metis fst_conv subsetD)+

text \<open>The candidates of a phase that returns, from its arguments to the final ones.\<close>

lemma phase_candidate_lists:
  assumes "run_phase rb g bm order tag candidates rounds units ping st (Inr rep) st'" "rng_ok rb"
    "stage_graph (bm_stages bm) = Inr gs" "bm_stages bm \<noteq> []" "schedule_ok (bm_halving_schedule bm)"
    "distinct candidates \<or> ping"
  shows "\<exists>cs. set cs \<subseteq> set candidates
    \<and> sorted_wrt (\<lambda>a b. set b \<subseteq> set a) (candidate_lists cs (ph_rounds rep))
    \<and> list_all distinct (candidate_lists cs (ph_rounds rep))
    \<and> ph_final_candidates rep = last (candidate_lists cs (ph_rounds rep))
    \<and> (rounds = None \<longrightarrow> length (ph_final_candidates rep) \<le> 1)"
  using assms(1)
proof (cases rule: run_phase.cases)
  case (ranked us cs verdicts st1 outs final w' ranking)
  from ranked(1) have rep: "ph_rounds rep = outs" "ph_final_candidates rep = final" by (auto split: sum.splits)
  note start = begin_phase_start [OF ranked(3)]
  from assms(6) start(3,4) have "distinct cs" by blast
  note narrow = phase_rounds_narrow [OF ranked(4) assms(2-5) this start(1)]
  have n: "1 \<le> int (length (hs_round_sizes (bm_halving_schedule bm)))"
    using assms(5) by (cases "hs_round_sizes (bm_halving_schedule bm)") (simp_all add: schedule_ok_def)
  have "phase_round_list bm None \<noteq> []" "last (phase_round_list bm None) = int (length (hs_round_sizes (bm_halving_schedule bm)))"
    using last_upto [OF n] n by (auto simp: phase_round_list_def)
  with narrow start(2) show ?thesis unfolding rep by blast
qed

lemma last_of_lists:
  "sorted_wrt (\<lambda>a b. set b \<subseteq> set a) (candidate_lists cs outs) \<Longrightarrow> set (last (candidate_lists cs outs)) \<subseteq> set cs"
  by (cases "outs = []") (auto simp: candidate_lists_def last_map)

text \<open>
  C5: A phase narrows its candidates. In a phase that returns, the candidates of every round are among
  those of every earlier one and among those the phase was called with, without repetition; the final
  candidates are the survivors of the last round executed; and if the phase runs up to the last round
  of the schedule, at most one candidate is left. No eliminated candidate comes back, though the ranking
  of a round is computed over the rows of all rounds before it.
\<close>

theorem phase_narrows_candidates:
  assumes "run_phase rb g bm order tag candidates rounds units ping st (Inr rep) st'" "rng_ok rb"
    "stage_graph (bm_stages bm) = Inr gs" "bm_stages bm \<noteq> []" "schedule_ok (bm_halving_schedule bm)"
    "distinct candidates"
  shows "\<exists>cs. set cs \<subseteq> set candidates
    \<and> sorted_wrt (\<lambda>a b. set b \<subseteq> set a) (candidate_lists cs (ph_rounds rep))
    \<and> list_all distinct (candidate_lists cs (ph_rounds rep))
    \<and> ph_final_candidates rep = last (candidate_lists cs (ph_rounds rep))
    \<and> (rounds = None \<longrightarrow> length (ph_final_candidates rep) \<le> 1)"
  using phase_candidate_lists [OF assms(1-5)] assms(6) by blast

text \<open>A benchmark of one candidate, one unit and one round.\<close>

definition solo_bench :: "(unit, unit, unit) benchmark" where
  "solo_bench = (let c = solo_config 1 in
     \<lparr>bm_sample = (\<lambda>_. Inr [demo_unit]), bm_total_size = Inr 1, bm_stages = rc_stages c, bm_backend = rc_backend c,
      bm_storage_initialize = Pair None, bm_storage_close = Pair None, bm_prefetch = (\<lambda>_. Inr (\<lambda>_ _. [])),
      bm_halving_schedule = rc_schedule c, bm_gold_checker = None, bm_row_scorer = None, bm_llm = rc_llm c,
      bm_custom_factory = True, bm_thinking = [], bm_provider_label = ''p'', bm_provider_kwargs = [],
      bm_global_concurrency = 1, bm_per_op_concurrency = rc_per_op_concurrency c,
      bm_sha256 = rc_sha256 c, bm_json_dumps = rc_json_dumps c\<rparr>)"

lemma solo_bench_config: "round_config_of solo_bench ''t'' 1 [''a''] [demo_unit] = solo_config 1"
  by (simp add: round_config_of_def solo_bench_def solo_config_def demo_config_def Let_def)

lemma solo_bench_fields:
  "bm_stages solo_bench = rc_stages (solo_config 1)" "bm_halving_schedule solo_bench = rc_schedule (solo_config 1)"
  "phase_round_list solo_bench None = [1]"
  by (simp_all add: solo_bench_def phase_round_list_def solo_config_def Let_def)

lemma solo_bench_ok:
  "stage_graph (bm_stages solo_bench) = Inr (rc_stages (solo_config 1))" "bm_stages solo_bench \<noteq> []"
  "schedule_ok (bm_halving_schedule solo_bench)"
  using solo_fields(4-6) [of 1] by (simp_all add: solo_bench_fields)

lemma solo_bench_phase:
  "\<exists>rep st'. run_phase counter_rng 0 solo_bench [] ''t'' [''a''] None None False
     \<lparr>bs_initialized = b, bs_world = demo_world None\<rparr> (Inr rep) st'"
proof -
  let ?st = "\<lparr>bs_initialized = b, bs_world = demo_world None\<rparr>"
  obtain st1 where started: "begin_phase solo_bench [] [''a''] None False ?st = (Inr ([demo_unit], [''a''], []), st1)"
    by (cases b) (simp_all add: begin_phase_def initialize_def solo_bench_def sample_units_def Let_def)
  have driver: "hv_schedule (ro_halving (bs_world st1)) = rc_schedule (solo_config 1)"
    using begin_phase_start(1) [OF started] by (simp add: solo_bench_fields)
  have "\<exists>sb s0. begin_round (solo_config 1) (bs_world st1) = Inr (sb, s0)"
    using solo_begins [of 1] by (auto simp: begin_round_def preload_winner_substrates_def Let_def solo_config_def demo_config_def
        split: sum.splits if_splits)
  moreover have "0 < rc_global_concurrency (solo_config 1)" "\<forall>(op, n)\<in>set (rc_per_op_concurrency (solo_config 1)). 0 < n"
    by (simp_all add: solo_config_def demo_config_def)
  ultimately obtain out w1 where run: "run_round counter_rng 0 (solo_config 1) (bs_world st1) (Inr out) w1"
    using answering_store.round_returns [OF demo_answers counter_rng_ok _ _ _ refl refl TrueI solo_fields(6) driver, where g = 0]
    by fastforce
  have rounds: "\<exists>final. phase_rounds counter_rng 0 solo_bench ''t'' [demo_unit] (phase_round_list solo_bench None) [''a'']
      (bs_world st1) [out] (Inr final) w1"
    unfolding solo_bench_fields(3)
    by (rule exI, rule next_round) (simp, subst solo_bench_config, rule run, rule no_rounds)
  obtain rk where "final_ranking solo_bench ''t'' [demo_unit] w1 = Inr rk"
    by (simp add: final_ranking_def solo_bench_def solo_config_def)
  with rounds run_phase.ranked [OF started] show ?thesis by fastforce
qed

corollary phase_narrows_candidates_witness:
  "\<exists>rep st'. run_phase counter_rng 0 solo_bench [] ''t'' [''a''] None None False
     \<lparr>bs_initialized = False, bs_world = demo_world None\<rparr> (Inr rep) st' \<and> length (ph_final_candidates rep) \<le> 1"
proof -
  obtain rep st' where phase: "run_phase counter_rng 0 solo_bench [] ''t'' [''a''] None None False
      \<lparr>bs_initialized = False, bs_world = demo_world None\<rparr> (Inr rep) st'"
    using solo_bench_phase by blast
  from phase_narrows_candidates [OF phase counter_rng_ok solo_bench_ok] phase show ?thesis by auto
qed

end
