(* ===== verification/Round_Storage.thy ===== *)
theory Round_Storage
  imports Benchmark_Phase
begin

text \<open>
  The three storage backends under a round. Each becomes a \<open>backend\<close> by turning a raised exception into
  the \<open>Some\<close> of its effect. What a round asks of a backend beyond its own contract, so that its resume
  cache never lacks a response that storage holds, is the locale \<open>round_store\<close>.
\<close>

section \<open>The backends\<close>

definition mem_backend :: "(byte list \<Rightarrow> string) \<Rightarrow> mem_store backend" where
  "mem_backend sha =
     \<lparr>be_upsert_prompts = (\<lambda>a b s. case mem_upsert_prompts sha a b s of Inl e \<Rightarrow> (Some e, s) | Inr (_, s') \<Rightarrow> (None, s')),
      be_record_call = (\<lambda>now r s. (None, snd (mem_record_call now r s))),
      be_spend_by_op = (\<lambda>s tag. Inr (mem_spend_by_op tag s)),
      be_query_rows = (\<lambda>s tag stg. Inr (mem_query_rows tag stg s)),
      be_load_winners = (\<lambda>s tag k. Inr (mem_load_winners s tag k)),
      be_persist_winners = (\<lambda>tag k ws s. (None, mem_persist_winners tag k ws s))\<rparr>"

definition raised :: "'a result \<Rightarrow> py_error option" where
  "raised r = (case r of Inl e \<Rightarrow> Some e | Inr _ \<Rightarrow> None)"

definition file_backend :: "(byte list \<Rightarrow> string) \<Rightarrow> file_store backend" where
  "file_backend sha =
     \<lparr>be_upsert_prompts = (\<lambda>a b s. map_prod raised id (file_upsert_prompts sha a b s)),
      be_record_call = (\<lambda>now r s. map_prod raised id (file_record_call now r s)),
      be_spend_by_op = (\<lambda>s tag. file_spend_by_op tag s),
      be_query_rows = (\<lambda>s tag stg. file_query_rows tag stg s),
      be_load_winners = file_load_winners,
      be_persist_winners = (\<lambda>tag k ws s. map_prod raised id (file_persist_winners tag k ws s))\<rparr>"

definition pg_backend :: "(byte list \<Rightarrow> string) \<Rightarrow> pg_store backend" where
  "pg_backend sha =
     \<lparr>be_upsert_prompts = (\<lambda>a b s. case pg_upsert_prompts sha a b s of Inl e \<Rightarrow> (Some e, s) | Inr (_, s') \<Rightarrow> (None, s')),
      be_record_call = (\<lambda>now r s. case pg_record_call now r s of Inl e \<Rightarrow> (Some e, s) | Inr (_, s') \<Rightarrow> (None, s')),
      be_spend_by_op = (\<lambda>s tag. pg_spend_by_op tag s),
      be_query_rows = (\<lambda>s tag stg. pg_query_rows tag stg s),
      be_load_winners = pg_load_winners,
      be_persist_winners = (\<lambda>tag k ws s. case pg_persist_winners tag k ws s of Inl e \<Rightarrow> (Some e, s) | Inr s' \<Rightarrow> (None, s'))\<rparr>"

section \<open>The mirror of a round\<close>

text \<open>
  What a round asks of a backend: a response becomes cached only by recording a usable row under its
  key, without an exception; storing a prompt or the winners of a round changes no cached response.
\<close>

locale round_store =
  fixes be :: "'s backend" and cached :: "'s \<Rightarrow> cache_key \<Rightarrow> cached_response option"
  assumes record_law: "cached (snd (be_record_call be now r s)) k \<noteq> None \<Longrightarrow>
      cached s k \<noteq> None \<or> (row_cache_key r = k \<and> usable r \<and> fst (be_record_call be now r s) = None)"
    and upsert_law: "cached (snd (be_upsert_prompts be a b s)) k = cached s k"
    and persist_law: "cached (snd (be_persist_winners be tag n ws s)) k = cached s k"
begin

text \<open>One step of a pipeline: whatever becomes cached is about to be put, and then is in the mirror.\<close>

lemma step_mirrors:
  fixes cfg :: "('p, 's, 'w) round_config"
  assumes "rc_backend cfg = be" "carries_ok cfg p" "pipe_step rb g cfg sb p w = (p', w')" "\<not> ended p"
  shows "carries_ok cfg p'
    \<and> (\<forall>k. cached (ro_store w') k \<noteq> None \<longrightarrow> cached (ro_store w) k \<noteq> None \<or> about_to_put p' k)
    \<and> (\<forall>k. map_of (ro_cache w) k \<noteq> None \<longrightarrow> map_of (ro_cache w') k \<noteq> None)
    \<and> (\<forall>k. about_to_put p k \<longrightarrow> map_of (ro_cache w') k \<noteq> None \<or> about_to_put p' k)"
proof (cases "pp_phase p")
  case Ready
  then have "ready_step rb g cfg sb p w = (p', w')" using assms(3) by (simp add: pipe_step_def)
  note q = ready_step_quiet [OF this, unfolded assms(1)]
  have "cached (ro_store w) k \<noteq> None" if "cached (ro_store w') k \<noteq> None" for k
    using q that record_law by fastforce
  with q Ready show ?thesis by (auto simp: no_answer_facts about_to_put_def)
next
  case (Missed pr)
  then have "missed_step cfg (hd (pp_todo p)) pr p w = (p', w')" using assms(3) by (simp add: pipe_step_def)
  then have "no_answer p' \<and> ro_store w' = ro_store w \<and> ro_cache w' = ro_cache w"
    by (auto simp: missed_step_def stop_pipe_def split: option.splits sum.splits prod.splits if_splits)
  with Missed show ?thesis by (auto simp: no_answer_facts about_to_put_def)
next
  case (Admitted pr res)
  then have "admitted_step cfg pr res p w = (p', w')" using assms(3) by (simp add: pipe_step_def)
  note q = admitted_step_quiet [OF this, unfolded assms(1)]
  with Admitted show ?thesis by (auto simp: no_answer_facts about_to_put_def upsert_law)
next
  case (Calling pr res t0)
  with assms(3) have "calling_step cfg (hd (pp_todo p)) pr res t0 p w = (p', w')" by (simp add: pipe_step_def)
  from called_answer_ok [OF Calling this] Calling show ?thesis by (auto simp: about_to_put_def)
next
  case (Answered an)
  let ?rec = "be_record_call be (lm_now (rc_llm cfg) (ro_llm w)) (an_row an) (ro_store w)"
  obtain err s where rec: "?rec = (err, s)" by fastforce
  have law: "cached (ro_store w) k \<noteq> None \<or> (row_cache_key (an_row an) = k \<and> usable (an_row an) \<and> err = None)"
    if "cached s k \<noteq> None" for k
    using record_law [of "lm_now (rc_llm cfg) (ro_llm w)" "an_row an" "ro_store w" k] that by (simp add: rec)
  show ?thesis
  proof (cases err)
    case None
    with Answered assms(3) have new: "p' = p\<lparr>pp_phase := Recorded an\<rparr>" "w' = w\<lparr>ro_store := s\<rparr>"
      by (simp_all add: pipe_step_def answered_step_def assms(1) rec)
    have "carries_ok cfg p'" using assms(2) Answered by (simp add: new carries_ok_def answer_ok_def)
    moreover have "about_to_put p' k = (row_cache_key (an_row an) = k \<and> usable (an_row an))" "\<not> about_to_put p k" for k
      using Answered by (simp_all add: new about_to_put_def)
    ultimately show ?thesis
      using law by (simp add: new(2) del: split_paired_All not_None_eq)
  next
    case (Some e)
    with Answered assms(3) rec have "finish_call (an_error_class an) p
        (w\<lparr>ro_store := s, ro_infra := ro_infra w @ [PersistFailed (rr_stage (an_row an)) (pp_model p) (tu_id (pp_unit p)) e]\<rparr>) = (p', w')"
      by (simp add: pipe_step_def answered_step_def assms(1))
    from finish_call_quiet [OF this] Answered Some law show ?thesis by (auto simp: no_answer_facts about_to_put_def)
  qed
next
  case (Costed an)
  then obtain w1 where w1: "finish_call (an_error_class an) p w1 = (p', w')" "ro_store w1 = ro_store w"
    "ro_cache w1 = (case an_to_cache an of None \<Rightarrow> ro_cache w | Some c \<Rightarrow> resume_put c (row_provider cfg) (pp_model p) (ro_cache w))"
    using assms(3) by (auto simp: pipe_step_def costed_step_def split: option.splits)
  note q = finish_call_quiet [OF w1(1)]
  have "about_to_put p k \<longleftrightarrow> row_cache_key (an_row an) = k \<and> usable (an_row an)" for k
    using Costed by (simp add: about_to_put_def)
  moreover have "answer_ok cfg p an" using assms(2) Costed by (simp add: carries_ok_def)
  ultimately show ?thesis
    using q w1(2,3) by (auto simp: no_answer_facts answer_ok_def resume_put_def split: option.splits)
qed (use assms in \<open>auto simp: pipe_step_def recorded_step_def ended_def carries_ok_def answer_ok_def about_to_put_def\<close>)

text \<open>Over the pipelines of a round, and then over the rounds of a phase.\<close>

definition covers :: "('s, 'w) round_world \<Rightarrow> bool" where
  "covers w \<longleftrightarrow> (\<forall>k. cached (ro_store w) k \<noteq> None \<longrightarrow> map_of (ro_cache w) k \<noteq> None)"

lemma round_mirrors:
  fixes cfg :: "('p, 's, 'w) round_config"
  assumes "rc_backend cfg = be" "(round_step rb g cfg sb)\<^sup>*\<^sup>* (round_start topo pairs w) s" "covers w"
  shows "(\<forall>p\<in>set (rd_pipes s). carries_ok cfg p)
    \<and> (\<forall>k. cached (ro_store (rd_world s)) k \<noteq> None \<longrightarrow>
          map_of (ro_cache (rd_world s)) k \<noteq> None \<or> (\<exists>p\<in>set (rd_pipes s). about_to_put p k))"
  using assms(2)
proof (induction rule: rtranclp_induct)
  case base
  have "no_answer (start_pipe topo mt)" for mt by (simp add: no_answer_def start_pipe_def case_prod_beta)
  with assms(3) show ?case by (auto simp: round_start_def covers_def no_answer_facts)
next
  case (step s t)
  from step(2) show ?case
  proof (elim round_step_trans)
    fix i p' w'
    assume i: "i < length (rd_pipes s)" "\<not> ended (rd_pipes s ! i)"
      "pipe_step rb g cfg sb (rd_pipes s ! i) (rd_world s) = (p', w')"
      and t: "t = \<lparr>rd_pipes = (rd_pipes s)[i := p'], rd_world = w'\<rparr>"
    have "carries_ok cfg (rd_pipes s ! i)" using step.IH i(1) by simp
    note one = step_mirrors [OF assms(1) this i(3,2)]
    have p': "p' \<in> set ((rd_pipes s)[i := p'])" using i(1) by (rule set_update_memI)
    have "map_of (ro_cache w') k \<noteq> None \<or> (\<exists>q\<in>set ((rd_pipes s)[i := p']). about_to_put q k)"
      if k: "cached (ro_store w') k \<noteq> None" for k
    proof (cases "about_to_put p' k")
      case False
      with one k have "cached (ro_store (rd_world s)) k \<noteq> None" by blast
      with step.IH consider "map_of (ro_cache (rd_world s)) k \<noteq> None"
        | q where "q \<in> set (rd_pipes s)" "about_to_put q k" by blast
      then show ?thesis
      proof cases
        case 1
        with one show ?thesis by blast
      next
        case (2 q)
        then obtain j where j: "j < length (rd_pipes s)" "q = rd_pipes s ! j" by (auto simp: in_set_conv_nth)
        show ?thesis
        proof (cases "j = i")
          case True
          with 2 j one False show ?thesis by blast
        next
          case False
          with j have "q \<in> set ((rd_pipes s)[i := p'])" by (metis length_list_update nth_list_update_neq nth_mem)
          with 2 show ?thesis by blast
        qed
      qed
    qed (use p' in blast)
    moreover have "\<forall>q\<in>set ((rd_pipes s)[i := p']). carries_ok cfg q"
      using step.IH one set_update_subset_insert [of "rd_pipes s" i p'] by blast
    ultimately show ?thesis by (simp add: t)
  qed
qed

lemma finish_round_covers:
  assumes "rc_backend cfg = be" "finish_round rb g cfg w = (res, w')" "covers w"
  shows "covers w'"
  using assms persist_law
  by (auto simp: finish_round_def Let_def covers_def split: sum.splits prod.splits option.splits
      dest!: arg_cong [where f = snd and x = "be_persist_winners _ _ _ _ _"])

lemma run_round_covers:
  fixes cfg :: "('p, 's, 'w) round_config"
  assumes "run_round rb g cfg w res w'" "rc_backend cfg = be" "covers w"
  shows "covers w'"
  using assms(1)
proof (cases rule: run_round.cases)
  case (complete sb s0 s)
  from complete(1) obtain pairs topo where s0: "s0 = round_start topo pairs (w\<lparr>ro_attempted := [], ro_seen := {}, ro_infra := []\<rparr>)"
    by (rule begin_round_cases) blast
  have "covers (w\<lparr>ro_attempted := [], ro_seen := {}, ro_infra := []\<rparr>)" using assms(3) by (simp add: covers_def)
  note mirrors = round_mirrors [OF assms(2) complete(2) [unfolded s0] this]
  have "\<not> about_to_put p k" if "p \<in> set (rd_pipes s)" for p k
    using complete(3) that by (auto simp: ended_def about_to_put_def split: phase.splits)
  with mirrors have "covers (rd_world s)" by (auto simp: covers_def)
  with finish_round_covers [OF assms(2) complete(4)] show ?thesis .
qed (use assms(3) in simp)

end

section \<open>What storage keeps\<close>

context store_keeper
begin

lemma kept_by_phase:
  fixes bm :: "('p, 's, 'w) benchmark"
  assumes "phase_rounds rb g bm tag units ks cs w outs res w'" "bm_backend bm = be" "P (ro_store w)"
  shows "P (ro_store w')"
proof -
  have be: "rc_backend (round_config_of bm tag k cs units) = be" for k cs by (simp add: round_config_of_def assms(2))
  from assms(1,3) show ?thesis
    by (induction rule: phase_rounds.induct) (auto dest: kept_by_round [OF _ be])
qed

end

interpretation mem_kept: store_keeper "mem_backend sha" mem_ok for sha
  using mem.inv_record
  by unfold_locales
    (auto simp: mem_backend_def mem_upsert_prompts_def mem_persist_winners_def mem_ok_def Let_def split: sum.splits prod.splits)

interpretation pg_closed: store_keeper "pg_backend sha" "\<lambda>s. \<not> pg_connected s" for sha
  by unfold_locales
    (auto simp: pg_backend_def with_pool_def pg_record_call_def pg_upsert_prompts_def pg_persist_winners_def
      split: option.splits sum.splits prod.splits if_splits)

text \<open>
  When the three backends answer: memory always, files for a tag that is accepted as the name of a
  directory, Postgres while it is connected.
\<close>

interpretation mem_answers: answering_store "mem_backend sha" "\<lambda>_. True" tag for sha tag
  by unfold_locales (simp_all add: mem_backend_def)

lemma file_answers:
  assumes "tag_accepted tag"
  shows "answering_store (file_backend sha) (\<lambda>_. True) tag"
proof -
  obtain dir where "tag_dir tag = Inr dir" using assms by (simp add: tag_dir_Inr)
  then show ?thesis
    by unfold_locales
      (simp_all add: file_backend_def file_query_rows_def file_load_winners_def file_persist_winners_def raised_def)
qed

interpretation pg_answers: answering_store "pg_backend sha" pg_connected tag for sha tag
  by unfold_locales
    (auto simp: pg_backend_def with_pool_def pg_record_call_def pg_upsert_prompts_def pg_persist_winners_def
      pg_query_rows_def pg_load_winners_def split: option.splits sum.splits prod.splits if_splits)

section \<open>The laws of the three backends\<close>

interpretation mem_round: round_store "mem_backend sha" mem_get_cached for sha
  by unfold_locales
    (auto simp: mem_backend_def mem_get_cached_def mem_record_call_def mem_upsert_prompts_def mem_persist_winners_def
      Let_def split: option.splits sum.splits prod.splits if_splits)

interpretation file_round: round_store "file_backend sha" file_get_cached for sha
  by unfold_locales
    (auto simp: file_backend_def file_get_cached_def file_record_call_def file_upsert_prompts_def file_persist_winners_def
      file_initialize_def index_insert_def raised_def Let_def split: option.splits sum.splits prod.splits if_splits)

interpretation pg_round: round_store "pg_backend sha" pg_cached for sha
  by unfold_locales
    (auto simp: pg_backend_def pg_cached_def pg_get_cached_def with_pool_def pg_record_call_def pg_upsert_prompts_def
      pg_persist_winners_def Let_def split: option.splits sum.splits prod.splits if_splits)

section \<open>A benchmark on Postgres\<close>

definition with_postgres :: "(byte list \<Rightarrow> string) \<Rightarrow> ('p, pg_store, 'w) benchmark \<Rightarrow> ('p, pg_store, 'w) benchmark" where
  "with_postgres sha bm = bm
     \<lparr>bm_backend := pg_backend sha,
      bm_storage_initialize := (\<lambda>s. case pg_initialize s of Inl e \<Rightarrow> (Some e, s) | Inr s' \<Rightarrow> (None, s')),
      bm_storage_close := (\<lambda>s. (None, pg_close s)),
      bm_prefetch := (\<lambda>s. with_pool s (Inr (\<lambda>only_successful min_response_len.
        case pg_prefetch only_successful min_response_len s of Inr d \<Rightarrow> d | Inl _ \<Rightarrow> [])))\<rparr>"

lemma with_postgres_fields [simp]:
  "bm_backend (with_postgres sha bm) = pg_backend sha" "bm_storage_close (with_postgres sha bm) s = (None, pg_close s)"
  by (simp_all add: with_postgres_def)

definition pg_bench :: "(unit, pg_store, unit) benchmark" where
  "pg_bench = with_postgres (\<lambda>_. ''h'')
     \<lparr>bm_sample = (\<lambda>_. Inr []), bm_total_size = Inr 0, bm_stages = [demo_stage ''s'' False], bm_backend = pg_backend (\<lambda>_. ''h''),
      bm_storage_initialize = Pair None, bm_storage_close = Pair None, bm_prefetch = (\<lambda>_. Inr (\<lambda>_ _. [])),
      bm_halving_schedule = default_schedule, bm_gold_checker = None, bm_row_scorer = None, bm_llm = demo_llm,
      bm_custom_factory = True, bm_thinking = [], bm_provider_label = ''p'', bm_provider_kwargs = [],
      bm_global_concurrency = 1, bm_per_op_concurrency = [], bm_sha256 = (\<lambda>_. ''h''), bm_json_dumps = (\<lambda>_. [])\<rparr>"

text \<open>A phase without rounds.\<close>

definition pg_start :: "bool \<Rightarrow> pg_store \<Rightarrow> (pg_store, unit) bench_state" where
  "pg_start init s = \<lparr>bs_initialized = init, bs_world =
     \<lparr>ro_store = s, ro_llm = (), ro_cache = [], ro_gate = None, ro_halving = fresh_driver default_schedule,
      ro_attempted = [], ro_seen = {}, ro_infra = []\<rparr>\<rparr>"

lemma no_round_phase:
  assumes "begin_phase pg_bench [] [''a''] (Some []) False st = (Inr ([], [''a''], []), st1)"
  shows "\<exists>res. run_phase counter_rng 0 pg_bench [] ''t'' [''a''] (Some []) (Some []) False st res st1"
proof -
  have "phase_rounds counter_rng 0 pg_bench ''t'' [] (phase_round_list pg_bench (Some [])) [''a''] (bs_world st1) []
      (Inr [''a'']) (bs_world st1)"
    by (simp add: phase_round_list_def no_rounds)
  from run_phase.ranked [OF assms this refl] show ?thesis by auto
qed

text \<open>
  A closed benchmark cannot be used again. \<open>aclose\<close> closes the storage but leaves the flag that it
  is initialised, so the next phase skips the initialisation and on Postgres, whatever its arguments,
  ends with an exception, inside \<open>async with\<close> as well.
\<close>

theorem closed_benchmark_stays_closed:
  assumes "bs_initialized st" "aclose (with_postgres sha bm) st = (None, st1)"
    "run_phase rb g (with_postgres sha bm) order tag candidates rounds units ping st1 res st'"
  shows "initialize (with_postgres sha bm) st1 = (None, st1) \<and> (\<exists>e. res = Inl e)"
proof -
  let ?bm = "with_postgres sha bm"
  from assms(1,2) have st1: "bs_initialized st1" "\<not> pg_connected (ro_store (bs_world st1))"
    by (auto simp: aclose_def Let_def pg_close_def)
  then have init: "initialize ?bm st1 = (None, st1)" by (simp add: initialize_def)
  have closed: "\<not> pg_connected (ro_store (bs_world st2))"
    if "begin_phase ?bm order candidates units ping st1 = (Inr (us, cs, verdicts), st2)" for us cs verdicts st2
    using that st1(2) by (auto simp: begin_phase_def init Let_def split: sum.splits prod.splits if_splits)
  from assms(3) have "\<exists>e. res = Inl e"
  proof (cases rule: run_phase.cases)
    case (ranked us cs verdicts st2 outs final w' ranking)
    have "\<not> pg_connected (ro_store w')"
      by (rule pg_closed.kept_by_phase [OF ranked(4) with_postgres_fields(1) closed [OF ranked(3)]])
    then have "\<exists>e. ranking = Inl e"
      using ranked(5) [symmetric] by (simp add: final_ranking_def pg_backend_def pg_query_rows_def with_pool_def)
    then show ?thesis using ranked(1) by auto
  qed simp_all
  with init show ?thesis by blast
qed

corollary closed_benchmark_stays_closed_witness:
  "\<exists>st1 res st'. aclose pg_bench (pg_start True pg_empty) = (None, st1)
     \<and> run_phase counter_rng 0 pg_bench [] ''t'' [''a''] (Some []) (Some []) False st1 res st' \<and> (\<exists>e. res = Inl e)"
proof -
  obtain st1 where st1: "aclose pg_bench (pg_start True pg_empty) = (None, st1)"
    by (simp add: aclose_def pg_bench_def)
  then have "bs_initialized st1" by (auto simp: aclose_def pg_bench_def pg_start_def)
  then have "\<exists>st2. begin_phase pg_bench [] [''a''] (Some []) False st1 = (Inr ([], [''a''], []), st2)"
    by (simp add: begin_phase_def initialize_def Let_def)
  then obtain res st2 where run: "run_phase counter_rng 0 pg_bench [] ''t'' [''a''] (Some []) (Some []) False st1 res st2"
    using no_round_phase by blast
  have "bs_initialized (pg_start True pg_empty)" by (simp add: pg_start_def)
  from closed_benchmark_stays_closed [OF this st1 [unfolded pg_bench_def] run [unfolded pg_bench_def]] st1 run show ?thesis by blast
qed

end
