(* ===== verification/Phase_Completion.thy ===== *)
theory Phase_Completion
  imports Benchmark_Properties Round_Storage
begin

text \<open>
  A phase as a whole returns: while the storage answers for the tag, every round of the schedule has a
  result, so the loop over the rounds ends with survivors and the final ranking is computed.
\<close>

section \<open>The loop over the rounds\<close>

definition rounds_in_schedule :: "halving_schedule \<Rightarrow> int list \<Rightarrow> bool" where
  "rounds_in_schedule sched ks \<longleftrightarrow> list_all (\<lambda>k. 1 \<le> k \<and> k \<le> int (length (hs_round_sizes sched))) ks"

lemma all_rounds_in_schedule: "rounds_in_schedule (bm_halving_schedule bm) (phase_round_list bm None)"
  by (simp add: rounds_in_schedule_def phase_round_list_def list_all_iff)

lemma schedule_kept_round:
  assumes "run_round rb g cfg w (Inr out) w'"
  shows "hv_schedule (ro_halving w') = hv_schedule (ro_halving w)"
proof -
  from assms obtain sb s0 s where r: "begin_round cfg w = Inr (sb, s0)" "(round_step rb g cfg sb)\<^sup>*\<^sup>* s0 s"
    "finish_round rb g cfg (rd_world s) = (Inr out, w')" by (cases rule: run_round.cases) blast
  from r(3) obtain rows where "promote_round rb g cfg (ro_attempted (rd_world s)) (ro_halving (rd_world s)) (round_report cfg rows)
      = Inr (out_result out, ro_halving w')" by (rule finish_round_promotes)
  from schedule_kept_promote [OF this [unfolded promote_round_def Let_def]] schedule_kept_begun [OF r(1,2)] show ?thesis by simp
qed

context answering_store
begin

lemma phase_rounds_result:
  fixes bm :: "('p, 's, 'w) benchmark"
  assumes "phase_rounds rb g bm tag units ks cs w outs res w'" "bm_backend bm = be" "stage_graph (bm_stages bm) = Inr gs"
    "schedule_ok (bm_halving_schedule bm)" "rounds_in_schedule (bm_halving_schedule bm) ks" "P (ro_store w)"
    "hv_schedule (ro_halving w) = bm_halving_schedule bm"
  shows "(\<exists>final. res = Inr final) \<and> P (ro_store w')"
proof -
  let ?cfg = "\<lambda>k cs. round_config_of bm tag k cs units"
  have cfg: "rc_backend (?cfg k cs) = be" "rc_experiment_tag (?cfg k cs) = tag" "stage_graph (rc_stages (?cfg k cs)) = Inr gs"
    "schedule_ok (rc_schedule (?cfg k cs))" for k cs by (simp_all add: round_config_of_def assms(2-4))
  from assms(1,5-7) show ?thesis
  proof (induction rule: phase_rounds.induct)
    case (next_round cs k w out w1 ks outs res w')
    from kept_by_round [OF next_round.hyps(2) cfg(1)] schedule_kept_round [OF next_round.hyps(2)] next_round.IH next_round.prems
    show ?case by (simp add: rounds_in_schedule_def)
  next
    case (round_raises cs k w e w1 ks)
    have "\<exists>sb s0. begin_round (?cfg k cs) w = Inr (sb, s0)"
      using begin_round_returns [OF cfg(1,2) _ cfg(3,4)] round_raises.prems by (simp add: rounds_in_schedule_def round_config_of_def)
    with round_result [OF round_raises.hyps(2) _ cfg(1,2) _ cfg(4)] round_raises.prems have "\<exists>out. Inl e = (Inr out :: round_outcome result)"
      by (auto simp: round_config_of_def)
    then show ?case by simp
  qed simp_all
qed

lemma phase_rounds_return:
  fixes bm :: "('p, 's, 'w) benchmark"
  assumes "rng_ok rb" "bm_backend bm = be" "stage_graph (bm_stages bm) = Inr gs" "schedule_ok (bm_halving_schedule bm)"
    "0 < bm_global_concurrency bm" "\<forall>(op, n)\<in>set (bm_per_op_concurrency bm). 0 < n"
    "rounds_in_schedule (bm_halving_schedule bm) ks" "P (ro_store w)" "hv_schedule (ro_halving w) = bm_halving_schedule bm"
  shows "\<exists>outs final w'. phase_rounds rb g bm tag units ks cs w outs (Inr final) w' \<and> P (ro_store w')"
  using assms(7-9)
proof (induction ks arbitrary: cs w)
  case Nil
  then show ?case using phase_rounds.no_rounds by meson
next
  case (Cons k ks)
  let ?cfg = "round_config_of bm tag k cs units"
  have cfg: "rc_backend ?cfg = be" "rc_experiment_tag ?cfg = tag" "stage_graph (rc_stages ?cfg) = Inr gs" "schedule_ok (rc_schedule ?cfg)"
    "0 < rc_global_concurrency ?cfg" "\<forall>(op, n)\<in>set (rc_per_op_concurrency ?cfg). 0 < n"
    "rc_schedule ?cfg = bm_halving_schedule bm" "rc_round_idx ?cfg = k"
    using assms(2-6) by (simp_all add: round_config_of_def)
  show ?case
  proof (cases "cs = []")
    case False
    obtain sb s0 where "begin_round ?cfg w = Inr (sb, s0)"
      using begin_round_returns [OF cfg(1,2) Cons.prems(2) cfg(3,4)] Cons.prems(1) by (auto simp: rounds_in_schedule_def cfg(7,8))
    from round_returns [OF assms(1) this cfg(5,6,1,2) Cons.prems(2) cfg(4), where g = g] Cons.prems(3) obtain out w1 where
      run: "run_round rb g ?cfg w (Inr out) w1" by (auto simp: cfg(7))
    have "rounds_in_schedule (bm_halving_schedule bm) ks" "P (ro_store w1)" "hv_schedule (ro_halving w1) = bm_halving_schedule bm"
      using kept_by_round [OF run cfg(1)] schedule_kept_round [OF run] Cons.prems by (simp_all add: rounds_in_schedule_def)
    from Cons.IH [OF this] phase_rounds.next_round [OF False run] show ?thesis by blast
  qed (use Cons.prems(2) phase_rounds.no_candidates [of rb g bm tag units k ks w] in auto)
qed

end

section \<open>The phase\<close>

lemma final_ranking_returns:
  assumes "answering_store (bm_backend bm) P tag" "P (ro_store w)"
  shows "\<exists>rk. final_ranking bm tag units w = Inr rk"
  using answering_store.query_answers [OF assms, of None] by (auto simp: final_ranking_def)

lemma phase_returns:
  assumes "rng_ok rb" "begin_phase bm order candidates units ping st = (Inr (us, cs, verdicts), st1)"
    "stage_graph (bm_stages bm) = Inr gs" "schedule_ok (bm_halving_schedule bm)"
    "0 < bm_global_concurrency bm" "\<forall>(op, n)\<in>set (bm_per_op_concurrency bm). 0 < n"
    "rounds_in_schedule (bm_halving_schedule bm) (phase_round_list bm rounds)"
    "answering_store (bm_backend bm) P tag" "P (ro_store (bs_world st1))"
  shows "(\<forall>res st'. run_phase rb g bm order tag candidates rounds units ping st res st' \<longrightarrow> (\<exists>rep. res = Inr rep))
    \<and> (\<exists>rep st'. run_phase rb g bm order tag candidates rounds units ping st (Inr rep) st')"
proof (intro conjI allI impI)
  note driver = begin_phase_start(1) [OF assms(2)]
  note ranked = final_ranking_returns [OF assms(8)]
  show "\<exists>rep st'. run_phase rb g bm order tag candidates rounds units ping st (Inr rep) st'"
  proof -
    from answering_store.phase_rounds_return [OF assms(8,1) refl assms(3-7,9) driver, where g = g]
    obtain outs final w' where loop: "phase_rounds rb g bm tag us (phase_round_list bm rounds) cs (bs_world st1) outs (Inr final) w'"
      "P (ro_store w')" by blast
    from ranked [OF loop(2)] obtain rk where "final_ranking bm tag us w' = Inr rk" by blast
    from run_phase.ranked [OF assms(2) loop(1) this] show ?thesis by auto
  qed
  fix res st'
  assume "run_phase rb g bm order tag candidates rounds units ping st res st'"
  then show "\<exists>rep. res = Inr rep"
  proof (cases rule: run_phase.cases)
    case (stopped us' cs' verdicts' st1' outs e w')
    with assms(2) have "phase_rounds rb g bm tag us (phase_round_list bm rounds) cs (bs_world st1) outs (Inl e) w'" by simp
    from answering_store.phase_rounds_result [OF assms(8) this refl assms(3,4,7,9) driver] show ?thesis by simp
  next
    case (ranked us' cs' verdicts' st1' outs final w' ranking)
    with assms(2) have "phase_rounds rb g bm tag us (phase_round_list bm rounds) cs (bs_world st1) outs (Inr final) w'" "us' = us" by simp_all
    with answering_store.phase_rounds_result [OF assms(8) this(1) refl assms(3,4,7,9) driver] final_ranking_returns [OF assms(8)]
    obtain rk where "final_ranking bm tag us' w' = Inr rk" by blast
    with ranked(1,5) show ?thesis by auto
  qed (use assms(2) in simp)
qed

text \<open>
  C4: A phase that has started returns a report. If the storage answers for the tag of the experiment and
  keeps answering, the stages form a graph, the rounds asked for belong to the schedule and the
  semaphores admit at least one call each, then no run of the phase ends with an exception, and some
  run ends with a report, whatever the provider and the writes of single rows do.
\<close>

theorem phase_completes:
  assumes "rng_ok rb" "begin_phase bm order candidates units ping st = (Inr (us, cs, verdicts), st1)"
    "stage_graph (bm_stages bm) = Inr gs" "schedule_ok (bm_halving_schedule bm)"
    "0 < bm_global_concurrency bm" "\<forall>(op, n)\<in>set (bm_per_op_concurrency bm). 0 < n"
    "rounds_in_schedule (bm_halving_schedule bm) (phase_round_list bm rounds)"
    "answering_store (bm_backend bm) P tag" "P (ro_store (bs_world st1))"
  shows "(\<forall>res st'. run_phase rb g bm order tag candidates rounds units ping st res st' \<longrightarrow> (\<exists>rep. res = Inr rep))
    \<and> (\<exists>rep st'. run_phase rb g bm order tag candidates rounds units ping st (Inr rep) st')"
  by (rule phase_returns [OF assms])

corollary phase_completes_witness:
  "\<exists>rep st'. run_phase counter_rng 0 solo_bench [] ''t'' [''a''] None None False
     \<lparr>bs_initialized = True, bs_world = demo_world None\<rparr> (Inr rep) st'"
proof -
  let ?st = "\<lparr>bs_initialized = True, bs_world = demo_world None\<rparr>"
  obtain st1 where started: "begin_phase solo_bench [] [''a''] None False ?st = (Inr ([demo_unit], [''a''], []), st1)"
    by (simp add: begin_phase_def initialize_def solo_bench_def sample_units_def Let_def)
  have ok: "0 < bm_global_concurrency solo_bench" "\<forall>(op, n)\<in>set (bm_per_op_concurrency solo_bench). 0 < n"
    "bm_backend solo_bench = rc_backend (solo_config 1)"
    by (simp_all add: solo_bench_def solo_config_def demo_config_def Let_def)
  from phase_completes [OF counter_rng_ok started solo_bench_ok(1,3) ok(1,2) all_rounds_in_schedule
      demo_answers [of 1, folded ok(3)] TrueI, where g = 0]
  show ?thesis by simp
qed

end
