(* ===== verification/Session_Cache.thy ===== *)
theory Session_Cache
  imports Phase_Completion
begin

text \<open>
  The resume cache over the life of a benchmark: whatever is done with a benchmark object between its
  construction and the end of the process, its mirror keeps up with storage, and what a later process
  finds in that storage is what the mirror knew, short replies excepted.
\<close>

section \<open>The life of a benchmark\<close>

text \<open>
  A session: initialisations, phases and closings of one benchmark in any order and number, \<open>async with\<close>
  included, each of them returning or raising.
\<close>

inductive session ::
  "'g randbelow \<Rightarrow> ('p, 's, 'w) benchmark \<Rightarrow> ('s, 'w) bench_state \<Rightarrow> ('s, 'w) bench_state \<Rightarrow> bool"
  for rb bm st where
  constructed: "session rb bm st st"
| initialised: "session rb bm st st1 \<Longrightarrow> initialize bm st1 = (err, st2) \<Longrightarrow> session rb bm st st2"
| phase_done: "session rb bm st st1 \<Longrightarrow> run_phase rb g bm order tag candidates rounds units ping st1 res st2 \<Longrightarrow>
     session rb bm st st2"
| closed: "session rb bm st st1 \<Longrightarrow> aclose bm st1 = (err, st2) \<Longrightarrow> session rb bm st st2"

text \<open>
  A relation \<open>R\<close> between storage and mirror that the prefetch establishes and every round and the
  closing of the storage keep, on storage states with a property \<open>P\<close>.
\<close>

locale session_law = store_keeper "bm_backend bm" P for bm :: "('p, 's, 'w) benchmark" and P :: "'s \<Rightarrow> bool" +
  fixes rb :: "'g randbelow" and R :: "'s \<Rightarrow> resume_cache \<Rightarrow> bool"
  assumes round_law: "run_round rb g (round_config_of bm tag k cs units) w res w' \<Longrightarrow> P (ro_store w) \<Longrightarrow>
      R (ro_store w) (ro_cache w) \<Longrightarrow> R (ro_store w') (ro_cache w')"
    and init_keeps: "P s \<Longrightarrow> P (snd (bm_storage_initialize bm s))"
    and close_keeps: "P s \<Longrightarrow> P (snd (bm_storage_close bm s))"
    and close_law: "R s c \<Longrightarrow> R (snd (bm_storage_close bm s)) c"
    and prefetch_law: "P s \<Longrightarrow> bm_prefetch bm s = Inr prefetch \<Longrightarrow> R s (prefetch True MIN_USABLE_RESPONSE_LEN)"
begin

definition lawful :: "('s, 'w) bench_state \<Rightarrow> bool" where
  "lawful st \<longleftrightarrow> P (ro_store (bs_world st))
     \<and> (bs_initialized st \<longrightarrow> R (ro_store (bs_world st)) (ro_cache (bs_world st)))"

lemma lawful_initialize:
  assumes "initialize bm st = (err, st1)" "lawful st"
  shows "lawful st1 \<and> (err = None \<longrightarrow> bs_initialized st1)"
proof (cases "bs_initialized st")
  case False
  obtain e s where s: "bm_storage_initialize bm (ro_store (bs_world st)) = (e, s)" by fastforce
  with assms(2) have "P s" using init_keeps [of "ro_store (bs_world st)"] by (simp add: lawful_def)
  with assms(1) False s prefetch_law [of s] show ?thesis
    by (auto simp: initialize_def lawful_def resume_populate_def Let_def split: option.splits sum.splits)
qed (use assms in \<open>simp add: initialize_def\<close>)

lemma lawful_begin:
  assumes "begin_phase bm order candidates units ping st = (res, st1)" "lawful st"
  shows "lawful st1 \<and> ((\<exists>r. res = Inr r) \<longrightarrow> bs_initialized st1)"
proof -
  obtain err st0 where st0: "initialize bm st = (err, st0)" by fastforce
  from lawful_initialize [OF this assms(2)] assms(1) show ?thesis
    by (auto simp: begin_phase_def st0 lawful_def Let_def split: option.splits sum.splits if_splits prod.splits)
qed

lemma lawful_rounds:
  assumes "phase_rounds rb g bm tag units ks cs w outs res w'" "P (ro_store w)" "R (ro_store w) (ro_cache w)"
  shows "P (ro_store w') \<and> R (ro_store w') (ro_cache w')"
proof -
  have be: "rc_backend (round_config_of bm tag k cs units) = bm_backend bm" for k cs by (simp add: round_config_of_def)
  from assms show ?thesis
    by (induction rule: phase_rounds.induct) (auto dest: kept_by_round [OF _ be] round_law)
qed

lemma lawful_phase:
  assumes "run_phase rb g bm order tag candidates rounds units ping st res st'" "lawful st"
  shows "lawful st'"
  using assms(1)
proof (cases rule: run_phase.cases)
  case (not_started e)
  with lawful_begin [OF _ assms(2)] show ?thesis by blast
next
  case (stopped us cs verdicts st1 outs e w')
  from lawful_begin [OF stopped(3) assms(2)] lawful_rounds [OF stopped(4)] show ?thesis
    by (simp add: lawful_def stopped(2))
next
  case (ranked us cs verdicts st1 outs final w' ranking)
  from lawful_begin [OF ranked(3) assms(2)] lawful_rounds [OF ranked(4)] show ?thesis
    by (simp add: lawful_def ranked(2))
qed

lemma session_lawful:
  assumes "session rb bm st st'" "\<not> bs_initialized st" "P (ro_store (bs_world st))"
  shows "lawful st'"
  using assms(1)
proof (induction rule: session.induct)
  case constructed
  with assms(2,3) show ?case by (simp add: lawful_def)
next
  case (initialised st1 err st2)
  with lawful_initialize show ?case by blast
next
  case (phase_done st1 g order tag candidates rounds units ping res st2)
  with lawful_phase show ?case by blast
next
  case (closed st1 err st2)
  then show ?case using close_keeps [of "ro_store (bs_world st1)"] close_law [of "ro_store (bs_world st1)"]
    by (auto simp: aclose_def lawful_def split: prod.splits dest: arg_cong [where f = snd])
qed

end

section \<open>Postgres\<close>

definition missing_nothing :: "('s \<Rightarrow> cache_key \<Rightarrow> cached_response option) \<Rightarrow> 's \<Rightarrow> resume_cache \<Rightarrow> bool" where
  "missing_nothing cached s c \<longleftrightarrow> (\<forall>k. cached s k \<noteq> None \<longrightarrow> map_of c k \<noteq> None)"

interpretation pg_dicts: store_keeper "pg_backend sha" "\<lambda>s. dict_ok (pg_results s)" for sha
  by unfold_locales
    (auto simp: pg_backend_def with_pool_def pg_record_call_def pg_upsert_prompts_def pg_persist_winners_def
      split: option.splits sum.splits prod.splits if_splits)

lemma pg_session_law:
  "session_law (with_postgres sha bm) (\<lambda>s. dict_ok (pg_results s)) rb (missing_nothing pg_cached)"
proof -
  have init: "pg_results (snd (bm_storage_initialize (with_postgres sha bm) s)) = pg_results s" for s
    by (auto simp: with_postgres_def pg_initialize_def check_or_stamp_schema_version_def split: sum.splits if_splits option.splits)
  have close: "pg_results (pg_close s) = pg_results s" "pg_cached (pg_close s) k = None" for s k
    by (simp_all add: pg_close_def pg_cached_def pg_get_cached_def with_pool_def)
  have prefetch: "pg_connected s \<and> prefetch True MIN_USABLE_RESPONSE_LEN = pg_prefetched s"
    if "bm_prefetch (with_postgres sha bm) s = Inr prefetch" for s prefetch
    using that by (auto simp: with_postgres_def with_pool_def pg_prefetched_def split: if_splits)
  show ?thesis
  proof (unfold_locales, goal_cases)
    case (1 s now r)
    then show ?case by (simp add: pg_dicts.record_keeps)
  next
    case (2 s a b)
    then show ?case by (simp add: pg_dicts.upsert_keeps)
  next
    case (3 s tag n ws)
    then show ?case by (simp add: pg_dicts.persist_keeps)
  next
    case (4 g tag k cs units w res w')
    then show ?case
      using pg_round.run_round_covers [OF 4(1)] by (simp add: pg_round.covers_def missing_nothing_def round_config_of_def)
  next
    case (5 s)
    then show ?case by (simp add: init)
  next
    case (6 s)
    then show ?case by (simp add: close)
  next
    case (7 s c)
    then show ?case by (simp add: close missing_nothing_def)
  next
    case (8 s prefetch)
    with prefetch [OF 8(2)] pg_prefetched_cached [of s] show ?case by (simp add: missing_nothing_def)
  qed
qed

interpretation pg_session: session_law "with_postgres sha bm" "\<lambda>s. dict_ok (pg_results s)" rb "missing_nothing pg_cached" for sha bm rb
  by (rule pg_session_law)

text \<open>
  C30: The resume cache never falls behind storage. In every state of a benchmark on Postgres after its
  first successful initialisation, whatever has been done with it before, in any order and number of
  initialisations, phases and closings, and however each of them ended, every response that storage would
  give as a cached one has an entry in the resume cache, so a later call with its key is answered
  from there and not paid again.
\<close>

theorem resume_cache_covers_postgres:
  assumes "session rb (with_postgres sha bm) st st'" "\<not> bs_initialized st" "dict_ok (pg_results (ro_store (bs_world st)))"
    "bs_initialized st'" "pg_cached (ro_store (bs_world st')) (make_cache_key chash provider model thinking) \<noteq> None"
  shows "resume_get (ro_cache (bs_world st')) chash provider model thinking \<noteq> None"
  using pg_session.session_lawful [OF assms(1-3)] assms(4,5)
  unfolding pg_session.lawful_def missing_nothing_def resume_get_def by blast

section \<open>Storage that loses nothing\<close>

text \<open>
  A backend, as memory and files are, that caches every usable row it records without an exception
  and never loses a cached key to a later row. Postgres is not: a short reply keeps a usable
  retry out (\<open>postgres_retry_lost_iff\<close>).
\<close>

locale durable_store = store_keeper be P + round_store be cached
  for be :: "'s backend" and P :: "'s \<Rightarrow> bool" and cached :: "'s \<Rightarrow> cache_key \<Rightarrow> cached_response option" +
  assumes record_caches: "P s \<Longrightarrow> usable r \<Longrightarrow> fst (be_record_call be now r s) = None \<Longrightarrow>
      cached (snd (be_record_call be now r s)) (row_cache_key r) \<noteq> None"
    and record_loses_nothing: "P s \<Longrightarrow> cached s k \<noteq> None \<Longrightarrow> cached (snd (be_record_call be now r s)) k \<noteq> None"
begin

text \<open>Every entry of the mirror is cached in storage or short; and so is what a pipeline is about to put there.\<close>

definition short_or_stored :: "'s \<Rightarrow> cache_key \<Rightarrow> cached_response \<Rightarrow> bool" where
  "short_or_stored s k c \<longleftrightarrow> cached s k \<noteq> None \<or> length (cr_response c) < 20"

definition mirror_ok :: "'s \<Rightarrow> resume_cache \<Rightarrow> bool" where
  "mirror_ok s cache \<longleftrightarrow> (\<forall>k c. map_of cache k = Some c \<longrightarrow> short_or_stored s k c)"

definition entry_key :: "('p, 's, 'w) round_config \<Rightarrow> 'p pipe \<Rightarrow> cached_response \<Rightarrow> cache_key" where
  "entry_key cfg p c = make_cache_key (cr_composite_hash c) (row_provider cfg) (pp_model p) (cr_thinking c)"

definition put_ok :: "('p, 's, 'w) round_config \<Rightarrow> 's \<Rightarrow> 'p pipe \<Rightarrow> bool" where
  "put_ok cfg s p = (case pp_phase p of
       Answered an \<Rightarrow> (\<forall>c. an_to_cache an = Some c \<longrightarrow>
          entry_key cfg p c = row_cache_key (an_row an) \<and> (usable (an_row an) \<or> length (cr_response c) < 20))
     | Recorded an \<Rightarrow> (\<forall>c. an_to_cache an = Some c \<longrightarrow> short_or_stored s (entry_key cfg p c) c)
     | Costed an \<Rightarrow> (\<forall>c. an_to_cache an = Some c \<longrightarrow> short_or_stored s (entry_key cfg p c) c)
     | _ \<Rightarrow> True)"

lemma no_answer_put: "no_answer p \<Longrightarrow> put_ok cfg s p"
  by (auto simp: no_answer_def put_ok_def split: phase.splits)

lemma step_loses_nothing:
  fixes cfg :: "('p, 's, 'w) round_config"
  assumes "rc_backend cfg = be" "P (ro_store w)" "pipe_step rb g cfg sb p w = (p', w')" "cached (ro_store w) k \<noteq> None"
  shows "cached (ro_store w') k \<noteq> None"
  using pipe_step_store [OF assms(3), unfolded assms(1)] assms(4) record_loses_nothing [OF assms(2,4)]
  by (elim disjE exE) (simp_all only: upsert_law simp_thms)

lemma kept_put: "put_ok cfg s p \<Longrightarrow> (\<And>k. cached s k \<noteq> None \<Longrightarrow> cached s' k \<noteq> None) \<Longrightarrow> put_ok cfg s' p"
  unfolding put_ok_def short_or_stored_def by (cases "pp_phase p") (simp_all del: not_None_eq, blast+)

lemma kept_mirror: "mirror_ok s c \<Longrightarrow> (\<And>k. cached s k \<noteq> None \<Longrightarrow> cached s' k \<noteq> None) \<Longrightarrow> mirror_ok s' c"
  unfolding mirror_ok_def short_or_stored_def by blast

lemma called_put_ok:
  assumes "pp_phase p = Calling pr res t0" "calling_step cfg stg pr res t0 p w = (p', w')"
  shows "put_ok cfg s p'"
proof -
  obtain co lw where co: "call_llm_guarded (rc_llm cfg) (pr_call_model pr) (pr_system pr) (pr_user pr)
      (stage_generate_kwargs stg (pr_call_model pr) (pr_system pr) (pr_user pr)) t0 (ro_llm w) = (co, lw)" by fastforce
  show ?thesis
    using assms(2)
    by (auto simp: calling_step_def co Let_def put_ok_def entry_key_def row_cache_key_def cache_entry_def call_row_def
        classify_call_outcome_def str_or_empty_def row_usable_def is_row_usable_iff MIN_USABLE_RESPONSE_LEN_def
        split: prod.splits if_splits option.splits)
qed

lemma step_put:
  fixes cfg :: "('p, 's, 'w) round_config"
  assumes "rc_backend cfg = be" "P (ro_store w)" "pipe_step rb g cfg sb p w = (p', w')" "\<not> ended p"
    "put_ok cfg (ro_store w) p" "mirror_ok (ro_store w) (ro_cache w)"
  shows "put_ok cfg (ro_store w') p' \<and> mirror_ok (ro_store w') (ro_cache w')"
proof -
  note keeps = step_loses_nothing [OF assms(1-3)]
  have same: ?thesis if "no_answer p'" "ro_cache w' = ro_cache w"
    using that no_answer_put kept_mirror [OF assms(6) keeps] by simp
  show ?thesis
  proof (cases "pp_phase p")
    case Ready
    with assms(3) have "ready_step rb g cfg sb p w = (p', w')" by (simp add: pipe_step_def)
    from ready_step_quiet [OF this] same show ?thesis by blast
  next
    case (Missed pr)
    with assms(3) have "missed_step cfg (hd (pp_todo p)) pr p w = (p', w')" by (simp add: pipe_step_def)
    then have "no_answer p' \<and> ro_cache w' = ro_cache w"
      by (auto simp: missed_step_def stop_pipe_def split: option.splits sum.splits prod.splits if_splits)
    with same show ?thesis by blast
  next
    case (Admitted pr res)
    with assms(3) have "admitted_step cfg pr res p w = (p', w')" by (simp add: pipe_step_def)
    from admitted_step_quiet [OF this] same show ?thesis by blast
  next
    case (Calling pr res t0)
    with assms(3) have "calling_step cfg (hd (pp_todo p)) pr res t0 p w = (p', w')" by (simp add: pipe_step_def)
    from called_answer_ok [OF Calling this] called_put_ok [OF Calling this] assms(6) show ?thesis by simp
  next
    case (Answered an)
    let ?rec = "be_record_call be (lm_now (rc_llm cfg) (ro_llm w)) (an_row an) (ro_store w)"
    obtain err s where rec: "?rec = (err, s)" by fastforce
    show ?thesis
    proof (cases err)
      case None
      with Answered assms(3) have new: "p' = p\<lparr>pp_phase := Recorded an\<rparr>" "w' = w\<lparr>ro_store := s\<rparr>"
        by (simp_all add: pipe_step_def answered_step_def assms(1) rec)
      have "cached s (row_cache_key (an_row an)) \<noteq> None" if "usable (an_row an)"
        using record_caches [OF assms(2) that, of "lm_now (rc_llm cfg) (ro_llm w)"] by (simp only: rec None fst_conv snd_conv simp_thms)
      with assms(5) Answered have "put_ok cfg s p'"
        unfolding put_ok_def short_or_stored_def new by (simp add: entry_key_def) metis
      then show ?thesis using kept_mirror [OF assms(6) keeps] by (simp add: new)
    next
      case (Some e)
      with Answered assms(3) rec have "finish_call (an_error_class an) p
          (w\<lparr>ro_store := s, ro_infra := ro_infra w @ [PersistFailed (rr_stage (an_row an)) (pp_model p) (tu_id (pp_unit p)) e]\<rparr>) = (p', w')"
        by (simp add: pipe_step_def answered_step_def assms(1))
      from finish_call_quiet [OF this] same show ?thesis by simp
    qed
  next
    case (Recorded an)
    with assms(3,5,6) show ?thesis by (auto simp: pipe_step_def recorded_step_def put_ok_def entry_key_def)
  next
    case (Costed an)
    then obtain w1 where w1: "finish_call (an_error_class an) p w1 = (p', w')" "ro_store w1 = ro_store w"
      "ro_cache w1 = (case an_to_cache an of None \<Rightarrow> ro_cache w | Some c \<Rightarrow> resume_put c (row_provider cfg) (pp_model p) (ro_cache w))"
      using assms(3) by (auto simp: pipe_step_def costed_step_def split: option.splits)
    note q = finish_call_quiet [OF w1(1)]
    have "mirror_ok (ro_store w) (ro_cache w1)"
      using assms(5,6) Costed by (auto simp: w1(3) put_ok_def mirror_ok_def resume_put_def entry_key_def split: option.splits)
    with q w1(2) no_answer_put [of p' cfg] show ?thesis by simp
  next
    case (Prompted pr res)
    with assms(3) same show ?thesis by (auto simp: pipe_step_def)
  next
    case (Holding pr res)
    with assms(3) same show ?thesis by (auto simp: pipe_step_def)
  qed (use assms(4) in \<open>simp add: ended_def\<close>)
qed

lemma steps_mirror:
  fixes cfg :: "('p, 's, 'w) round_config"
  assumes "(round_step rb g cfg sb)\<^sup>*\<^sup>* (round_start topo pairs w) s" "rc_backend cfg = be" "P (ro_store w)"
    "mirror_ok (ro_store w) (ro_cache w)"
  shows "(\<forall>p\<in>set (rd_pipes s). put_ok cfg (ro_store (rd_world s)) p)
    \<and> mirror_ok (ro_store (rd_world s)) (ro_cache (rd_world s))"
  using assms(1)
proof (induction rule: rtranclp_induct)
  case base
  have "no_answer (start_pipe topo mt)" for mt by (simp add: no_answer_def start_pipe_def case_prod_beta)
  with assms(4) show ?case by (auto simp: round_start_def no_answer_put)
next
  case (step s t)
  have P: "P (ro_store (rd_world s))" using kept_by_steps [OF step(1) assms(2)] assms(3) by (simp add: round_start_def)
  from step(2) show ?case
  proof (elim round_step_trans)
    fix i p' w'
    assume i: "i < length (rd_pipes s)" "\<not> ended (rd_pipes s ! i)"
      "pipe_step rb g cfg sb (rd_pipes s ! i) (rd_world s) = (p', w')"
      and t: "t = \<lparr>rd_pipes = (rd_pipes s)[i := p'], rd_world = w'\<rparr>"
    have "put_ok cfg (ro_store (rd_world s)) (rd_pipes s ! i)" using step.IH i(1) by simp
    note one = step_put [OF assms(2) P i(3,2) this conjunct2 [OF step.IH]]
    have old: "put_ok cfg (ro_store w') q" if "q \<in> set (rd_pipes s)" for q
      using bspec [OF conjunct1 [OF step.IH] that] by (rule kept_put) (rule step_loses_nothing [OF assms(2) P i(3)])
    have "q = p' \<or> q \<in> set (rd_pipes s)" if "q \<in> set ((rd_pipes s)[i := p'])" for q
      using that set_update_subset_insert [of "rd_pipes s" i p'] by blast
    with old conjunct1 [OF one] have "\<forall>q\<in>set ((rd_pipes s)[i := p']). put_ok cfg (ro_store w') q" by blast
    with conjunct2 [OF one] show ?thesis unfolding t by simp
  qed
qed

lemma persist_mirror: "mirror_ok (snd (be_persist_winners be tag n ws s)) c = mirror_ok s c"
  by (simp only: mirror_ok_def short_or_stored_def persist_law)

lemma run_round_mirror:
  fixes cfg :: "('p, 's, 'w) round_config"
  assumes "run_round rb g cfg w res w'" "rc_backend cfg = be" "P (ro_store w)" "mirror_ok (ro_store w) (ro_cache w)"
  shows "mirror_ok (ro_store w') (ro_cache w')"
  using assms(1)
proof (cases rule: run_round.cases)
  case (complete sb s0 s)
  let ?w = "w\<lparr>ro_attempted := [], ro_seen := {}, ro_infra := []\<rparr>"
  from complete(1) obtain pairs topo where s0: "s0 = round_start topo pairs ?w" by (rule begin_round_cases) blast
  have "mirror_ok (ro_store (rd_world s)) (ro_cache (rd_world s))"
    using steps_mirror [OF complete(2) [unfolded s0] assms(2)] assms(3,4) by simp
  with complete(4) show ?thesis
    by (auto simp: finish_round_def Let_def assms(2) split: sum.splits prod.splits option.splits
        dest!: arg_cong [where f = snd and x = "be_persist_winners _ _ _ _ _"] simp: persist_mirror)
qed (use assms(4) in simp)

end

interpretation mem_durable: durable_store "mem_backend sha" mem_ok mem_get_cached for sha
  by unfold_locales
    (auto simp: mem_backend_def mem_get_cached_def mem_record_call_def Let_def dest: usable_cached split: option.splits)

interpretation file_kept: store_keeper "file_backend sha" file_ok for sha
  by unfold_locales
    (simp add: file_backend_def file_record_ok,
      auto simp: file_backend_def file_upsert_prompts_def file_persist_winners_def file_ok_def
        Let_def split: sum.splits prod.splits if_splits)

lemma file_record_accepted: "fst (file_record_call now r s) = Inr h \<Longrightarrow> tag_accepted (rr_experiment_tag r)"
  by (rule tag_dir_cases [of "rr_experiment_tag r"]) (simp_all add: file_record_call_def Let_def)

interpretation file_durable: durable_store "file_backend sha" file_ok file_get_cached for sha
proof unfold_locales
  fix s r now k
  assume ok: "file_ok s"
  show "file_get_cached (snd (be_record_call (file_backend sha) now r s)) k \<noteq> None" if "file_get_cached s k \<noteq> None"
    using that by (auto simp: file_backend_def file_get_record [OF ok])
  show "file_get_cached (snd (be_record_call (file_backend sha) now r s)) (row_cache_key r) \<noteq> None"
    if "usable r" "fst (be_record_call (file_backend sha) now r s) = None"
    using that usable_cached [of r] file_record_accepted [of now r s]
    by (auto simp: file_backend_def file_get_record [OF ok] raised_def split: sum.splits)
qed

section \<open>Files\<close>

definition with_files :: "(byte list \<Rightarrow> string) \<Rightarrow> ('p, file_store, 'w) benchmark \<Rightarrow> ('p, file_store, 'w) benchmark" where
  "with_files sha bm = bm
     \<lparr>bm_backend := file_backend sha, bm_storage_initialize := (\<lambda>s. (None, file_initialize s)),
      bm_storage_close := (\<lambda>s. (None, file_close s)),
      bm_prefetch := (\<lambda>s. Inr (\<lambda>only_successful min_response_len. fst (file_prefetch only_successful min_response_len s)))\<rparr>"

lemma with_files_fields [simp]:
  "bm_backend (with_files sha bm) = file_backend sha" "bm_storage_initialize (with_files sha bm) s = (None, file_initialize s)"
  "bm_storage_close (with_files sha bm) s = (None, file_close s)"
  "bm_prefetch (with_files sha bm) s = Inr (\<lambda>only_successful min_response_len. fst (file_prefetch only_successful min_response_len s))"
  by (simp_all add: with_files_def)

lemma file_opened [simp]:
  "file_ok (s\<lparr>fs_initialized := b\<rparr>) = file_ok s" "file_get_cached (s\<lparr>fs_initialized := b\<rparr>) = file_get_cached s"
  by (simp_all add: file_ok_def file_get_cached_def [abs_def] file_initialize_def)

lemma file_opened_closed: "file_initialize s = s\<lparr>fs_initialized := True\<rparr>" "file_close s = s\<lparr>fs_initialized := False\<rparr>"
  by (simp_all add: file_initialize_def file_close_def)

interpretation file_session: session_law "with_files sha bm" file_ok rb
  "\<lambda>s c. missing_nothing file_get_cached s c \<and> file_durable.mirror_ok s c" for sha bm rb
proof (unfold_locales, goal_cases)
  case (1 s now r)
  then show ?case using file_kept.record_keeps by simp
next
  case (2 s a b)
  then show ?case using file_kept.upsert_keeps by simp
next
  case (3 s tag n ws)
  then show ?case using file_kept.persist_keeps by simp
next
  case (4 g tag k cs units w res w')
  have be: "rc_backend (round_config_of (with_files sha bm) tag k cs units) = file_backend sha" by (simp add: round_config_of_def)
  from file_round.run_round_covers [OF 4(1) be] file_durable.run_round_mirror [OF 4(1) be 4(2)] 4(3)
  show ?case by (simp add: file_round.covers_def missing_nothing_def)
next
  case (5 s)
  then show ?case by (simp add: file_opened_closed)
next
  case (6 s)
  then show ?case by (simp add: file_opened_closed)
next
  case (7 s c)
  then show ?case by (simp add: file_opened_closed missing_nothing_def file_durable.mirror_ok_def file_durable.short_or_stored_def)
next
  case (8 s prefetch)
  with fstore.prefetch_cached [of s] show ?case
    by (auto simp: missing_nothing_def file_durable.mirror_ok_def file_durable.short_or_stored_def)
qed

text \<open>
  C28: What resuming saves, and what it does not. After any session of a benchmark on files, of phases,
  initialisations and closings in any order, a new process that opens the same files starts without an
  exception and answers from its resume cache exactly the keys that storage has a cached response for,
  with that response. The first process would have answered each of them as well. And a key the first
  process would have answered that the new one does not, and calls again, had a reply of fewer than 20
  characters.
\<close>

theorem resumed_run_sees_same_hits:
  assumes "session rb (with_files sha bm) st st'" "\<not> bs_initialized st" "file_ok (ro_store (bs_world st))" "bs_initialized st'"
    and "initialize (with_files sha bm2) \<lparr>bs_initialized = False, bs_world = w2\<rparr> = (err, st2)"
    and "ro_store w2 = (ro_store (bs_world st'))\<lparr>fs_initialized := False\<rparr>"
  defines "before \<equiv> resume_get (ro_cache (bs_world st'))" and "after \<equiv> resume_get (ro_cache (bs_world st2))"
  shows "err = None \<and> bs_initialized st2
    \<and> after chash provider model thinking
        = file_get_cached (ro_store (bs_world st')) (make_cache_key chash provider model thinking)
    \<and> (after chash provider model thinking \<noteq> None \<longrightarrow> before chash provider model thinking \<noteq> None)
    \<and> (\<forall>c. before chash provider model thinking = Some c \<and> after chash provider model thinking = None
         \<longrightarrow> length (cr_response c) < 20)"
proof -
  let ?s = "ro_store (bs_world st')" and ?k = "make_cache_key chash provider model thinking"
  have law: "file_ok ?s" "missing_nothing file_get_cached ?s (ro_cache (bs_world st'))"
    "file_durable.mirror_ok ?s (ro_cache (bs_world st'))"
    using file_session.session_lawful [OF assms(1-3)] assms(4) by (simp_all add: file_session.lawful_def)
  have new: "err = None" "bs_initialized st2"
    "ro_cache (bs_world st2) = fst (file_prefetch True MIN_USABLE_RESPONSE_LEN (file_initialize (?s\<lparr>fs_initialized := False\<rparr>)))"
    using assms(5) by (auto simp: initialize_def Let_def resume_populate_def assms(6))
  have eq: "after chash provider model thinking = file_get_cached ?s ?k"
    using fstore.prefetch_cached [of "file_initialize (?s\<lparr>fs_initialized := False\<rparr>)" ?k] law(1)
    by (simp add: after_def resume_get_def new(3) file_opened_closed)
  have "before chash provider model thinking \<noteq> None" if "after chash provider model thinking \<noteq> None"
    using law(2) that unfolding eq missing_nothing_def before_def resume_get_def by blast
  moreover have "length (cr_response c) < 20"
    if "before chash provider model thinking = Some c" "after chash provider model thinking = None" for c
    using law(3) that unfolding eq file_durable.mirror_ok_def file_durable.short_or_stored_def before_def resume_get_def by blast
  ultimately show ?thesis using new(1,2) eq by blast
qed

section \<open>A session to run\<close>

text \<open>
  One round of two candidates on one task unit: the reply of \<open>a\<close> has two characters, the one of \<open>b\<close> twenty.
  The pipelines run one after the other.
\<close>

definition reply_llm :: "unit llm" where
  "reply_llm = demo_llm\<lparr>lm_generate := (\<lambda>m _ _ _ w.
     (Inr (Some (if m = ''a'' then ''ok'' else replicate 20 (CHR ''x''))), w))\<rparr>"

definition reply_bench :: "'s backend \<Rightarrow> (unit, 's, unit) benchmark" where
  "reply_bench be =
     \<lparr>bm_sample = (\<lambda>_. Inr [demo_unit]), bm_total_size = Inr 1, bm_stages = [demo_stage ''s'' False], bm_backend = be,
      bm_storage_initialize = Pair None, bm_storage_close = Pair None, bm_prefetch = (\<lambda>_. Inr (\<lambda>_ _. [])),
      bm_halving_schedule = \<lparr>hs_round_sizes = [1], hs_units_per_arm = [1], hs_pool_size = 1\<rparr>, bm_gold_checker = None,
      bm_row_scorer = None, bm_llm = reply_llm,
      bm_custom_factory = True, bm_thinking = [], bm_provider_label = ''p'', bm_provider_kwargs = [],
      bm_global_concurrency = 1, bm_per_op_concurrency = [], bm_sha256 = (\<lambda>_. ''h''), bm_json_dumps = (\<lambda>_. [])\<rparr>"

abbreviation reply_config :: "'s backend \<Rightarrow> (unit, 's, unit) round_config" where
  "reply_config be \<equiv> round_config_of (reply_bench be) ''t'' 1 [''a'', ''b''] [demo_unit]"

definition reply_world :: "'s \<Rightarrow> ('s, unit) round_world" where
  "reply_world s = \<lparr>ro_store = s, ro_llm = (), ro_cache = [], ro_gate = None,
     ro_halving = fresh_driver \<lparr>hs_round_sizes = [1], hs_units_per_arm = [1], hs_pool_size = 1\<rparr>,
     ro_attempted = [], ro_seen = {}, ro_infra = []\<rparr>"

fun play :: "nat list \<Rightarrow> 'g randbelow \<Rightarrow> 'g \<Rightarrow> ('p, 's, 'w) round_config \<Rightarrow> (string \<times> string, run_row) dict
    \<Rightarrow> ('p, 's, 'w) round_state \<Rightarrow> ('p, 's, 'w) round_state" where
  "play [] rb g cfg sb s = s"
| "play (i # is) rb g cfg sb s =
     (if i < length (rd_pipes s) \<and> enabled cfg (rd_pipes s) (rd_pipes s ! i)
      then (case pipe_step rb g cfg sb (rd_pipes s ! i) (rd_world s) of
              (p', w') \<Rightarrow> play is rb g cfg sb \<lparr>rd_pipes = (rd_pipes s)[i := p'], rd_world = w'\<rparr>)
      else s)"

lemma play_reachable: "(round_step rb g cfg sb)\<^sup>*\<^sup>* s (play is rb g cfg sb s)"
proof (induction "is" arbitrary: s)
  case (Cons i "is")
  obtain p' w' where st: "pipe_step rb g cfg sb (rd_pipes s ! i) (rd_world s) = (p', w')" by fastforce
  show ?case
  proof (cases "i < length (rd_pipes s) \<and> enabled cfg (rd_pipes s) (rd_pipes s ! i)")
    case True
    then have "round_step rb g cfg sb s \<lparr>rd_pipes = (rd_pipes s)[i := p'], rd_world = w'\<rparr>"
      using st by (blast intro: round_step.pipe)
    then show ?thesis using Cons.IH True st by (simp add: converse_rtranclp_into_rtranclp)
  next
    case False
    then have "play (i # is) rb g cfg sb s = s" by auto
    then show ?thesis by simp
  qed
qed simp

lemma reply_call:
  "call_llm_guarded reply_llm m a b [] 0 () =
     (\<lparr>co_response = Some (if m = ''a'' then ''ok'' else replicate 20 (CHR ''x'')), co_telemetry = no_telemetry, co_duration = 0,
       co_error_class = None, co_error_message = None\<rparr>, ())"
  "lm_monotonic reply_llm w = 0" "lm_now reply_llm w = 0"
  by (simp_all add: call_llm_guarded_def call_llm_def reply_llm_def demo_llm_def harvest_telemetry_def no_telemetry_def)

definition reply_row :: "string \<Rightarrow> string \<Rightarrow> run_row" where
  "reply_row m text = call_row (reply_config (demo_backend None)) (demo_stage ''s'' False) demo_unit m
     \<lparr>pr_system = ''sys'', pr_user = ''usr'', pr_hash = ''h'', pr_call_model = m\<rparr> None
     \<lparr>co_response = Some text, co_telemetry = no_telemetry, co_duration = 0, co_error_class = None, co_error_message = None\<rparr> None"

lemma reply_begins:
  "begin_round (reply_config be) (reply_world s) = Inr ([], round_start [demo_stage ''s'' False]
     [(''a'', demo_unit), (''b'', demo_unit)] (reply_world s))"
  by (simp add: begin_round_def round_pairs_def round_config_of_def reply_bench_def assign_task_units_for_round_def
      units_by_id_def demo_unit_def List.map_filter_simps preload_winner_substrates_def Let_def slice_to_def dget_def
      topo_order_def stages_by_id_def visit.simps demo_stage_def reply_world_def)

lemma reply_runs:
  assumes "be_upsert_prompts be ''sys'' ''usr'' s0 = (None, s1)" "be_record_call be 0 (reply_row ''a'' ''ok'') s1 = (None, s2)"
    "be_record_call be 0 (reply_row ''b'' (replicate 20 (CHR ''x''))) s2 = (None, s3)"
  defines "s \<equiv> play (replicate 10 0 @ replicate 10 1) counter_rng 0 (reply_config be) []
     (round_start [demo_stage ''s'' False] [(''a'', demo_unit), (''b'', demo_unit)] (reply_world s0))"
  shows "map pp_phase (rd_pipes s) = [Ended Finished, Ended Finished]" "ro_store (rd_world s) = s3"
    "\<exists>c. map_of (ro_cache (rd_world s)) (''h'', ''p'', ''a'', []) = Some c \<and> cr_response c = ''ok''"
  using assms(1-3) unfolding s_def
  by (simp_all add: numeral_eq_Suc round_start_def start_pipe_def new_context_def round_config_of_def reply_bench_def
      reply_world_def step_simps Let_def demo_hashes reply_call demo_kwargs demo_selectors resume_get_def reply_row_def
      no_telemetry_def resume_put_def cache_entry_def call_row_def row_provider_def provider_identity_def make_cache_key_def)

lemma reply_row_facts:
  "row_cache_key (reply_row m text) = (''h'', ''p'', m, [])" "rr_experiment_tag (reply_row m text) = ''t''"
  "usable (reply_row m text) \<longleftrightarrow> 20 \<le> length text" "row_checks (reply_row m text)" "rr_response (reply_row m text) = Some text"
  "rr_composite_hash (reply_row m text) = ''h''"
  by (simp_all add: reply_row_def call_row_def row_cache_key_def make_cache_key_def round_config_of_def reply_bench_def
      row_provider_def provider_identity_def no_telemetry_def row_usable_def is_row_usable_iff MIN_USABLE_RESPONSE_LEN_def
      row_checks_def null_or_nonneg_def Let_def)

lemma finish_round_writes:
  assumes "finish_round rb g cfg w = (Inr out, w')"
  obtains k ws where "ro_store w' = snd (be_persist_winners (rc_backend cfg) (rc_experiment_tag cfg) k ws (ro_store w))"
    "ro_cache w' = ro_cache w"
proof -
  obtain out' w1 k ws where "w1 = w\<lparr>ro_store := snd (be_persist_winners (rc_backend cfg) (rc_experiment_tag cfg) k ws (ro_store w))\<rparr>"
    "w' = w1\<lparr>ro_halving := out'\<rparr>"
    using assms by (auto simp: finish_round_def Let_def split: sum.splits prod.splits option.splits
        dest!: arg_cong [where f = snd and x = "be_persist_winners _ _ _ _ _"])
  with that [of k ws] show thesis by simp
qed

text \<open>The round ends with a result on every storage that answers; the end of the round writes its winners only.\<close>

lemma reply_phase:
  assumes "answering_store be P ''t''" "round_store be cached" "P s0" "bm_backend bm = be"
    and bm: "\<And>k cs us. round_config_of bm ''t'' k cs us = round_config_of (reply_bench be) ''t'' k cs us"
      "bm_halving_schedule bm = \<lparr>hs_round_sizes = [1], hs_units_per_arm = [1], hs_pool_size = 1\<rparr>" "bm_row_scorer bm = None" "bm_gold_checker bm = None"
    and ops: "be_upsert_prompts be ''sys'' ''usr'' s0 = (None, s1)" "be_record_call be 0 (reply_row ''a'' ''ok'') s1 = (None, s2)"
    "be_record_call be 0 (reply_row ''b'' (replicate 20 (CHR ''x''))) s2 = (None, s3)"
  shows "\<exists>res st'. run_phase counter_rng 0 bm [] ''t'' [''a'', ''b''] None (Some [demo_unit]) False
      \<lparr>bs_initialized = True, bs_world = reply_world s0\<rparr> res st'
    \<and> bs_initialized st' \<and> (\<forall>k. cached (ro_store (bs_world st')) k = cached s3 k)
    \<and> (\<exists>c. map_of (ro_cache (bs_world st')) (''h'', ''p'', ''a'', []) = Some c \<and> cr_response c = ''ok'')"
proof -
  let ?cfg = "reply_config be" and ?w = "reply_world s0" and ?bs = "\<lparr>bs_initialized = True, bs_world = reply_world s0\<rparr>"
  let ?start = "round_start [demo_stage ''s'' False] [(''a'', demo_unit), (''b'', demo_unit)] ?w"
  let ?last = "play (replicate 10 0 @ replicate 10 1) counter_rng 0 ?cfg [] ?start"
  note runs = reply_runs [OF ops]
  have reach: "(round_step counter_rng 0 ?cfg [])\<^sup>*\<^sup>* ?start ?last" by (rule play_reachable)
  have ended: "\<forall>p\<in>set (rd_pipes ?last). ended p" using runs(1) by (auto simp: map_eq_Cons_conv ended_def)
  have cfg: "rc_backend ?cfg = be" "rc_experiment_tag ?cfg = ''t''" "schedule_ok (rc_schedule ?cfg)"
    "hv_schedule (ro_halving ?w) = rc_schedule ?cfg"
    by (simp_all add: round_config_of_def reply_bench_def schedule_ok_def reply_world_def fresh_driver_def)
  have "P (ro_store ?w)" by (simp add: reply_world_def assms(3))
  from answering_store.ended_round_finishes [OF assms(1) reply_begins reach cfg(1,2) this cfg(3,4)]
  obtain out w' where fin: "finish_round counter_rng 0 ?cfg (rd_world ?last) = (Inr out, w')" by blast
  from run_round.complete [OF reply_begins reach ended fin] have run: "run_round counter_rng 0 ?cfg ?w (Inr out) w'" .
  from fin obtain k ws where "ro_store w' = snd (be_persist_winners be ''t'' k ws s3)" and w': "ro_cache w' = ro_cache (rd_world ?last)"
    by (rule finish_round_writes) (simp only: cfg(1,2) runs(2))
  then have cached: "cached (ro_store w') k = cached s3 k" for k using round_store.persist_law [OF assms(2)] by auto
  have rounds: "phase_round_list bm None = [1]" by (simp add: phase_round_list_def bm(2))
  have begun: "begin_phase bm [] [''a'', ''b''] (Some [demo_unit]) False ?bs = (Inr ([demo_unit], [''a'', ''b''], []), ?bs)"
    by (simp add: begin_phase_def initialize_def Let_def bm(2) reply_world_def)
  have "phase_rounds counter_rng 0 bm ''t'' [demo_unit] (phase_round_list bm None) [''a'', ''b''] (bs_world ?bs)
      [out] (Inr (rs_candidates_out (out_result out))) w'"
    unfolding rounds using phase_rounds.next_round [OF _ run [folded bm(1)] phase_rounds.no_rounds] by simp
  from run_phase.ranked [OF begun this refl] cached runs(3) w' show ?thesis by fastforce
qed

text \<open>A session on a fresh database: the benchmark is opened, runs the phase and is left with the reply of \<open>b\<close> stored.\<close>

definition reply_pg :: "(unit, pg_store, unit) benchmark" where
  "reply_pg = with_postgres (\<lambda>_. ''h'') (reply_bench (pg_backend (\<lambda>_. ''h'')))"

lemma pg_row_stored:
  assumes "pg_connected s" "map_of (pg_results s) (''h'', ''p'', m, []) = None"
  shows "be_record_call (pg_backend sha) now (reply_row m text) s =
    (None, s\<lparr>pg_results := dset (''h'', ''p'', m, []) (stamp now (reply_row m text)) (pg_results s)\<rparr>)"
  using assms by (simp add: pg_backend_def pg_record_call_def with_pool_def reply_row_facts)

lemma reply_pg_session:
  "\<exists>st'. session counter_rng reply_pg \<lparr>bs_initialized = False, bs_world = reply_world pg_empty\<rparr> st' \<and> bs_initialized st'
     \<and> pg_cached (ro_store (bs_world st')) (''h'', ''p'', ''b'', []) \<noteq> None"
proof -
  let ?be = "pg_backend (\<lambda>_. ''h'')" and ?b = "reply_row ''b'' (replicate 20 (CHR ''x''))"
  obtain s1 where s1: "be_upsert_prompts ?be ''sys'' ''usr'' pg_empty = (None, s1)" "pg_connected s1" "pg_results s1 = []"
    by (simp add: pg_backend_def pg_upsert_prompts_def demo_hashes with_pool_def pg_empty_def)
  obtain s2 where s2: "be_record_call ?be 0 (reply_row ''a'' ''ok'') s1 = (None, s2)" "pg_connected s2"
    "map_of (pg_results s2) (''h'', ''p'', ''b'', []) = None"
    using pg_row_stored [of s1 "''a''"] s1(2,3) by simp
  obtain s3 where s3: "be_record_call ?be 0 ?b s2 = (None, s3)" "pg_connected s3"
    "map_of (pg_results s3) (''h'', ''p'', ''b'', []) = Some (stamp 0 ?b)"
    using pg_row_stored [OF s2(2,3)] s2(2) by simp
  have stored: "pg_cached s3 (''h'', ''p'', ''b'', []) \<noteq> None"
    using s3(2,3) usable_cached [of "stamp 0 ?b"] by (auto simp: pg_cached_def pg_get_cached_def with_pool_def reply_row_facts)
  have "pg_connected pg_empty" by (simp add: pg_empty_def)
  from reply_phase [OF pg_answers.answering_store_axioms pg_round.round_store_axioms this, of reply_pg, OF _ _ _ _ _ s1(1) s2(1) s3(1)]
  obtain res st' where run: "run_phase counter_rng 0 reply_pg [] ''t'' [''a'', ''b''] None (Some [demo_unit]) False
      \<lparr>bs_initialized = True, bs_world = reply_world pg_empty\<rparr> res st'" "bs_initialized st'"
    "\<And>k. pg_cached (ro_store (bs_world st')) k = pg_cached s3 k"
    by (auto simp: reply_pg_def round_config_of_def with_postgres_def reply_bench_def)
  have opened: "initialize reply_pg \<lparr>bs_initialized = False, bs_world = reply_world pg_empty\<rparr>
      = (None, \<lparr>bs_initialized = True, bs_world = reply_world pg_empty\<rparr>)"
    by (simp add: initialize_def Let_def reply_pg_def with_postgres_def pg_initialize_def pg_empty_def reply_world_def
        with_pool_def pg_prefetch_def resume_populate_def)
  have "session counter_rng reply_pg \<lparr>bs_initialized = False, bs_world = reply_world pg_empty\<rparr> st'"
    by (rule session.phase_done [OF session.initialised [OF session.constructed opened] run(1)])
  with run(2,3) stored show ?thesis by auto
qed

corollary resume_cache_covers_postgres_witness:
  "\<exists>st'. session counter_rng reply_pg \<lparr>bs_initialized = False, bs_world = reply_world pg_empty\<rparr> st'
     \<and> resume_get (ro_cache (bs_world st')) ''h'' ''p'' ''b'' [] \<noteq> None"
proof -
  obtain st' where st': "session counter_rng reply_pg \<lparr>bs_initialized = False, bs_world = reply_world pg_empty\<rparr> st'"
    "bs_initialized st'" "pg_cached (ro_store (bs_world st')) (make_cache_key ''h'' ''p'' ''b'' []) \<noteq> None"
    using reply_pg_session by (auto simp: make_cache_key_def)
  have "dict_ok (pg_results (ro_store (reply_world pg_empty)))" by (simp add: reply_world_def pg_empty_def)
  then have "resume_get (ro_cache (bs_world st')) ''h'' ''p'' ''b'' [] \<noteq> None"
    using resume_cache_covers_postgres [OF st'(1) [unfolded reply_pg_def]] st'(2,3) by simp
  with st'(1) show ?thesis by blast
qed

text \<open>The same session on an empty directory: the reply of \<open>a\<close> is in the mirror and lost with the process.\<close>

definition reply_files :: "(unit, file_store, unit) benchmark" where
  "reply_files = with_files (\<lambda>_. ''h'') (reply_bench (file_backend (\<lambda>_. ''h'')))"

lemma file_row_stored:
  assumes "file_ok s"
  obtains s' where "be_record_call (file_backend sha) now (reply_row m text) s = (None, s')" "file_ok s'"
    "\<And>k. file_get_cached s' k = (if (''h'', ''p'', m, []) = k \<and> file_get_cached s k = None \<and> 20 \<le> length text
         then cached_of_row (reply_row m text) else file_get_cached s k)"
proof (rule that)
  have "fst (file_record_call now (reply_row m text) s) = Inr ''h''"
    by (rule tag_dir_cases [of "''t''"])
      (simp_all add: file_record_call_def Let_def reply_row_facts)
  then show "be_record_call (file_backend sha) now (reply_row m text) s = (None, snd (file_record_call now (reply_row m text) s))"
    by (simp add: file_backend_def raised_def prod_eq_iff)
  show "file_ok (snd (file_record_call now (reply_row m text) s))" by (rule file_record_ok [OF assms])
qed (simp add: file_get_record [OF assms] reply_row_facts)

abbreviation reply_opened :: "(file_store, unit) bench_state" where
  "reply_opened \<equiv> \<lparr>bs_initialized = True, bs_world = reply_world (file_initialize file_new)\<rparr>"

lemma reply_files_phase:
  "\<exists>res st'. run_phase counter_rng 0 reply_files [] ''t'' [''a'', ''b''] None (Some [demo_unit]) False reply_opened res st'
     \<and> bs_initialized st'
     \<and> file_get_cached (ro_store (bs_world st')) (''h'', ''p'', ''a'', []) = None
     \<and> file_get_cached (ro_store (bs_world st')) (''h'', ''p'', ''b'', []) \<noteq> None
     \<and> (\<exists>c. map_of (ro_cache (bs_world st')) (''h'', ''p'', ''a'', []) = Some c \<and> cr_response c = ''ok'')"
proof -
  let ?be = "file_backend (\<lambda>_. ''h'')" and ?x = "replicate 20 (CHR ''x'')"
  obtain s1 where s1: "be_upsert_prompts ?be ''sys'' ''usr'' (file_initialize file_new) = (None, s1)" "file_ok s1"
      "\<And>k. file_get_cached s1 k = None"
    by (simp add: file_backend_def file_upsert_prompts_def demo_hashes raised_def file_new_def file_ok_def file_get_cached_def Let_def)
  obtain s2 where s2: "be_record_call ?be 0 (reply_row ''a'' ''ok'') s1 = (None, s2)" "file_ok s2" "\<And>k. file_get_cached s2 k = None"
    using file_row_stored [OF s1(2), of "\<lambda>_. ''h''" 0 "''a''" "''ok''"] s1(3) by auto
  obtain s3 where s3: "be_record_call ?be 0 (reply_row ''b'' ?x) s2 = (None, s3)"
    "\<And>k. file_get_cached s3 k = (if (''h'', ''p'', ''b'', []) = k \<and> file_get_cached s2 k = None \<and> 20 \<le> length ?x
         then cached_of_row (reply_row ''b'' ?x) else file_get_cached s2 k)"
    by (rule file_row_stored [OF s2(2)]) (rule that; assumption)
  have b: "cached_of_row (reply_row ''b'' ?x) \<noteq> None" using usable_cached [of "reply_row ''b'' ?x"] by (auto simp: reply_row_facts)
  have bm: "round_config_of reply_files ''t'' k cs us = round_config_of (reply_bench ?be) ''t'' k cs us"
    "bm_halving_schedule reply_files = \<lparr>hs_round_sizes = [1], hs_units_per_arm = [1], hs_pool_size = 1\<rparr>"
    "bm_row_scorer reply_files = None" "bm_gold_checker reply_files = None" "bm_backend reply_files = ?be" for k cs us
    by (simp_all add: reply_files_def round_config_of_def with_files_def reply_bench_def)
  from reply_phase [OF file_answers [OF tag_accepted_t(1)] file_round.round_store_axioms TrueI bm(5,1-4) s1(1) s2(1) s3(1)]
  obtain res st' where run: "run_phase counter_rng 0 reply_files [] ''t'' [''a'', ''b''] None (Some [demo_unit]) False reply_opened res st'"
    "bs_initialized st'" "\<exists>c. map_of (ro_cache (bs_world st')) (''h'', ''p'', ''a'', []) = Some c \<and> cr_response c = ''ok''"
    and store: "\<And>k. file_get_cached (ro_store (bs_world st')) k = file_get_cached s3 k" by blast
  have "file_get_cached (ro_store (bs_world st')) (''h'', ''p'', ''a'', []) = None"
    "file_get_cached (ro_store (bs_world st')) (''h'', ''p'', ''b'', []) \<noteq> None"
    using b by (simp_all add: store s3(2) s2(3))
  with run show ?thesis by blast
qed

corollary resumed_run_sees_same_hits_witness:
  "\<exists>st' st2. session counter_rng reply_files \<lparr>bs_initialized = False, bs_world = reply_world file_new\<rparr> st'
     \<and> initialize reply_files \<lparr>bs_initialized = False, bs_world =
          reply_world ((ro_store (bs_world st'))\<lparr>fs_initialized := False\<rparr>)\<rparr> = (None, st2)
     \<and> resume_get (ro_cache (bs_world st')) ''h'' ''p'' ''a'' [] \<noteq> None
     \<and> resume_get (ro_cache (bs_world st2)) ''h'' ''p'' ''a'' [] = None
     \<and> resume_get (ro_cache (bs_world st')) ''h'' ''p'' ''b'' [] \<noteq> None
     \<and> resume_get (ro_cache (bs_world st2)) ''h'' ''p'' ''b'' [] \<noteq> None"
proof -
  let ?new = "\<lparr>bs_initialized = False, bs_world = reply_world file_new\<rparr>"
  obtain res st' where run: "run_phase counter_rng 0 reply_files [] ''t'' [''a'', ''b''] None (Some [demo_unit]) False reply_opened res st'"
    "bs_initialized st'" and a: "file_get_cached (ro_store (bs_world st')) (''h'', ''p'', ''a'', []) = None"
    "map_of (ro_cache (bs_world st')) (''h'', ''p'', ''a'', []) \<noteq> None"
    and b: "file_get_cached (ro_store (bs_world st')) (''h'', ''p'', ''b'', []) \<noteq> None"
    using reply_files_phase by auto
  have "initialize reply_files ?new = (None, reply_opened)"
    by (simp add: initialize_def Let_def reply_files_def reply_world_def file_prefetch_def file_new_def file_initialize_def
        resume_populate_def)
  from session.phase_done [OF session.initialised [OF session.constructed this] run(1)]
  have sess: "session counter_rng reply_files ?new st'" .
  let ?again = "\<lparr>bs_initialized = False, bs_world = reply_world ((ro_store (bs_world st'))\<lparr>fs_initialized := False\<rparr>) :: (file_store, unit) round_world\<rparr>"
  obtain err st2 where again: "initialize reply_files ?again = (err, st2)" by fastforce
  have new: "\<not> bs_initialized ?new" "file_ok (ro_store (bs_world ?new))" by (simp_all add: reply_world_def)
  have store: "ro_store (reply_world x :: (file_store, unit) round_world) = x" for x by (simp add: reply_world_def)
  from resumed_run_sees_same_hits [OF sess [unfolded reply_files_def] new run(2) again [unfolded reply_files_def] store,
      of "''h''" "''p''" "''a''" "[]"]
    resumed_run_sees_same_hits [OF sess [unfolded reply_files_def] new run(2) again [unfolded reply_files_def] store,
      of "''h''" "''p''" "''b''" "[]"]
  have "err = None \<and> resume_get (ro_cache (bs_world st2)) ''h'' ''p'' ''a'' [] = None
     \<and> resume_get (ro_cache (bs_world st')) ''h'' ''p'' ''b'' [] \<noteq> None
     \<and> resume_get (ro_cache (bs_world st2)) ''h'' ''p'' ''b'' [] \<noteq> None"
    using a(1) b by (simp add: make_cache_key_def)
  moreover have "resume_get (ro_cache (bs_world st')) ''h'' ''p'' ''a'' [] \<noteq> None"
    using a(2) by (simp add: resume_get_def make_cache_key_def)
  ultimately show ?thesis using sess again by blast
qed

end
