(* ===== verification/Command_Line.thy ===== *)
theory Command_Line
  imports Benchmark_Properties Round_Storage Redaction
begin

text \<open>
  \<open>cli/main.py\<close>: the readiness check \<open>doctor\<close>, and \<open>run\<close>, which loads a benchmark from a factory and drives
  one phase. A command is a function of its parsed arguments; \<open>argparse\<close> itself, which builds them, is
  not modelled. Output is a list of lines.
\<close>

section \<open>Printing\<close>

text \<open>\<open>repr\<close> of a text, and of a list of texts.\<close>

definition hex_digit :: "nat \<Rightarrow> char" where
  "hex_digit k = (if k < 10 then char_of (48 + k) else char_of (87 + k))"

definition repr_char :: "char \<Rightarrow> char \<Rightarrow> string" where
  "repr_char q c = (let n = of_char c :: nat in
     if c = q \<or> n = 92 then [char_of (92 :: nat), c]
     else if n = 9 then [char_of (92 :: nat), CHR ''t'']
     else if n = 10 then [char_of (92 :: nat), CHR ''n'']
     else if n = 13 then [char_of (92 :: nat), CHR ''r'']
     else if n < 32 \<or> 127 \<le> n \<and> n \<le> 160 \<or> n = 173 then [char_of (92 :: nat), CHR ''x'', hex_digit (n div 16), hex_digit (n mod 16)]
     else [c])"

definition py_repr :: "string \<Rightarrow> string" where
  "py_repr s = (let q = (if char_of (39 :: nat) \<in> set s \<and> char_of (34 :: nat) \<notin> set s then char_of (34 :: nat) else char_of (39 :: nat))
     in [q] @ concat (map (repr_char q) s) @ [q])"

definition repr_list :: "string list \<Rightarrow> string" where
  "repr_list xs = ''['' @ join '', '' (map py_repr xs) @ '']''"

section \<open>The readiness check\<close>

text \<open>
  How the database server at a connection string answers: it cannot be reached, a statement of the schema
  setup fails, or it serves a schema of some version, if any. \<open>initialize\<close> wraps the first in an
  exception that names the server by its masked string. (The long dash of the version message is
  written as a hyphen, being outside the character range.)
\<close>

datatype server = Unreachable string string | SetupFails string | Serves "int option"

definition connect_error :: "string \<Rightarrow> string \<Rightarrow> string \<Rightarrow> string" where
  "connect_error url name sqlstate =
     ''PostgresStorage: failed to connect to '' @ py_repr (redact_dsn url) @ '': '' @ name @ '' (sqlstate='' @ sqlstate @ '')''"

definition version_error :: "int \<Rightarrow> string" where
  "version_error deployed =
     ''PostgresStorage schema 'llm_bench' is at version '' @ string_of_int deployed @
     '', but this llm_bench build expects version '' @ string_of_int SCHEMA_VERSION @
     ''. `CREATE TABLE IF NOT EXISTS` cannot retroactively add columns/constraints to an existing deployed table - run a manual migration (or point your own Alembic/etc at the schema) before using this build against this database.''"

text \<open>The text of the exception that initialising and closing a storage at the string raises.\<close>

definition check_postgres :: "(string \<Rightarrow> server) \<Rightarrow> string \<Rightarrow> string option" where
  "check_postgres server_at url =
     (case server_at url of
        Unreachable name sqlstate \<Rightarrow> Some (connect_error url name sqlstate)
      | SetupFails msg \<Rightarrow> Some msg
      | Serves version \<Rightarrow>
          (case pg_new ''llm_bench'' of Inl _ \<Rightarrow> Some []
           | Inr s \<Rightarrow> (case pg_initialize (s\<lparr>pg_version := version\<rparr>) of
                Inl _ \<Rightarrow> Some (version_error (case version of None \<Rightarrow> 0 | Some v \<Rightarrow> v))
              | Inr _ \<Rightarrow> None)))"

definition key_names :: "string list" where
  "key_names = [''OPENROUTER_API_KEY'', ''ANTHROPIC_API_KEY'', ''OPENAI_API_KEY'']"

definition cmd_doctor :: "(string \<Rightarrow> string option) \<Rightarrow> (string \<Rightarrow> server) \<Rightarrow> string list \<times> int" where
  "cmd_doctor environ server_at =
     (let present = filter (\<lambda>name. truthy (environ name)) key_names;
          (line1, ok1) =
            (if present \<noteq> []
             then (''[OK] provider API key(s) present: '' @ join '', '' present, True)
             else (''[WARN] no provider API key set (checked '' @ join '', '' key_names @ '')'', False));
          (line2, ok2) =
            (if truthy (environ ''LLM_BENCH_DB_URL'')
             then (case check_postgres server_at (the (environ ''LLM_BENCH_DB_URL'')) of
                 Some exc \<Rightarrow> (''[FAIL] Postgres unreachable at LLM_BENCH_DB_URL: '' @ exc, False)
               | None \<Rightarrow> (''[OK] Postgres reachable at LLM_BENCH_DB_URL'', ok1))
             else (''[INFO] LLM_BENCH_DB_URL not set - Postgres storage not configured (file/in-memory backends still available)'', ok1))
      in ([line1, line2], if ok2 then 0 else 1))"

section \<open>Loading a benchmark\<close>

text \<open>\<open>import_module\<close> and \<open>getattr\<close> of a module are the interpreter's.\<close>

definition load_factory ::
  "(string \<Rightarrow> pyexn + 'm) \<Rightarrow> ('m \<Rightarrow> string \<Rightarrow> pyexn + 'a) \<Rightarrow> string \<Rightarrow> pyexn + 'a" where
  "load_factory import_module get_attr spec =
     (if CHR '':'' \<notin> set spec
      then Inl (PyExn ''ValueError'' (''--factory must be in 'module.path:attr' form, got '' @ py_repr spec))
      else
        let module_path = takeWhile (\<lambda>c. c \<noteq> CHR '':'') spec; attr = tl (dropWhile (\<lambda>c. c \<noteq> CHR '':'') spec)
        in case import_module module_path of
             Inl e \<Rightarrow> Inl e
           | Inr m \<Rightarrow> (case get_attr m attr of
               Inl e \<Rightarrow> if exc_name e = ''AttributeError''
                 then Inl (PyExn ''ValueError'' (''module '' @ py_repr module_path @ '' has no attribute '' @ py_repr attr))
                 else Inl e
             | Inr a \<Rightarrow> Inr a))"

section \<open>Running a phase\<close>

record run_args =
  ra_factory :: string
  ra_tag :: string
  ra_candidates :: string
  ra_rounds :: "string option"
  ra_preflight :: bool

definition parse_candidates :: "string \<Rightarrow> string list" where
  "parse_candidates s = filter (\<lambda>c. c \<noteq> []) (map strip (split_on (CHR '','') s))"

definition parse_rounds :: "string option \<Rightarrow> int list option result" where
  "parse_rounds rounds =
     (if truthy rounds
      then (case map_result (\<lambda>r. case int_of_string r of None \<Rightarrow> Inl ValueError | Some k \<Rightarrow> Inr k)
               (filter (\<lambda>r. r \<noteq> []) (map strip (split_on (CHR '','') (the rounds)))) of
             Inl e \<Rightarrow> Inl e
           | Inr ks \<Rightarrow> Inr (Some ks))
      else Inr None)"

text \<open>How many rounds, candidates and so on; the format of the elapsed seconds is a parameter.\<close>

definition round_line :: "round_result \<Rightarrow> string" where
  "round_line rr = ''  round '' @ string_of_int (rs_round_idx rr) @ '': '' @ string_of_int (int (length (rs_candidates_in rr)))
     @ '' in -> '' @ string_of_int (int (length (rs_candidates_out rr))) @ '' out (''
     @ string_of_int (int (card (rs_eliminated rr))) @ '' eliminated)''"

definition report_lines :: "(real \<Rightarrow> string) \<Rightarrow> phase_report \<Rightarrow> string list" where
  "report_lines show_sec report =
     [''experiment_tag='' @ ph_experiment_tag report @ '' rounds_run='' @ string_of_int (int (length (ph_rounds report)))
        @ '' elapsed_sec='' @ show_sec (ph_elapsed_sec report)]
     @ map (\<lambda>out. round_line (out_result out)) (ph_rounds report)
     @ [''final_candidates='' @ repr_list (ph_final_candidates report)]"

text \<open>
  What a command leaves: an exit code with the lines on standard output and on standard error, or an
  exception, raised by the factory or by the framework.
\<close>

datatype cli_outcome = Exits int "string list" "string list" | FactoryRaises pyexn | FrameworkRaises py_error

text \<open>
  The steps of \<open>run\<close>. \<open>load\<close> is the import system with the call of the factory; the benchmark is opened by
  \<open>async with\<close> and closed whatever the phase does, and an exception of the closing prevails.
\<close>

inductive run_benchmark ::
  "'g randbelow \<Rightarrow> 'g \<Rightarrow> (real \<Rightarrow> string) \<Rightarrow> (string \<Rightarrow> pyexn + ('p, 's, 'w) benchmark \<times> ('s, 'w) bench_state) \<Rightarrow> nat list
     \<Rightarrow> run_args \<Rightarrow> cli_outcome \<Rightarrow> ('s, 'w) bench_state option \<Rightarrow> bool"
  for rb g show_sec load order a where
  factory_raises: "load (ra_factory a) = Inl e \<Longrightarrow> run_benchmark rb g show_sec load order a (FactoryRaises e) None"
| no_candidates_given: "load (ra_factory a) = Inr (bm, st) \<Longrightarrow> parse_candidates (ra_candidates a) = [] \<Longrightarrow>
     run_benchmark rb g show_sec load order a (Exits 2 [] [''error: --candidates must list at least one model id'']) (Some st)"
| bad_rounds: "load (ra_factory a) = Inr (bm, st) \<Longrightarrow> parse_candidates (ra_candidates a) \<noteq> [] \<Longrightarrow>
     parse_rounds (ra_rounds a) = Inl e \<Longrightarrow>
     run_benchmark rb g show_sec load order a (FrameworkRaises e) (Some st)"
| not_opened: "load (ra_factory a) = Inr (bm, st) \<Longrightarrow> parse_candidates (ra_candidates a) \<noteq> [] \<Longrightarrow>
     parse_rounds (ra_rounds a) = Inr rounds \<Longrightarrow> initialize bm st = (Some e, st1) \<Longrightarrow>
     run_benchmark rb g show_sec load order a (FrameworkRaises e) (Some st1)"
| phase_run: "load (ra_factory a) = Inr (bm, st) \<Longrightarrow> parse_candidates (ra_candidates a) \<noteq> [] \<Longrightarrow>
     parse_rounds (ra_rounds a) = Inr rounds \<Longrightarrow> initialize bm st = (None, st1) \<Longrightarrow>
     run_phase rb g bm order (ra_tag a) (parse_candidates (ra_candidates a)) rounds None (ra_preflight a) st1 res st2 \<Longrightarrow>
     aclose bm st2 = (err, st3) \<Longrightarrow>
     run_benchmark rb g show_sec load order a
       (case err of Some e \<Rightarrow> FrameworkRaises e
        | None \<Rightarrow> (case res of Inl e \<Rightarrow> FrameworkRaises e | Inr report \<Rightarrow> Exits 0 (report_lines show_sec report) [])) (Some st3)"

section \<open>What the commands promise\<close>

text \<open>A connection string with credentials.\<close>

abbreviation dsn :: "string \<Rightarrow> string \<Rightarrow> string \<Rightarrow> string \<Rightarrow> string" where
  "dsn scheme u p rest \<equiv> scheme @ ''://'' @ u @ '':'' @ p @ ''@'' @ rest"

text \<open>
  The readiness check does not show the database password. When the server at
  \<open>LLM_BENCH_DB_URL\<close> cannot be reached, what \<open>doctor\<close> prints and its exit code do not depend on the user and
  the password in the string, whatever they are within the URL syntax, and the check fails.
\<close>

theorem doctor_hides_credentials:
  assumes "CHR '':'' \<notin> set scheme" "u \<noteq> []" "p \<noteq> []" "u' \<noteq> []" "p' \<noteq> []"
    and "\<forall>c\<in>set u \<union> set u'. user_char c" "\<forall>c\<in>set p \<union> set p'. pass_char c"
    and "server_at (dsn scheme u p rest) = Unreachable name sqlstate" "server_at (dsn scheme u' p' rest) = Unreachable name sqlstate"
  shows "cmd_doctor (environ(''LLM_BENCH_DB_URL'' \<mapsto> dsn scheme u p rest)) server_at =
      cmd_doctor (environ(''LLM_BENCH_DB_URL'' \<mapsto> dsn scheme u' p' rest)) server_at
    \<and> snd (cmd_doctor (environ(''LLM_BENCH_DB_URL'' \<mapsto> dsn scheme u p rest)) server_at) = 1"
proof -
  have masked: "redact_dsn (dsn scheme u p rest) = redact_dsn (dsn scheme u' p' rest)"
    using redact_dsn_credentials [OF assms(1-3), of rest] redact_dsn_credentials [OF assms(1,4,5), of rest] assms(6,7) by auto
  have keys: "filter (\<lambda>name. truthy ((environ(''LLM_BENCH_DB_URL'' \<mapsto> x)) name)) key_names = filter (\<lambda>name. truthy (environ name)) key_names"
    for x by (rule filter_cong) (auto simp: key_names_def)
  have "check_postgres server_at (dsn scheme u p rest) = check_postgres server_at (dsn scheme u' p' rest)"
    "check_postgres server_at (dsn scheme u p rest) \<noteq> None"
    by (simp_all only: check_postgres_def assms(8,9) server.case connect_error_def masked) simp
  then show ?thesis by (auto simp: cmd_doctor_def Let_def keys simp del: append.simps split: option.splits)
qed

corollary doctor_hides_credentials_witness:
  "cmd_doctor [''LLM_BENCH_DB_URL'' \<mapsto> ''pg://bob:pw@h/d''] (\<lambda>_. Unreachable ''OSError'' ''None'') =
   cmd_doctor [''LLM_BENCH_DB_URL'' \<mapsto> ''pg://eve:secret@h/d''] (\<lambda>_. Unreachable ''OSError'' ''None'')"
  using doctor_hides_credentials [where scheme = "''pg''" and u = "''bob''" and p = "''pw''" and u' = "''eve''" and p' = "''secret''"
      and rest = "''h/d''" and environ = "\<lambda>_. None" and server_at = "\<lambda>_. Unreachable ''OSError'' ''None''"]
  by (simp add: user_char_def pass_char_def py_space_def)

text \<open>When the check passes.\<close>

lemma doctor_ready_iff:
  "snd (cmd_doctor environ server_at) = 0 \<longleftrightarrow>
     (\<exists>name\<in>set key_names. truthy (environ name))
     \<and> (case environ ''LLM_BENCH_DB_URL'' of None \<Rightarrow> True
        | Some url \<Rightarrow> url \<noteq> [] \<longrightarrow> server_at url \<in> {Serves None, Serves (Some SCHEMA_VERSION)})"
proof -
  have "check_postgres server_at url = None \<longleftrightarrow> server_at url \<in> {Serves None, Serves (Some SCHEMA_VERSION)}" for url
  proof -
    have "pg_new ''llm_bench'' = Inr \<lparr>pg_connected = False, pg_version = None, pg_system_prompts = [], pg_user_prompts = [],
        pg_prompts = [], pg_results = [], pg_winners = []\<rparr>"
      by (simp add: pg_new_def schema_name_ok_def ident_start_def ident_char_def)
    then show ?thesis
      by (auto simp: check_postgres_def pg_initialize_def check_or_stamp_schema_version_def split: server.splits option.splits sum.splits)
  qed
  note served = this
  show ?thesis
  proof (cases "environ ''LLM_BENCH_DB_URL''")
    case (Some url)
    with served [of url] show ?thesis
      by (cases "check_postgres server_at url") (auto simp: cmd_doctor_def Let_def filter_empty_conv)
  qed (auto simp: cmd_doctor_def Let_def filter_empty_conv)
qed

lemma spaces_plain: "list_all py_space s \<Longrightarrow> CHR '','' \<notin> set s"
  by (auto simp: list_all_iff py_space_def)

text \<open>Splitting and stripping undoes padding and joining.\<close>

definition padded :: "string \<times> string \<times> string \<Rightarrow> string" where
  "padded x = (case x of (pre, s, post) \<Rightarrow> pre @ s @ post)"

definition paddable :: "string \<times> string \<times> string \<Rightarrow> bool" where
  "paddable x = (case x of (pre, s, post) \<Rightarrow>
     list_all py_space pre \<and> list_all py_space post \<and> stripped s \<and> CHR '','' \<notin> set s)"

lemma split_padded:
  assumes "list_all paddable items"
  shows "filter (\<lambda>c. c \<noteq> []) (map strip (split_on (CHR '','') (join '','' (map padded items)))) = map (fst \<circ> snd) items"
proof (cases "items = []")
  case False
  have "CHR '','' \<notin> set (padded x)" "strip (padded x) = fst (snd x)" "fst (snd x) \<noteq> []" if "paddable x" for x
    using that spaces_plain strip_padded by (auto simp: paddable_def padded_def stripped_def split: prod.splits)
  with assms have "list_all (\<lambda>s. CHR '','' \<notin> set s) (map padded items)" "map (strip \<circ> padded) items = map (fst \<circ> snd) items"
    "\<forall>x\<in>set items. fst (snd x) \<noteq> []" by (auto simp: list_all_iff)
  with False show ?thesis by (simp add: split_join filter_id_conv)
qed (simp add: strip_def)

text \<open>
  C33: The lists of the command line read back what was written. Model ids without comma and outer white space,
  and round numbers in decimal, joined by commas with any white space around them, are parsed to exactly the
  same ids and the same numbers, in the same order.
\<close>

theorem command_line_roundtrip:
  assumes "list_all paddable items" "nums \<noteq> []"
    "list_all (\<lambda>(pre, k, post). list_all py_space pre \<and> list_all py_space post) nums"
  shows "parse_candidates (join '','' (map padded items)) = map (fst \<circ> snd) items
    \<and> parse_rounds (Some (join '','' (map (\<lambda>(pre, k, post). padded (pre, string_of_int k, post)) nums))) =
        Inr (Some (map (fst \<circ> snd) nums))"
proof -
  let ?num = "\<lambda>(pre, k, post). (pre, string_of_int k, post)"
  have "CHR '','' \<notin> set (string_of_int k)" for k
    using string_of_int_chars [of "CHR '',''" k] by (auto simp: is_digit_def)
  then have nums: "list_all paddable (map ?num nums)"
    using assms(3) stripped_string_of_int by (auto simp: list_all_iff paddable_def)
  have num: "(\<lambda>(pre, k, post). padded (pre, string_of_int k, post)) = padded \<circ> ?num" by (auto simp: fun_eq_iff)
  have split: "filter (\<lambda>c. c \<noteq> []) (map strip (split_on (CHR '','')
      (join '','' (map (\<lambda>(pre, k, post). padded (pre, string_of_int k, post)) nums)))) = map (string_of_int \<circ> fst \<circ> snd) nums"
    using split_padded [OF nums] unfolding num by (simp add: comp_def case_prod_beta)
  have ne: "join '','' (map (\<lambda>(pre, k, post). padded (pre, string_of_int k, post)) nums) \<noteq> []"
  proof
    assume "join '','' (map (\<lambda>(pre, k, post). padded (pre, string_of_int k, post)) nums) = []"
    with split assms(2) show False by (simp add: strip_def)
  qed
  have "map_result (\<lambda>r. case int_of_string r of None \<Rightarrow> Inl ValueError | Some k \<Rightarrow> Inr k) (map (string_of_int \<circ> fst \<circ> snd) nums)
      = Inr (map (fst \<circ> snd) nums)"
    by (induction nums) simp_all
  with split ne split_padded [OF assms(1)] show ?thesis by (simp add: parse_rounds_def parse_candidates_def)
qed

corollary command_line_roundtrip_witness:
  "parse_candidates ''a/x , b'' = [''a/x'', ''b''] \<and> parse_rounds (Some ''1, -2'') = Inr (Some [1, - 2])"
proof -
  have "string_of_int 1 = ''1''" "string_of_int (- 2) = ''-2''" by code_simp+
  with command_line_roundtrip [of "[([], ''a/x'', '' ''), ('' '', ''b'', [])]" "[([], 1, []), ('' '', - 2, [])]"]
  show ?thesis by (simp add: paddable_def padded_def stripped_def py_space_def)
qed

text \<open>
  A full run names at most one winner. If \<open>run\<close> without \<open>--rounds\<close> exits with code 0, at least one
  model id was given, and the last line printed shows at most one model, one of those given; nothing is
  written to standard error and there is one line per round between the first and the last.
\<close>

theorem full_run_names_one_winner:
  assumes "run_benchmark rb g show_sec load order a (Exits 0 lines errs) st'" "load (ra_factory a) = Inr (bm, st)"
    "rng_ok rb" "stage_graph (bm_stages bm) = Inr gs" "bm_stages bm \<noteq> []" "schedule_ok (bm_halving_schedule bm)"
    "\<not> truthy (ra_rounds a)" "distinct (parse_candidates (ra_candidates a)) \<or> ra_preflight a"
  shows "\<exists>rep. lines = report_lines show_sec rep \<and> errs = [] \<and> parse_candidates (ra_candidates a) \<noteq> []
    \<and> last lines = ''final_candidates='' @ repr_list (ph_final_candidates rep)
    \<and> length lines = length (ph_rounds rep) + 2
    \<and> length (ph_final_candidates rep) \<le> 1
    \<and> set (ph_final_candidates rep) \<subseteq> set (parse_candidates (ra_candidates a))"
  using assms(1)
proof (cases rule: run_benchmark.cases)
  case (phase_run bm1 st1 rounds st2 res st3 err st4)
  from phase_run assms(2) have bm: "bm1 = bm" by simp
  from phase_run(1) obtain rep where res: "res = Inr rep" "lines = report_lines show_sec rep" "errs = []"
    by (auto split: option.splits sum.splits)
  from phase_run assms(7) have rounds: "rounds = None" by (simp add: parse_rounds_def)
  from phase_run have "run_phase rb g bm order (ra_tag a) (parse_candidates (ra_candidates a)) rounds None (ra_preflight a) st2 (Inr rep) st3"
    by (simp add: bm res)
  from phase_candidate_lists [OF this assms(3-6,8)] obtain cs where cs: "set cs \<subseteq> set (parse_candidates (ra_candidates a))"
    "sorted_wrt (\<lambda>a b. set b \<subseteq> set a) (candidate_lists cs (ph_rounds rep))"
    "ph_final_candidates rep = last (candidate_lists cs (ph_rounds rep))" "length (ph_final_candidates rep) \<le> 1"
    unfolding rounds by blast
  from cs(1,3) last_of_lists [OF cs(2)] have "set (ph_final_candidates rep) \<subseteq> set (parse_candidates (ra_candidates a))" by simp
  with res cs(4) phase_run show ?thesis by (intro exI [of _ rep]) (simp add: report_lines_def)
qed simp_all

corollary full_run_names_one_winner_witness:
  "\<exists>lines st'. run_benchmark counter_rng 0 (\<lambda>_. ''0.0'')
      (\<lambda>_. Inr (solo_bench, \<lparr>bs_initialized = False, bs_world = demo_world None\<rparr>)) []
      \<lparr>ra_factory = ''m:f'', ra_tag = ''t'', ra_candidates = '' a'', ra_rounds = None, ra_preflight = False\<rparr>
      (Exits 0 lines []) st' \<and> lines \<noteq> []"
proof -
  let ?st = "\<lparr>bs_initialized = False, bs_world = demo_world None\<rparr>"
  let ?a = "\<lparr>ra_factory = ''m:f'', ra_tag = ''t'', ra_candidates = '' a'', ra_rounds = None, ra_preflight = False\<rparr>"
  let ?load = "\<lambda>_ :: string. Inr (solo_bench, ?st) :: pyexn + _"
  have cands: "parse_candidates '' a'' = [''a'']" by (simp add: parse_candidates_def strip_def py_space_def)
  have init: "initialize solo_bench ?st = (None, \<lparr>bs_initialized = True, bs_world = demo_world None\<rparr>)"
    by (simp add: initialize_def solo_bench_def demo_world_def resume_populate_def Let_def)
  obtain rep st' where "run_phase counter_rng 0 solo_bench [] ''t'' [''a''] None None False
      \<lparr>bs_initialized = True, bs_world = demo_world None\<rparr> (Inr rep) st'" using solo_bench_phase by blast
  moreover have "aclose solo_bench st' = (None, st')" by (simp add: aclose_def solo_bench_def Let_def)
  ultimately have "run_benchmark counter_rng 0 (\<lambda>_. ''0.0'') ?load [] ?a
      (case None of Some e \<Rightarrow> FrameworkRaises e
        | None \<Rightarrow> (case Inr rep of Inl e \<Rightarrow> FrameworkRaises e | Inr report \<Rightarrow> Exits 0 (report_lines (\<lambda>_. ''0.0'') report) [])) (Some st')"
    using init by (intro phase_run) (simp_all add: cands parse_rounds_def)
  then have run: "run_benchmark counter_rng 0 (\<lambda>_. ''0.0'') ?load [] ?a (Exits 0 (report_lines (\<lambda>_. ''0.0'') rep) []) (Some st')" by simp
  have "lines \<noteq> []" if "length lines = n + 2" for lines :: "string list" and n using that by auto
  with full_run_names_one_winner [OF run _ counter_rng_ok solo_bench_ok] run cands show ?thesis
    by (auto simp: report_lines_def)
qed

text \<open>
  C40: A benchmark that is not opened completely is not closed. When the storage is initialised but the resume cache cannot be filled from
  it, \<open>__aenter__\<close> raises, so \<open>async with\<close> never calls \<open>aclose\<close>: \<open>run\<close> ends with that exception and leaves the storage
  as \<open>initialize\<close> made it, with its connections.
\<close>

theorem failed_open_leaves_storage_open:
  assumes "load (ra_factory a) = Inr (bm, st)" "parse_candidates (ra_candidates a) \<noteq> []" "parse_rounds (ra_rounds a) = Inr rounds"
    and "\<not> bs_initialized st" "bm_storage_initialize bm (ro_store (bs_world st)) = (None, s)" "bm_prefetch bm s = Inl e"
  shows "run_benchmark rb g show_sec load order a out final \<longleftrightarrow>
    out = FrameworkRaises e \<and> final = Some (st\<lparr>bs_world := (bs_world st)\<lparr>ro_store := s\<rparr>\<rparr>)"
proof -
  let ?st = "st\<lparr>bs_world := (bs_world st)\<lparr>ro_store := s\<rparr>\<rparr>"
  have init: "initialize bm st = (Some e, ?st)" using assms(4-6) by (simp add: initialize_def Let_def)
  have "out = FrameworkRaises e \<and> final = Some ?st" if "run_benchmark rb g show_sec load order a out final"
    using that by cases (use assms(1-3) init in simp_all)
  moreover have "run_benchmark rb g show_sec load order a (FrameworkRaises e) (Some ?st)"
    using assms(1-3) init by (rule not_opened)
  ultimately show ?thesis by blast
qed

corollary failed_open_leaves_storage_open_witness:
  "run_benchmark counter_rng 0 (\<lambda>_. ''0.0'')
      (\<lambda>_. Inr (solo_bench\<lparr>bm_prefetch := \<lambda>_. Inl RuntimeError\<rparr>, \<lparr>bs_initialized = False, bs_world = demo_world None\<rparr>)) []
      \<lparr>ra_factory = ''m:f'', ra_tag = ''t'', ra_candidates = '' a'', ra_rounds = None, ra_preflight = False\<rparr>
      (FrameworkRaises RuntimeError) (Some \<lparr>bs_initialized = False, bs_world = demo_world None\<rparr>)"
proof -
  have cands: "parse_candidates '' a'' = [''a'']" by (simp add: parse_candidates_def strip_def py_space_def)
  let ?bm = "solo_bench\<lparr>bm_prefetch := \<lambda>_. Inl RuntimeError\<rparr>" and ?st = "\<lparr>bs_initialized = False, bs_world = demo_world None\<rparr>"
  have "bm_storage_initialize ?bm (ro_store (bs_world ?st)) = (None, ())" "bm_prefetch ?bm () = Inl RuntimeError"
    by (simp_all add: solo_bench_def Let_def)
  note only = failed_open_leaves_storage_open [where bm = ?bm and st = ?st and s = "()" and e = RuntimeError and rounds = None, OF _ _ _ _ this]
  show ?thesis
    by (rule iffD2 [OF only]) (simp_all add: cands parse_rounds_def demo_world_def)
qed

end
