(* ===== verification/Cost_Estimate.thy ===== *)
theory Cost_Estimate
  imports Prelude "HOL-Library.Product_Lexorder"
begin

text \<open>
  \<open>cost/catalogue.py\<close>, \<open>cost/filter.py\<close> and \<open>cost/estimator.py\<close>: which models of a catalogue pass the filter,
  what a call to each would cost, and which are handed to a benchmark as its candidates.
\<close>

section \<open>The catalogue and the filter\<close>

record catalogue_entry =
  ce_model_id :: string
  ce_input_price_per_m :: "real option"
  ce_output_price_per_m :: "real option"
  ce_input_cache_read_price_per_m :: "real option"
  ce_context_length :: "int option"
  ce_max_completion_tokens :: "int option"
  ce_supports_reasoning :: bool
  ce_supports_json_mode :: bool
  ce_is_moderated :: bool
  ce_best_uptime_30m :: "real option"
  ce_best_latency_p50_ms :: "real option"
  ce_best_throughput_p50_tps :: "real option"
  ce_best_upstream_provider :: "string option"

definition DEFAULT_MIN_UPTIME :: real where
  "DEFAULT_MIN_UPTIME = 95 / 100"

record cost_filter =
  cf_max_output_price_per_m :: "real option"
  cf_max_input_price_per_m :: "real option"
  cf_min_context_length :: "int option"
  cf_require_json_mode :: bool
  cf_require_healthy :: bool
  cf_min_uptime :: real
  cf_moderated_penalty :: real
  cf_exclude_moderated :: bool

definition default_cost_filter :: cost_filter where
  "default_cost_filter = \<lparr>cf_max_output_price_per_m = Some 2, cf_max_input_price_per_m = None,
     cf_min_context_length = Some 64000, cf_require_json_mode = True, cf_require_healthy = True,
     cf_min_uptime = DEFAULT_MIN_UPTIME, cf_moderated_penalty = 115 / 100, cf_exclude_moderated = False\<rparr>"

text \<open>A price bound: no bound, or a known price within it.\<close>

definition price_within :: "real option \<Rightarrow> real option \<Rightarrow> bool" where
  "price_within bound price = (case bound of None \<Rightarrow> True
     | Some b \<Rightarrow> (case price of None \<Rightarrow> False | Some p \<Rightarrow> \<not> p > b))"

definition keep :: "cost_filter \<Rightarrow> catalogue_entry \<Rightarrow> bool" where
  "keep f e =
     (if \<not> price_within (cf_max_output_price_per_m f) (ce_output_price_per_m e) then False
      else if \<not> price_within (cf_max_input_price_per_m f) (ce_input_price_per_m e) then False
      else if (case cf_min_context_length f of None \<Rightarrow> False | Some n \<Rightarrow> n > 0 \<and>
               (case ce_context_length e of None \<Rightarrow> True | Some c \<Rightarrow> c < n)) then False
      else if cf_require_json_mode f \<and> \<not> ce_supports_json_mode e then False
      else if cf_require_healthy f \<and>
              (case ce_best_uptime_30m e of None \<Rightarrow> False | Some u \<Rightarrow> u < cf_min_uptime f) then False
      else if cf_exclude_moderated f \<and> ce_is_moderated e then False
      else True)"

section \<open>The cost of a call\<close>

record cost_profile =
  cp_system_tokens :: int
  cp_user_tokens :: int
  cp_output_tokens :: int
  cp_reasoning_tokens :: int
  cp_cache_hit_ratio :: real

definition default_profile :: cost_profile where
  "default_profile = \<lparr>cp_system_tokens = 10000, cp_user_tokens = 1000, cp_output_tokens = 2000,
     cp_reasoning_tokens = 1000, cp_cache_hit_ratio = 7 / 10\<rparr>"

record cost_estimate =
  es_entry :: catalogue_entry
  es_cost_usd :: real
  es_fresh_input_cost :: real
  es_cached_input_cost :: real
  es_output_cost :: real
  es_per_request_fee :: real
  es_has_cache_pricing :: bool

abbreviation es_model_id :: "cost_estimate \<Rightarrow> string" where
  "es_model_id e \<equiv> ce_model_id (es_entry e)"

definition estimate_call_cost ::
  "real option \<Rightarrow> real option \<Rightarrow> real option \<Rightarrow> real \<Rightarrow> cost_profile
     \<Rightarrow> (real \<times> real \<times> real \<times> real \<times> bool) option" where
  "estimate_call_cost input_price output_price cache_read_price request_fee profile =
     (case (input_price, output_price) of
        (Some ip, Some op) \<Rightarrow>
          if ip < 0 \<or> op < 0 then None
          else
            let p_prompt = ip / 1000000; p_completion = op / 1000000;
                (p_cache_read, has_cache) =
                  (case cache_read_price of Some c \<Rightarrow> if c > 0 then (c / 1000000, True) else (p_prompt, False)
                   | None \<Rightarrow> (p_prompt, False));
                ratio = max 0 (min 1 (cp_cache_hit_ratio profile));
                cached_tokens = ratio * of_int (cp_system_tokens profile);
                fresh_tokens = (1 - ratio) * of_int (cp_system_tokens profile) + of_int (cp_user_tokens profile);
                out_total = cp_output_tokens profile + max 0 (cp_reasoning_tokens profile);
                cached_cost = cached_tokens * p_cache_read;
                fresh_cost = fresh_tokens * p_prompt;
                output_cost = of_int out_total * p_completion
            in Some (cached_cost + fresh_cost + output_cost + request_fee, fresh_cost, cached_cost, output_cost, has_cache)
      | _ \<Rightarrow> None)"

definition provider_of :: "string \<Rightarrow> string" where
  "provider_of model_id = (if CHR ''/'' \<in> set model_id then takeWhile (\<lambda>c. c \<noteq> CHR ''/'') model_id else model_id)"

section \<open>The cheapest models\<close>

definition estimate_entry :: "cost_filter \<Rightarrow> cost_profile \<Rightarrow> string set \<Rightarrow> catalogue_entry \<Rightarrow> cost_estimate option" where
  "estimate_entry f profile blacklist e =
     (if ce_model_id e = [] \<or> ce_model_id e \<in> blacklist then None
      else if \<not> keep f e then None
      else case estimate_call_cost (ce_input_price_per_m e) (ce_output_price_per_m e)
             (ce_input_cache_read_price_per_m e) 0 profile of
          None \<Rightarrow> None
        | Some (cost, fresh, cached, output, has_cache) \<Rightarrow> Some
            \<lparr>es_entry = e, es_cost_usd = cost, es_fresh_input_cost = fresh, es_cached_input_cost = cached,
             es_output_cost = output, es_per_request_fee = 0, es_has_cache_pricing = has_cache\<rparr>)"

type_synonym rank_key = "real \<times> int \<times> int \<times> int \<times> real \<times> xreal"

definition rank_cost :: "cost_filter \<Rightarrow> cost_estimate \<Rightarrow> real" where
  "rank_cost f e = (if ce_is_moderated (es_entry e) then es_cost_usd e * cf_moderated_penalty f else es_cost_usd e)"

definition sort_key_of :: "cost_filter \<Rightarrow> cost_estimate \<Rightarrow> rank_key" where
  "sort_key_of f e =
     (let en = es_entry e in
      (rank_cost f e, - or0 (ce_context_length en), - or0 (ce_max_completion_tokens en),
       - (if ce_supports_reasoning en then 1 else 0), - or0 (ce_best_uptime_30m en),
       case ce_best_latency_p50_ms en of Some l \<Rightarrow> Fin l | None \<Rightarrow> PInf))"

text \<open>The loops of the selection, over the list of the selected and the set of their ids.\<close>

definition take_seat :: "cost_estimate \<Rightarrow> cost_estimate list \<times> string set \<Rightarrow> cost_estimate list \<times> string set" where
  "take_seat e st = (case st of (selected, seen) \<Rightarrow>
     if es_model_id e \<notin> seen then (selected @ [e], insert (es_model_id e) seen) else st)"

definition reserve_seats :: "int \<Rightarrow> cost_estimate list \<Rightarrow> cost_estimate list \<times> string set" where
  "reserve_seats k estimates =
     (if k > 0 \<and> estimates \<noteq> [] then
        let per_provider = fold (\<lambda>e. dappend (provider_of (es_model_id e)) e) estimates []
        in fold (\<lambda>(p, models) st. fold take_seat (take (nat k) models) st) per_provider ([], {})
      else ([], {}))"

fun top_up :: "nat \<Rightarrow> cost_estimate list \<Rightarrow> cost_estimate list \<times> string set \<Rightarrow> cost_estimate list \<times> string set" where
  "top_up n [] st = st"
| "top_up n (e # es) (selected, seen) =
     (if n = 0 then (selected, seen)
      else if es_model_id e \<in> seen then top_up n es (selected, seen)
      else top_up (n - 1) es (selected @ [e], insert (es_model_id e) seen))"

definition select_top :: "cost_filter \<Rightarrow> int \<Rightarrow> int \<Rightarrow> cost_estimate list \<Rightarrow> cost_estimate list" where
  "select_top f n k estimates =
     (let st = reserve_seats k estimates
      in sort_key (sort_key_of f) (fst (top_up (nat (max 0 (n - int (length (fst st))))) estimates st)))"

text \<open>\<open>catalogue\<close> is \<open>list_models\<close>: refresh, only healthy, minimal uptime.\<close>

definition estimate_top_n_by_cost ::
  "(bool \<Rightarrow> bool \<Rightarrow> real \<Rightarrow> catalogue_entry list result) \<Rightarrow> int \<Rightarrow> cost_profile option \<Rightarrow> cost_filter option
     \<Rightarrow> bool \<Rightarrow> int \<Rightarrow> bool \<Rightarrow> string list option \<Rightarrow> cost_estimate list result" where
  "estimate_top_n_by_cost catalogue n profile filter_opt include_reasoning k refresh blacklist =
     (let p0 = (case profile of None \<Rightarrow> default_profile | Some p \<Rightarrow> p);
          p = (if include_reasoning then p0 else p0\<lparr>cp_reasoning_tokens := 0\<rparr>);
          f = (case filter_opt of None \<Rightarrow> default_cost_filter | Some f \<Rightarrow> f);
          black = set (filter (\<lambda>m. m \<noteq> []) (case blacklist of None \<Rightarrow> [] | Some b \<Rightarrow> b))
      in case catalogue refresh (cf_require_healthy f) (cf_min_uptime f) of
           Inl e \<Rightarrow> Inl e
         | Inr rows \<Rightarrow> Inr (select_top f n k (sort_key (sort_key_of f) (List.map_filter (estimate_entry f p black) rows))))"

section \<open>What the loops select\<close>

definition ranked_estimates :: "cost_filter \<Rightarrow> cost_profile \<Rightarrow> string set \<Rightarrow> catalogue_entry list \<Rightarrow> cost_estimate list" where
  "ranked_estimates f p black rows = sort_key (sort_key_of f) (List.map_filter (estimate_entry f p black) rows)"

text \<open>The seats of a provider: the first \<open>k\<close> of its models in the order of the estimates.\<close>

definition has_seat :: "int \<Rightarrow> cost_estimate list \<Rightarrow> cost_estimate \<Rightarrow> bool" where
  "has_seat k es e \<longleftrightarrow> e \<in> set (take (nat k) (filter (\<lambda>x. provider_of (es_model_id x) = provider_of (es_model_id e)) es))"

definition seats_ok :: "cost_estimate list \<times> string set \<Rightarrow> bool" where
  "seats_ok st \<longleftrightarrow> snd st = es_model_id ` set (fst st) \<and> distinct (map es_model_id (fst st))"

lemma take_seat_ok: "seats_ok st \<Longrightarrow> seats_ok (take_seat e st)"
  by (auto simp: seats_ok_def take_seat_def split: prod.splits)

lemma fold_take_seat_ok: "seats_ok st \<Longrightarrow> seats_ok (fold take_seat es st)"
  by (induction es arbitrary: st) (simp_all add: take_seat_ok)

lemma fold_take_seat_set:
  assumes "seats_ok st" "inj_on es_model_id (set (fst st) \<union> set es)"
  shows "set (fst (fold take_seat es st)) = set (fst st) \<union> set es"
  using assms
proof (induction es arbitrary: st)
  case (Cons e es)
  have one: "set (fst (take_seat e st)) = insert e (set (fst st))"
    using Cons.prems by (auto simp: take_seat_def seats_ok_def inj_on_def split: prod.splits)
  have "inj_on es_model_id (set (fst (take_seat e st)) \<union> set es)"
    by (rule inj_on_subset [OF Cons.prems(2)]) (auto simp: one)
  with Cons.IH [OF take_seat_ok [OF Cons.prems(1)]] one show ?case by simp
qed simp

lemma fold_groups_seats:
  assumes "seats_ok st" "inj_on es_model_id (set (fst st) \<union> (\<Union>(p, ms)\<in>set g. set ms))"
  shows "seats_ok (fold (\<lambda>(p, ms) st. fold take_seat (take n ms) st) g st)
    \<and> set (fst (fold (\<lambda>(p, ms) st. fold take_seat (take n ms) st) g st)) = set (fst st) \<union> (\<Union>(p, ms)\<in>set g. set (take n ms))"
  using assms
proof (induction g arbitrary: st)
  case (Cons x g)
  obtain p ms where x: "x = (p, ms)" by fastforce
  let ?st = "fold take_seat (take n ms) st"
  have "inj_on es_model_id (set (fst st) \<union> set (take n ms))"
    by (rule inj_on_subset [OF Cons.prems(2)]) (use set_take_subset [of n ms] in \<open>auto simp: x\<close>)
  note one = fold_take_seat_set [OF Cons.prems(1) this]
  have "inj_on es_model_id (set (fst ?st) \<union> (\<Union>(p, ms)\<in>set g. set ms))"
    unfolding one by (rule inj_on_subset [OF Cons.prems(2)]) (use set_take_subset [of n ms] in \<open>auto simp: x\<close>)
  with Cons.IH [OF fold_take_seat_ok [OF Cons.prems(1)]] show ?case by (auto simp: x one)
qed simp

lemma reserved_seats:
  assumes "distinct (map es_model_id es)"
  shows "seats_ok (reserve_seats k es)"
    and "set (fst (reserve_seats k es)) = {e \<in> set es. 0 < k \<and> has_seat k es e}"
proof -
  let ?g = "fold (\<lambda>e. dappend (provider_of (es_model_id e)) e) es []"
  have inj: "inj_on es_model_id (set es)" using assms by (simp add: distinct_map)
  have groups: "groups_ok ?g" by (rule groups_ok_fold) simp_all
  have lookup: "dget ?g p [] = filter (\<lambda>x. provider_of (es_model_id x) = p) es" for p
    by (simp add: dget_fold_dappend)
  have mem: "(p, ms) \<in> set ?g \<longleftrightarrow> ms \<noteq> [] \<and> ms = filter (\<lambda>x. provider_of (es_model_id x) = p) es" for p ms
  proof -
    have "(p, ms) \<in> set ?g \<longleftrightarrow> map_of ?g p = Some ms" using groups by (simp add: groups_ok_def dict_ok_def)
    then show ?thesis unfolding map_of_groups [OF groups] lookup by auto
  qed
  have empty: "seats_ok ([], {})" by (simp add: seats_ok_def)
  have "(\<Union>(p, ms)\<in>set ?g. set ms) \<subseteq> set es" by (auto simp: mem)
  then have "inj_on es_model_id (set (fst ([], {} :: string set)) \<union> (\<Union>(p, ms)\<in>set ?g. set ms))"
    by (intro inj_on_subset [OF inj]) simp
  note all = fold_groups_seats [OF empty this, of "nat k"]
  from all empty show "seats_ok (reserve_seats k es)" by (auto simp: reserve_seats_def)
  have "(\<Union>(p, ms)\<in>set ?g. set (take (nat k) ms)) = {e \<in> set es. has_seat k es e}"
  proof (intro equalityI subsetI)
    fix e
    assume "e \<in> (\<Union>(p, ms)\<in>set ?g. set (take (nat k) ms))"
    then obtain p where "e \<in> set (take (nat k) (filter (\<lambda>x. provider_of (es_model_id x) = p) es))" by (auto simp: mem)
    moreover from this have "e \<in> set (filter (\<lambda>x. provider_of (es_model_id x) = p) es)" by (rule in_set_takeD)
    ultimately show "e \<in> {e \<in> set es. has_seat k es e}" by (auto simp: has_seat_def)
  next
    fix e
    assume "e \<in> {e \<in> set es. has_seat k es e}"
    then have "(provider_of (es_model_id e), filter (\<lambda>x. provider_of (es_model_id x) = provider_of (es_model_id e)) es) \<in> set ?g"
      "e \<in> set (take (nat k) (filter (\<lambda>x. provider_of (es_model_id x) = provider_of (es_model_id e)) es))"
      by (auto simp: mem has_seat_def filter_empty_conv)
    then show "e \<in> (\<Union>(p, ms)\<in>set ?g. set (take (nat k) ms))" by (rule_tac UN_I) auto
  qed
  with all show "set (fst (reserve_seats k es)) = {e \<in> set es. 0 < k \<and> has_seat k es e}"
    by (auto simp: reserve_seats_def)
qed

lemma top_up_eq:
  assumes "distinct (map es_model_id es)"
  shows "fst (top_up n es (selected, seen)) = selected @ take n (filter (\<lambda>e. es_model_id e \<notin> seen) es)"
  using assms
proof (induction n es "(selected, seen)" arbitrary: selected seen rule: top_up.induct)
  case (2 n e es selected seen)
  show ?case
  proof (cases "n = 0 \<or> es_model_id e \<in> seen")
    case False
    have "filter (\<lambda>x. es_model_id x \<notin> insert (es_model_id e) seen) es = filter (\<lambda>x. es_model_id x \<notin> seen) es"
      using 2(3) by (intro filter_cong) (auto simp: image_iff)
    with False 2(2,3) show ?thesis by (cases n) simp_all
  qed (use 2 in auto)
qed simp

lemma select_top_spec:
  fixes f :: cost_filter and es :: "cost_estimate list" and k n :: int
  assumes d: "distinct (map es_model_id es)" and sorted: "sorted (map (sort_key_of f) es)"
  defines "R \<equiv> {e \<in> set es. 0 < k \<and> has_seat k es e}"
  shows "sorted (map (sort_key_of f) (select_top f n k es))" "distinct (select_top f n k es)"
    "R \<subseteq> set (select_top f n k es)" "set (select_top f n k es) \<subseteq> set es"
    "length (select_top f n k es) = max (card R) (min (nat n) (length es))"
    "e \<in> set (select_top f n k es) \<Longrightarrow> e \<notin> R \<Longrightarrow> x \<in> set es \<Longrightarrow> x \<notin> set (select_top f n k es) \<Longrightarrow>
       sort_key_of f e \<le> sort_key_of f x"
proof -
  obtain sel seen where st: "reserve_seats k es = (sel, seen)" by fastforce
  note seats = reserved_seats [OF d, of k, unfolded st fst_conv, folded R_def]
  have seen: "seen = es_model_id ` R" "distinct sel" "set sel = R"
    using seats by (auto simp: seats_ok_def distinct_map)
  let ?rest = "filter (\<lambda>e. e \<notin> R) es" and ?m = "nat (max 0 (n - int (length sel)))"
  have "filter (\<lambda>e. es_model_id e \<notin> seen) es = ?rest"
  proof (rule filter_cong [OF refl])
    fix x
    assume "x \<in> set es"
    then show "(es_model_id x \<notin> seen) = (x \<notin> R)"
      using d by (auto simp: seen(1) R_def distinct_map dest: inj_onD)
  qed
  then have sel: "select_top f n k es = sort_key (sort_key_of f) (sel @ take ?m ?rest)"
    by (simp add: select_top_def Let_def st top_up_eq [OF d])
  have des: "distinct es" using d by (simp add: distinct_map)
  have set_sel: "set (select_top f n k es) = R \<union> set (take ?m ?rest)" by (simp add: sel seen(3))
  have take_rest: "set (take ?m ?rest) \<subseteq> set es - R" using set_take_subset [of ?m ?rest] by auto
  show "sorted (map (sort_key_of f) (select_top f n k es))" by (simp add: sel)
  show "distinct (select_top f n k es)"
    using des take_rest seen(2,3) by (auto simp: sel)
  show "R \<subseteq> set (select_top f n k es)" by (simp add: set_sel)
  show "set (select_top f n k es) \<subseteq> set es" using take_rest by (auto simp: set_sel R_def)
  have "card R = length sel" using seen(2,3) by (metis distinct_card)
  moreover have "length ?rest + card R = length es"
  proof -
    have "{x \<in> set es. x \<in> R} = R" by (auto simp: R_def)
    then have "length (filter (\<lambda>e. e \<in> R) es) = card R" using des by (simp add: distinct_length_filter Int_def conj_commute)
    then show ?thesis using sum_length_filter_compl [of "\<lambda>e. e \<in> R" es] by simp
  qed
  ultimately show "length (select_top f n k es) = max (card R) (min (nat n) (length es))"
    unfolding sel length_sort length_append length_take by linarith
  assume e: "e \<in> set (select_top f n k es)" "e \<notin> R" and x: "x \<in> set es" "x \<notin> set (select_top f n k es)"
  have "e \<in> set (take ?m ?rest)" using e by (auto simp: set_sel)
  moreover have "x \<in> set (drop ?m ?rest)"
  proof -
    have "x \<in> set (take ?m ?rest @ drop ?m ?rest)" using x by (simp add: set_sel)
    then show ?thesis using x by (auto simp: set_sel simp del: append_take_drop_id)
  qed
  moreover have "sorted (map (sort_key_of f) (take ?m ?rest @ drop ?m ?rest))"
    using sorted by (simp add: sorted_filter)
  ultimately show "sort_key_of f e \<le> sort_key_of f x"
    unfolding map_append sorted_append by auto
qed

text \<open>Whatever the ids, only estimates are selected.\<close>

lemma fold_take_seat_subset: "set (fst (fold take_seat es st)) \<subseteq> set (fst st) \<union> set es"
proof (induction es arbitrary: st)
  case (Cons e es)
  have "set (fst (take_seat e st)) \<subseteq> insert e (set (fst st))" by (auto simp: take_seat_def split: prod.splits)
  with Cons.IH [of "take_seat e st"] show ?case by auto
qed simp

lemma fold_groups_subset:
  "(\<And>p ms. (p, ms) \<in> set g \<Longrightarrow> set ms \<subseteq> A) \<Longrightarrow> set (fst st) \<subseteq> A \<Longrightarrow>
   set (fst (fold (\<lambda>(p, ms) st. fold take_seat (take n ms) st) g st)) \<subseteq> A"
proof (induction g arbitrary: st)
  case (Cons x g)
  obtain p ms where x: "x = (p, ms)" by fastforce
  have "set ms \<subseteq> A" using Cons.prems(1) [of p ms] by (simp add: x)
  then have "set (fst (fold take_seat (take n ms) st)) \<subseteq> A"
    using Cons.prems(2) fold_take_seat_subset [of "take n ms" st] set_take_subset [of n ms] by blast
  then show ?case using Cons.prems(1) by (simp add: x) (rule Cons.IH; auto)
qed simp

lemma top_up_subset: "set (fst (top_up n es st)) \<subseteq> set (fst st) \<union> set es"
  by (induction n es st rule: top_up.induct) auto

lemma reserve_seats_subset: "set (fst (reserve_seats k es)) \<subseteq> set es"
proof -
  let ?g = "fold (\<lambda>e. dappend (provider_of (es_model_id e)) e) es []"
  have groups: "groups_ok ?g" by (rule groups_ok_fold) simp_all
  have "set ms \<subseteq> set es" if "(p, ms) \<in> set ?g" for p ms
  proof -
    from that groups have "map_of ?g p = Some ms" by (simp add: groups_ok_def dict_ok_def)
    then have "ms = dget ?g p []" by (simp add: dget_def)
    then show ?thesis by (simp add: dget_fold_dappend)
  qed
  from fold_groups_subset [where g = ?g and A = "set es" and st = "([], {})" and n = "nat k", OF this]
  show ?thesis by (simp add: reserve_seats_def)
qed

lemma select_top_subset: "set (select_top f n k es) \<subseteq> set es"
  using top_up_subset [of _ es "reserve_seats k es"] reserve_seats_subset [of k es]
  unfolding select_top_def Let_def set_sort by blast

text \<open>
  C15: The selection of the candidates. Of the models that pass the filter and have usable prices, sorted by the
  key, every one among the first \<open>k\<close> of its provider is selected, though they be more than \<open>n\<close>; the
  rest of the \<open>n\<close> places go to the models with the least keys, so no model left out precedes a selected
  one without a reserved seat. The result is sorted, has no repetition, and its length is the number of
  reserved seats or \<open>n\<close> or all there are.
\<close>

theorem top_n_selection:
  fixes f :: cost_filter and p :: cost_profile and rows :: "catalogue_entry list" and black :: "string list" and k n :: int
  assumes "estimate_top_n_by_cost (\<lambda>_ _ _. Inr rows) n (Some p) (Some f) True k refresh (Some black) = Inr res"
    "distinct (map ce_model_id rows)"
  defines "es \<equiv> ranked_estimates f p (set black - {[]}) rows"
  defines "R \<equiv> {e \<in> set es. 0 < k \<and> has_seat k es e}"
  shows "sorted (map (sort_key_of f) res) \<and> distinct res \<and> R \<subseteq> set res \<and> set res \<subseteq> set es
    \<and> length res = max (card R) (min (nat n) (length es))
    \<and> (\<forall>e\<in>set res - R. \<forall>x\<in>set es - set res. sort_key_of f e \<le> sort_key_of f x)"
proof -
  have "set (filter (\<lambda>m. m \<noteq> []) black) = set black - {[]}" by auto
  with assms(1) have res: "res = select_top f n k es"
    by (simp add: estimate_top_n_by_cost_def es_def ranked_estimates_def Let_def)
  have "distinct (map es_model_id (List.map_filter (estimate_entry f p B) rows))" for B
  proof -
    have id: "estimate_entry f p B e = Some x \<Longrightarrow> es_model_id x = ce_model_id e" for e x
      by (auto simp: estimate_entry_def split: if_splits option.splits)
    have sub: "set (map es_model_id (List.map_filter (estimate_entry f p B) es)) \<subseteq> ce_model_id ` set es" for es
      using id by (induction es) (auto simp: List.map_filter_simps split: option.splits)
    show ?thesis
      using assms(2)
    proof (induction rows)
      case (Cons e rows)
      with id [of e] sub [of rows] show ?case by (auto simp: List.map_filter_simps split: option.split)
    qed (simp add: List.map_filter_simps)
  qed
  then have d: "distinct (map es_model_id es)"
    unfolding es_def ranked_estimates_def by (metis distinct_map distinct_sort set_sort)
  have sorted: "sorted (map (sort_key_of f) es)" by (simp add: es_def ranked_estimates_def)
  note spec = select_top_spec [OF d sorted, where n = n and k = k, folded res, folded R_def]
  from spec(6) have "\<forall>e\<in>set res - R. \<forall>x\<in>set es - set res. sort_key_of f e \<le> sort_key_of f x" by blast
  then show ?thesis using spec(1-5) by (intro conjI)
qed

text \<open>Three models of two vendors; the dearest is the only one of its vendor.\<close>

definition priced :: "string \<Rightarrow> real \<Rightarrow> catalogue_entry" where
  "priced m price = \<lparr>ce_model_id = m, ce_input_price_per_m = Some price, ce_output_price_per_m = Some price,
     ce_input_cache_read_price_per_m = None, ce_context_length = Some 64000, ce_max_completion_tokens = None,
     ce_supports_reasoning = False, ce_supports_json_mode = True, ce_is_moderated = False,
     ce_best_uptime_30m = None, ce_best_latency_p50_ms = None, ce_best_throughput_p50_tps = None,
     ce_best_upstream_provider = None\<rparr>"

corollary top_n_selection_witness:
  "\<exists>res. estimate_top_n_by_cost (\<lambda>_ _ _. Inr [priced ''a/x'' 1, priced ''b/y'' 2, priced ''a/z'' 1]) 1
       (Some default_profile) (Some default_cost_filter) True 1 False (Some [[]]) = Inr res \<and> distinct res"
proof -
  let ?rows = "[priced ''a/x'' 1, priced ''b/y'' 2, priced ''a/z'' 1]"
  obtain res where res: "estimate_top_n_by_cost (\<lambda>_ _ _. Inr ?rows) 1 (Some default_profile) (Some default_cost_filter) True 1
      False (Some [[]]) = Inr res" by (simp add: estimate_top_n_by_cost_def Let_def)
  from top_n_selection [OF res] res show ?thesis by (simp add: priced_def)
qed

abbreviation call_total :: "real \<Rightarrow> real \<Rightarrow> real option \<Rightarrow> real \<Rightarrow> cost_profile \<Rightarrow> real option" where
  "call_total ip op cache fee p \<equiv> map_option fst (estimate_call_cost (Some ip) (Some op) cache fee p)"

lemma call_total_cases:
  assumes "0 \<le> ip" "0 \<le> op"
  shows "call_total ip op cache fee p = Some
    (max 0 (min 1 (cp_cache_hit_ratio p)) * of_int (cp_system_tokens p) *
       ((case cache of Some c \<Rightarrow> if c > 0 then c else ip | None \<Rightarrow> ip) / 1000000)
     + ((1 - max 0 (min 1 (cp_cache_hit_ratio p))) * of_int (cp_system_tokens p) + of_int (cp_user_tokens p)) * (ip / 1000000)
     + of_int (cp_output_tokens p + max 0 (cp_reasoning_tokens p)) * (op / 1000000) + fee)"
  using assms unfolding estimate_call_cost_def Let_def
  by (cases cache) (simp_all del: map_option_eq_Some)

text \<open>
  The estimate of a call exists for every pair of prices that are not negative, free models
  included. A discount for cached input never raises it, whatever the hit ratio; without a discount it
  does not depend on the hit ratio; and leaving out the reasoning tokens never raises it.
\<close>

theorem cached_input_is_never_dearer:
  assumes "0 \<le> ip" "0 \<le> op" "0 \<le> cp_system_tokens p" "\<forall>c. cache = Some c \<longrightarrow> c \<le> ip"
  shows "\<exists>t t0 t1. call_total ip op cache fee p = Some t \<and> call_total ip op None fee p = Some t0 \<and> t \<le> t0
    \<and> call_total ip op None fee (p\<lparr>cp_cache_hit_ratio := q\<rparr>) = Some t0
    \<and> call_total ip op cache fee (p\<lparr>cp_reasoning_tokens := 0\<rparr>) = Some t1 \<and> t1 \<le> t"
proof -
  let ?r = "max 0 (min 1 (cp_cache_hit_ratio p))"
  let ?c = "(case cache of Some c \<Rightarrow> if c > 0 then c else ip | None \<Rightarrow> ip)"
  have "?c \<le> ip" using assms(4) by (auto split: option.split)
  moreover have "0 \<le> ?r * real_of_int (cp_system_tokens p)" using assms(3) by simp
  ultimately have cached: "?r * real_of_int (cp_system_tokens p) * (?c / 1000000) \<le> ?r * real_of_int (cp_system_tokens p) * (ip / 1000000)"
    by (intro mult_left_mono) simp_all
  have spoken: "real_of_int (cp_output_tokens p) * (op / 1000000)
      \<le> real_of_int (cp_output_tokens p + max 0 (cp_reasoning_tokens p)) * (op / 1000000)"
    using assms(2) by (intro mult_right_mono) simp_all
  have flat: "a * s * x + ((1 - a) * s + u) * x = (s + u) * x" for a s u x :: real by (simp add: algebra_simps)
  have same: "call_total ip op None fee (p\<lparr>cp_cache_hit_ratio := q\<rparr>) = call_total ip op None fee p"
    unfolding call_total_cases [OF assms(1,2)] option.case flat by simp
  show ?thesis
    unfolding same unfolding call_total_cases [OF assms(1,2)] using cached spoken by simp
qed

corollary cached_input_is_never_dearer_witness:
  "\<exists>t. call_total 2 2 (Some 1) 0 default_profile = Some t \<and> (\<exists>t0. call_total 2 2 None 0 default_profile = Some t0 \<and> t \<le> t0)"
proof -
  have "0 \<le> cp_system_tokens default_profile" "\<forall>c. Some (1 :: real) = Some c \<longrightarrow> c \<le> 2" by (simp_all add: default_profile_def)
  from cached_input_is_never_dearer [OF _ _ this, of 2 0] show ?thesis by fastforce
qed

end
