(* ===== verification/Python_Json.thy ===== *)
theory Python_Json
  imports Core_Types Python_Text
begin

text \<open>
  What the code does with JSON values whose shape it does not know: access with \<open>get\<close>, conversion with
  \<open>float\<close>, \<open>str\<close> and \<open>list\<close>, and the exceptions these raise on values of another type. What \<open>str\<close> gives for a
  value that is no text is a parameter.
\<close>

section \<open>Access\<close>

text \<open>\<open>x.get(k)\<close>, which only an object has, and \<open>x or {}\<close>.\<close>

fun jget :: "json \<Rightarrow> string \<Rightarrow> json result" where
  "jget (JObj kvs) k = Inr (dget kvs k JNull)"
| "jget _ k = Inl AttributeError"

definition or_object :: "json \<Rightarrow> json" where
  "or_object j = (if json_truthy j then j else JObj [])"

text \<open>A value that may be \<open>None\<close>.\<close>

definition json_or_null :: "('a \<Rightarrow> json) \<Rightarrow> 'a option \<Rightarrow> json" where
  "json_or_null f x = (case x of None \<Rightarrow> JNull | Some v \<Rightarrow> f v)"

text \<open>\<open>isinstance(x, (int, float))\<close>, with its value: booleans are numbers, too.\<close>

fun number :: "json \<Rightarrow> real option" where
  "number (JNum r) = Some r"
| "number (JBool b) = Some (if b then 1 else 0)"
| "number _ = None"

text \<open>\<open>float(x)\<close>.\<close>

fun float_of :: "json \<Rightarrow> real result" where
  "float_of (JNum r) = Inr r"
| "float_of (JBool b) = Inr (if b then 1 else 0)"
| "float_of (JStr s) = (case float_of_string s of Some r \<Rightarrow> Inr r | None \<Rightarrow> Inl ValueError)"
| "float_of _ = Inl TypeError"

text \<open>\<open>float(x or 0.0)\<close> and \<open>list(x or [])\<close>: the elements, the characters of a text, or the keys of an object.\<close>

definition float_or_0 :: "json \<Rightarrow> real result" where
  "float_or_0 j = (if json_truthy j then float_of j else Inr 0)"

definition list_of :: "json \<Rightarrow> json list result" where
  "list_of j =
     (if \<not> json_truthy j then Inr []
      else case j of
          JArr xs \<Rightarrow> Inr xs
        | JStr s \<Rightarrow> Inr (map (\<lambda>c. JStr [c]) s)
        | JObj kvs \<Rightarrow> Inr (map (JStr \<circ> fst) kvs)
        | _ \<Rightarrow> Inl TypeError)"

text \<open>\<open>str(x)\<close> and \<open>sep.join(x)\<close>, whose items must be texts.\<close>

definition py_str :: "(json \<Rightarrow> string) \<Rightarrow> json \<Rightarrow> string" where
  "py_str str_of j = (case j of JStr s \<Rightarrow> s | _ \<Rightarrow> str_of j)"

fun text_of :: "json \<Rightarrow> string result" where
  "text_of (JStr s) = Inr s"
| "text_of _ = Inl TypeError"

definition join_items :: "string \<Rightarrow> json \<Rightarrow> string result" where
  "join_items sep j = (case list_of j of Inl e \<Rightarrow> Inl e
     | Inr xs \<Rightarrow> (case map_result text_of xs of Inl e \<Rightarrow> Inl e | Inr ss \<Rightarrow> Inr (join sep ss)))"

text \<open>\<open>f"{x[:n]}"\<close>: texts and lists can be sliced.\<close>

definition sliced_text :: "(json \<Rightarrow> string) \<Rightarrow> nat \<Rightarrow> json \<Rightarrow> string result" where
  "sliced_text str_of n j = (case j of JStr s \<Rightarrow> Inr (take n s) | JArr xs \<Rightarrow> Inr (str_of (JArr (take n xs))) | _ \<Rightarrow> Inl TypeError)"

text \<open>The class name of an exception, which is what the runner records of it; message texts are left out.\<close>

fun error_name :: "py_error \<Rightarrow> string" where
  "error_name ValueError = ''ValueError''"
| "error_name KeyError = ''KeyError''"
| "error_name RuntimeError = ''RuntimeError''"
| "error_name OverflowError = ''OverflowError''"
| "error_name IndexError = ''IndexError''"
| "error_name DatabaseError = ''DatabaseError''"
| "error_name TypeError = ''TypeError''"
| "error_name AttributeError = ''AttributeError''"
| "error_name FileNotFoundError = ''FileNotFoundError''"

definition as_exn :: "'a result \<Rightarrow> pyexn + 'a" where
  "as_exn r = (case r of Inl e \<Rightarrow> Inl (PyExn (error_name e) []) | Inr x \<Rightarrow> Inr x)"

lemma as_exn_simps [simp]: "as_exn (Inl e) = Inl (PyExn (error_name e) [])" "as_exn (Inr x) = Inr x"
  by (simp_all add: as_exn_def)

end
