(* ===== verification/OpenRouter_Catalogue.thy ===== *)
theory OpenRouter_Catalogue
  imports Cost_Estimate Python_Json
begin

text \<open>
  \<open>cost/openrouter.py\<close>: the rows that \<open>pyutilz\<close> fetches from OpenRouter, as JSON values, and the catalogue
  entries made of them. The rows come from outside, so every access that Python checks at run time is
  checked here and raises as it does there. A catalogue entry holds numbers; where the code would store
  a reported latency or throughput of another type unseen, the model raises \<open>TypeError\<close>.
\<close>

section \<open>Prices, uptimes and the best upstream\<close>

definition positive_number :: "json \<Rightarrow> real option" where
  "positive_number j = (case number j of Some r \<Rightarrow> if r > 0 then Some r else None | None \<Rightarrow> None)"

definition per_token_to_per_m :: "json \<Rightarrow> real option" where
  "per_token_to_per_m value =
     (if value = JNull then None
      else case float_of value of
          Inl _ \<Rightarrow> None
        | Inr v \<Rightarrow> if v < 0 then None else Some (v * 1000000))"

definition normalise_uptime :: "json \<Rightarrow> real option" where
  "normalise_uptime value =
     (if value = JNull then None
      else case float_of value of
          Inl _ \<Rightarrow> None
        | Inr v \<Rightarrow> Some (if v > 1 then v / 100 else v))"

definition status_rank :: "json \<Rightarrow> int" where
  "status_rank raw_status = (case raw_status of
       JStr s \<Rightarrow> if lower s \<in> {''live'', ''available''} then 0 else if lower s = ''degraded'' then 1 else 2
     | _ \<Rightarrow> (case number raw_status of Some r \<Rightarrow> if r \<ge> 0 then 0 else 2 | None \<Rightarrow> 1))"

text \<open>\<open>0.0 if x is None else float(x)\<close>.\<close>

definition float_or_zero :: "json \<Rightarrow> real result" where
  "float_or_zero j = (if j = JNull then Inr 0 else float_of j)"

definition latency_key :: "json \<Rightarrow> xreal result" where
  "latency_key raw_latency =
     (if raw_latency = JNull then Inr PInf
      else case number raw_latency of Some r \<Rightarrow> Inr (Fin r) | None \<Rightarrow> Inl TypeError)"

type_synonym upstream_rank = "int \<times> real \<times> xreal \<times> real"

text \<open>The key of an endpoint, an object with these five entries or without.\<close>

definition upstream_key :: "json \<Rightarrow> upstream_rank result" where
  "upstream_key ep = (case ep of
       JObj kvs \<Rightarrow>
         (let get = \<lambda>k. dget kvs k JNull;
              raw_uptime = (if get ''uptime_30m'' = JNull then get ''uptime_5m'' else get ''uptime_30m'')
          in case float_or_zero raw_uptime of Inl e \<Rightarrow> Inl e
           | Inr up \<Rightarrow> (case latency_key (get ''latency_p50_ms'') of Inl e \<Rightarrow> Inl e
             | Inr lat \<Rightarrow> (case float_or_zero (get ''throughput_p50_tps'') of Inl e \<Rightarrow> Inl e
               | Inr tps \<Rightarrow> Inr (status_rank (get ''status''), - up, lat, - tps))))
     | _ \<Rightarrow> Inl AttributeError)"

definition pick_best_upstream :: "json list \<Rightarrow> json result" where
  "pick_best_upstream endpoints =
     (if endpoints = [] then Inr (JObj [])
      else case map_result upstream_key endpoints of Inl e \<Rightarrow> Inl e
         | Inr keys \<Rightarrow> Inr (snd (hd (sort_key fst (zip keys endpoints)))))"

section \<open>The entry of a row\<close>

text \<open>The endpoints as a list: iterating text or an object gives keys, which have no \<open>get\<close>.\<close>

fun endpoint_list :: "json \<Rightarrow> json list result" where
  "endpoint_list JNull = Inr []"
| "endpoint_list (JArr eps) = Inr eps"
| "endpoint_list (JStr s) = (if s = [] then Inr [] else Inl AttributeError)"
| "endpoint_list (JObj kvs) = (if kvs = [] then Inr [] else Inl AttributeError)"
| "endpoint_list (JBool b) = (if b then Inl TypeError else Inr [])"
| "endpoint_list (JNum r) = (if r \<noteq> 0 then Inl TypeError else Inr [])"

fun hashable :: "json \<Rightarrow> bool" where
  "hashable (JArr _) = False"
| "hashable (JObj _) = False"
| "hashable _ = True"

text \<open>\<open>set(supported)\<close> after the text case: the elements, or the keys of an object.\<close>

fun supported_of :: "json \<Rightarrow> json list result" where
  "supported_of JNull = Inr []"
| "supported_of (JStr s) = (if s = [] then Inr [] else Inr [JStr s])"
| "supported_of (JArr xs) = (if list_all hashable xs then Inr xs else Inl TypeError)"
| "supported_of (JObj kvs) = Inr (map (JStr \<circ> fst) kvs)"
| "supported_of (JBool b) = (if b then Inl TypeError else Inr [])"
| "supported_of (JNum r) = (if r \<noteq> 0 then Inl TypeError else Inr [])"

text \<open>The first of the three keys with a price.\<close>

definition cache_price :: "(string, json) dict \<Rightarrow> real option" where
  "cache_price pricing =
     (case List.map_filter (\<lambda>k. per_token_to_per_m (dget pricing k JNull))
             [''input_cache_read'', ''cache_read'', ''cached_input_per_token''] of
        [] \<Rightarrow> None | v # _ \<Rightarrow> Some v)"

definition pessimistic_context :: "json \<Rightarrow> json \<Rightarrow> int option" where
  "pessimistic_context ctx_top ctx_provider =
     (case List.map_filter positive_number [ctx_top, ctx_provider] of
        [] \<Rightarrow> None | c # cs \<Rightarrow> Some \<lfloor>fold min cs c\<rfloor>)"

definition completion_limit :: "json \<Rightarrow> json \<Rightarrow> int option" where
  "completion_limit upstream_mct tp_mct =
     (case positive_number upstream_mct of Some r \<Rightarrow> Some \<lfloor>r\<rfloor>
      | None \<Rightarrow> map_option floor (positive_number tp_mct))"

fun stored_number :: "json \<Rightarrow> real option result" where
  "stored_number JNull = Inr None"
| "stored_number j = (case number j of Some r \<Rightarrow> Inr (Some r) | None \<Rightarrow> Inl TypeError)"

fun stored_text :: "json \<Rightarrow> string option result" where
  "stored_text JNull = Inr None"
| "stored_text (JStr s) = Inr (Some s)"
| "stored_text _ = Inl TypeError"

text \<open>An object that may be missing: its entries.\<close>

definition object_of :: "json \<Rightarrow> (string, json) dict result" where
  "object_of j = (case or_object j of JObj kvs \<Rightarrow> Inr kvs | _ \<Rightarrow> Inl AttributeError)"

definition entry_from_or_row :: "json \<Rightarrow> catalogue_entry option result" where
  "entry_from_or_row row = (case row of
     JObj kvs \<Rightarrow>
       (let mid = dget kvs ''id'' (JStr []) in
        if \<not> json_truthy mid then Inr None
        else case mid of
          JStr model_id \<Rightarrow>
            if str_in '':free'' (lower model_id) then Inr None
            else
            (case object_of (dget kvs ''pricing'' JNull) of Inl e \<Rightarrow> Inl e | Inr pricing \<Rightarrow>
            (case object_of (dget kvs ''top_provider'' JNull) of Inl e \<Rightarrow> Inl e | Inr top_provider \<Rightarrow>
            (case object_of (dget kvs ''health'' JNull) of Inl e \<Rightarrow> Inl e | Inr health \<Rightarrow>
            (case endpoint_list (dget health ''endpoints'' JNull) of Inl e \<Rightarrow> Inl e | Inr endpoints \<Rightarrow>
            (case pick_best_upstream endpoints of Inl e \<Rightarrow> Inl e | Inr best_ep \<Rightarrow>
            (case jget best_ep ''max_completion_tokens'' of Inl e \<Rightarrow> Inl e | Inr upstream_mct \<Rightarrow>
            (case supported_of (dget kvs ''supported_parameters'' JNull) of Inl e \<Rightarrow> Inl e | Inr supported \<Rightarrow>
            (case stored_number (dget health ''best_latency_p50_ms'' JNull) of Inl e \<Rightarrow> Inl e | Inr latency \<Rightarrow>
            (case stored_number (dget health ''best_throughput_p50_tps'' JNull) of Inl e \<Rightarrow> Inl e | Inr throughput \<Rightarrow>
            (case (case jget best_ep ''provider_name'' of Inl e \<Rightarrow> Inl e | Inr j \<Rightarrow> stored_text j) of Inl e \<Rightarrow> Inl e | Inr upstream \<Rightarrow>
              Inr (Some
                \<lparr>ce_model_id = model_id,
                 ce_input_price_per_m = per_token_to_per_m (dget pricing ''prompt'' JNull),
                 ce_output_price_per_m = per_token_to_per_m (dget pricing ''completion'' JNull),
                 ce_input_cache_read_price_per_m = cache_price pricing,
                 ce_context_length = pessimistic_context (dget kvs ''context_length'' JNull)
                   (dget top_provider ''context_length'' JNull),
                 ce_max_completion_tokens = completion_limit upstream_mct
                   (dget top_provider ''max_completion_tokens'' JNull),
                 ce_supports_reasoning = JStr ''reasoning'' \<in> set supported,
                 ce_supports_json_mode = JStr ''response_format'' \<in> set supported
                   \<or> JStr ''structured_outputs'' \<in> set supported,
                 ce_is_moderated = json_truthy (dget top_provider ''is_moderated'' JNull),
                 ce_best_uptime_30m = normalise_uptime (dget health ''best_uptime_30m'' JNull),
                 ce_best_latency_p50_ms = latency,
                 ce_best_throughput_p50_tps = throughput,
                 ce_best_upstream_provider = upstream\<rparr>)))))))))))
        | _ \<Rightarrow> Inl AttributeError)
   | _ \<Rightarrow> Inl AttributeError)"

section \<open>The catalogue\<close>

record openrouter_catalogue =
  oc_sort_by :: string
  oc_max_output_per_1m_prefilter :: "real option"

definition default_openrouter_catalogue :: openrouter_catalogue where
  "default_openrouter_catalogue = \<lparr>oc_sort_by = ''input_price'', oc_max_output_per_1m_prefilter = None\<rparr>"

definition fetch_kwargs :: "openrouter_catalogue \<Rightarrow> bool \<Rightarrow> bool \<Rightarrow> real \<Rightarrow> (string, json) dict" where
  "fetch_kwargs oc refresh only_healthy min_uptime =
     [(''refresh'', JBool refresh), (''sort_by'', JStr (oc_sort_by oc)),
      (''return_only_healthy'', JBool only_healthy), (''min_uptime'', JNum min_uptime)]
     @ (case oc_max_output_per_1m_prefilter oc of None \<Rightarrow> [] | Some m \<Rightarrow> [(''max_output_per_1m'', JNum m)])"

text \<open>
  \<open>fetch\<close> is \<open>pyutilz.llm.list_openrouter_models\<close>, which takes keyword arguments and returns rows or
  raises; whatever it raises is turned into \<open>RuntimeError\<close>. What a row raises is not.
\<close>

definition list_models ::
  "openrouter_catalogue \<Rightarrow> ((string, json) dict \<Rightarrow> pyexn + json list) \<Rightarrow> bool \<Rightarrow> bool \<Rightarrow> real
     \<Rightarrow> catalogue_entry list result" where
  "list_models oc fetch refresh only_healthy min_uptime =
     (case fetch (fetch_kwargs oc refresh only_healthy min_uptime) of
        Inl _ \<Rightarrow> Inl RuntimeError
      | Inr rows \<Rightarrow> (case map_result entry_from_or_row rows of
            Inl e \<Rightarrow> Inl e
          | Inr entries \<Rightarrow> Inr (List.map_filter id entries)))"


section \<open>Rows of the documented shape\<close>








text \<open>What an entry promises its readers.\<close>

definition at_least :: "'a::linorder \<Rightarrow> 'a option \<Rightarrow> bool" where
  "at_least lo v = (case v of None \<Rightarrow> True | Some x \<Rightarrow> lo \<le> x)"

definition listable :: "string \<Rightarrow> bool" where
  "listable model_id \<longleftrightarrow> model_id \<noteq> [] \<and> \<not> str_in '':free'' (lower model_id)"

definition entry_ok :: "catalogue_entry \<Rightarrow> bool" where
  "entry_ok e \<longleftrightarrow> listable (ce_model_id e)
     \<and> at_least 0 (ce_input_price_per_m e) \<and> at_least 0 (ce_output_price_per_m e) \<and> at_least 0 (ce_input_cache_read_price_per_m e)
     \<and> at_least 0 (ce_context_length e) \<and> at_least 0 (ce_max_completion_tokens e)"

lemma at_least_simps [simp]: "at_least lo None" "at_least lo (Some x) \<longleftrightarrow> lo \<le> x"
  by (simp_all add: at_least_def)

lemma per_token_nonneg [simp]: "at_least 0 (per_token_to_per_m j)"
  by (simp add: per_token_to_per_m_def split: sum.split)

lemma positive_number_pos: "positive_number j = Some r \<Longrightarrow> 0 < r"
  by (auto simp: positive_number_def split: option.splits if_splits)

lemma cache_price_nonneg [simp]: "at_least 0 (cache_price pricing)"
  using per_token_nonneg [of "dget pricing ''input_cache_read'' JNull"]
    per_token_nonneg [of "dget pricing ''cache_read'' JNull"]
    per_token_nonneg [of "dget pricing ''cached_input_per_token'' JNull"]
  by (auto simp: cache_price_def map_filter_simps split: list.split option.splits simp del: per_token_nonneg)

lemma context_nonneg [simp]: "at_least 0 (pessimistic_context a b)"
  by (auto simp: pessimistic_context_def map_filter_simps split: option.split dest: positive_number_pos)

lemma completion_nonneg [simp]: "at_least 0 (completion_limit a b)"
  by (auto simp: completion_limit_def at_least_def split: option.split dest: positive_number_pos)





text \<open>
  An endpoint whose reported uptime is zero gets the same key as one without any uptime, and a key before
  that of no endpoint with a positive uptime and the same status.
\<close>

lemma dead_upstream_ties_with_unmeasured:
  "upstream_key (JObj ((''uptime_30m'', JNum 0) # kvs)) = upstream_key (JObj ((''uptime_30m'', JNull) # (''uptime_5m'', JNull) # kvs))"
  unfolding upstream_key_def Let_def by (simp add: dget_def float_or_zero_def cong: sum.case_cong)






text \<open>A row as OpenRouter lists it, with prices as texts, a degraded and a live upstream.\<close>

definition sample_row :: "string \<Rightarrow> json \<Rightarrow> json" where
  "sample_row model price = JObj
     [(''id'', JStr model), (''pricing'', JObj [(''prompt'', price), (''completion'', price)]),
      (''context_length'', JNum 131072), (''top_provider'', JObj [(''context_length'', JNum 65536), (''is_moderated'', JBool False)]),
      (''supported_parameters'', JArr [JStr ''response_format'']),
      (''health'', JObj [(''best_uptime_30m'', JNum 99), (''endpoints'', JArr
         [JObj [(''status'', JStr ''degraded''), (''provider_name'', JStr ''A'')],
          JObj [(''status'', JNum 0), (''provider_name'', JStr ''B''), (''max_completion_tokens'', JNum 8192)]])])]"


lemma sample_upstream:
  "pick_best_upstream
      [JObj [(''status'', JStr ''degraded''), (''provider_name'', JStr ''A'')],
       JObj [(''status'', JNum 0), (''provider_name'', JStr ''B''), (''max_completion_tokens'', JNum 8192)]]
    = Inr (JObj [(''status'', JNum 0), (''provider_name'', JStr ''B''), (''max_completion_tokens'', JNum 8192)])"
  by (simp add: pick_best_upstream_def upstream_key_def Let_def dget_def float_or_zero_def latency_key_def status_rank_def
      lower_def lower_char_def)

lemma sample_row_entry:
  assumes "listable model"
  shows "\<exists>e. entry_from_or_row (sample_row model price) = Inr (Some e) \<and> ce_model_id e = model
    \<and> ce_best_upstream_provider e = Some ''B'' \<and> ce_context_length e = Some 65536"
  using assms
  by (simp add: entry_from_or_row_def sample_row_def dget_def object_of_def or_object_def listable_def sample_upstream
      pessimistic_context_def positive_number_def map_filter_simps)


section \<open>The catalogue under the cost estimate\<close>

lemma entry_built:
  assumes "entry_from_or_row row = Inr (Some e)"
  shows "entry_ok e"
  using assms unfolding entry_from_or_row_def
  by (simp split: json.splits if_splits sum.splits add: Let_def)
    (auto simp: entry_ok_def listable_def)

text \<open>
  C32: What the cost estimate selects from OpenRouter. The catalogue is asked for the health the filter
  demands; every selected model comes from a fetched row, passes the filter, is neither blacklisted nor a
  free variant, and has prices for input and output which are not negative, so the placeholder
  price of a meta router keeps it out.
\<close>

theorem selected_models_are_offered:
  assumes "estimate_top_n_by_cost (list_models oc fetch) n profile (Some f) reasoning k refresh (Some black) = Inr res"
  shows "\<exists>rows. fetch (fetch_kwargs oc refresh (cf_require_healthy f) (cf_min_uptime f)) = Inr rows
    \<and> (\<forall>e\<in>set res. \<exists>row\<in>set rows. entry_from_or_row row = Inr (Some (es_entry e)) \<and> keep f (es_entry e)
        \<and> es_model_id e \<notin> set black \<and> listable (es_model_id e)
        \<and> (\<exists>ip op. ce_input_price_per_m (es_entry e) = Some ip \<and> 0 \<le> ip
            \<and> ce_output_price_per_m (es_entry e) = Some op \<and> 0 \<le> op))"
proof -
  let ?kw = "fetch_kwargs oc refresh (cf_require_healthy f) (cf_min_uptime f)"
  from assms obtain rows where rows: "fetch ?kw = Inr rows"
    by (auto simp: estimate_top_n_by_cost_def Let_def list_models_def split: sum.splits)
  with assms obtain entries where entries: "map_result entry_from_or_row rows = Inr entries"
    by (auto simp: estimate_top_n_by_cost_def Let_def list_models_def split: sum.splits)
  obtain p where res: "res = select_top f n k (sort_key (sort_key_of f) (List.map_filter
      (estimate_entry f p (set (filter (\<lambda>m. m \<noteq> []) black))) (List.map_filter id entries)))"
    using assms by (auto simp: estimate_top_n_by_cost_def Let_def list_models_def rows entries)
  have "\<exists>row\<in>set rows. entry_from_or_row row = Inr (Some (es_entry e)) \<and> keep f (es_entry e)
      \<and> es_model_id e \<notin> set black \<and> listable (es_model_id e)
      \<and> (\<exists>ip op. ce_input_price_per_m (es_entry e) = Some ip \<and> 0 \<le> ip
          \<and> ce_output_price_per_m (es_entry e) = Some op \<and> 0 \<le> op)" if e: "e \<in> set res" for e
  proof -
    from e res select_top_subset obtain c where c: "Some c \<in> set entries"
      "estimate_entry f p (set (filter (\<lambda>m. m \<noteq> []) black)) c = Some e"
      by (fastforce simp: map_filter_def)
    from c(2) have est: "es_entry e = c" "keep f c" "ce_model_id c \<noteq> []" "ce_model_id c \<notin> set black"
      "\<exists>ip op. ce_input_price_per_m c = Some ip \<and> 0 \<le> ip \<and> ce_output_price_per_m c = Some op \<and> 0 \<le> op"
      by (auto simp: estimate_entry_def estimate_call_cost_def Let_def split: if_splits option.splits prod.splits)
    from entries c(1) obtain row where "row \<in> set rows" "entry_from_or_row row = Inr (Some c)"
      by (auto simp: map_result_Inr list_all2_conv_all_nth in_set_conv_nth) (metis nth_mem)
    moreover from entry_built [OF this(2)] have "listable (ce_model_id c)" by (simp add: entry_ok_def)
    ultimately show ?thesis using est by auto
  qed
  with rows show ?thesis by blast
qed

corollary selected_models_are_offered_witness:
  "\<exists>res. estimate_top_n_by_cost (list_models default_openrouter_catalogue
         (\<lambda>_. Inr [sample_row ''a/x'' (JNum (1 / 1000000)), sample_row ''r/auto'' (JNum (- 1)), sample_row ''b/y:free'' (JNum 0)]))
       10 None (Some default_cost_filter) True 1 False (Some []) = Inr res
     \<and> (\<forall>e\<in>set res. listable (es_model_id e))"
proof -
  let ?rows = "[sample_row ''a/x'' (JNum (1 / 1000000)), sample_row ''r/auto'' (JNum (- 1)), sample_row ''b/y:free'' (JNum 0)]"
  have "listable ''a/x''" "listable ''r/auto''" by (simp_all add: listable_def lower_def lower_char_def)
  then obtain x y where "entry_from_or_row (hd ?rows) = Inr (Some x)" "entry_from_or_row (?rows ! 1) = Inr (Some y)"
    using sample_row_entry by fastforce
  moreover have "entry_from_or_row (?rows ! 2) = Inr None"
    by (simp add: entry_from_or_row_def sample_row_def dget_def lower_def lower_char_def)
  ultimately obtain res where "estimate_top_n_by_cost (list_models default_openrouter_catalogue (\<lambda>_. Inr ?rows))
       10 None (Some default_cost_filter) True 1 False (Some []) = Inr res"
    by (simp add: estimate_top_n_by_cost_def Let_def list_models_def)
  with selected_models_are_offered [OF this] show ?thesis by blast
qed

text \<open>
  A row without prices gets an entry all the same; only the cost estimate drops it.
\<close>

lemma unpriced_row_listed:
  "\<exists>e. entry_from_or_row (JObj [(''id'', JStr ''a/x'')]) = Inr (Some e) \<and> ce_input_price_per_m e = None
    \<and> estimate_entry f p black e = None"
  by (simp add: entry_from_or_row_def dget_def object_of_def or_object_def pick_best_upstream_def lower_def lower_char_def
      per_token_to_per_m_def estimate_entry_def estimate_call_cost_def)

end
