(* ===== verification/Job_App_Stages.thy ===== *)
theory Job_App_Stages
  imports Python_Json Stage_Graph Ranker
begin

text \<open>
  The stages of the example benchmark \<open>examples/job_app_cover_letter/stages.py\<close>: the prompt builders, the
  response parsers, the stage graph and the row scorer. The JSON functions of the standard library are
  parameters: \<open>loads\<close> (with \<open>None\<close> for \<open>JSONDecodeError\<close>), \<open>dumps\<close>, and \<open>str_of\<close>, which is \<open>str\<close> of a value
  that is no text.
\<close>

section \<open>Prompt builders\<close>

definition nl :: string where
  "nl = [CHR 0x0A]"

text \<open>\<open>ctx.outputs.get(k) or {}\<close>, and \<open>md.get(k)\<close> in a format string.\<close>

definition output_of :: "string \<Rightarrow> json stage_context \<Rightarrow> json" where
  "output_of k ctx = (case dget (cx_outputs ctx) k None of
       Some j \<Rightarrow> if json_truthy j then j else JObj [] | None \<Rightarrow> JObj [])"

definition shown :: "(json \<Rightarrow> string) \<Rightarrow> (string, json) dict \<Rightarrow> string \<Rightarrow> string" where
  "shown str_of md k = py_str str_of (dget md k JNull)"

text \<open>\<open>", ".join(md.get("required_skills") or []) or alternative\<close>.\<close>

definition skills_line :: "(string, json) dict \<Rightarrow> string \<Rightarrow> string result" where
  "skills_line md alternative = (case join_items '', '' (dget md ''required_skills'' JNull) of
       Inl e \<Rightarrow> Inl e | Inr s \<Rightarrow> Inr (if s = [] then alternative else s))"

definition research_system :: string where
  "research_system =
     ''You are an expert at decoding JobApp job postings. Extract the ''
     @ ''buyer's true intent so a freelancer can craft a precise cover ''
     @ ''letter. Output STRICT JSON with these keys: intent (string), ''
     @ ''buyer_signals (list of strings), risk_flags (list of strings), ''
     @ ''skill_gaps (list of strings).''"

definition build_research_prompt :: "(json \<Rightarrow> string) \<Rightarrow> task_unit \<Rightarrow> json stage_context \<Rightarrow> (string \<times> string) result" where
  "build_research_prompt str_of tu ctx =
     (let md = tu_metadata tu in
      case skills_line md ''(none listed)'' of Inl e \<Rightarrow> Inl e
      | Inr skills \<Rightarrow> Inr (research_system,
          ''Job ID: '' @ tu_id tu @ nl
          @ ''Company: '' @ shown str_of md ''company'' @ nl
          @ ''Title: '' @ shown str_of md ''title'' @ nl
          @ ''Industry: '' @ (case tu_stratum tu of None \<Rightarrow> ''None'' | Some s \<Rightarrow> s) @ nl
          @ ''Required skills: '' @ skills @ nl
          @ ''Description:'' @ nl @ shown str_of md ''description'' @ nl))"

definition draft_system :: string where
  "draft_system =
     ''You are writing a cover letter for an JobApp freelance pitch. ''
     @ ''Use the supplied research output to address the buyer's intent ''
     @ ''directly, name-drop relevant skills, and stay under 200 words. ''
     @ ''Output STRICT JSON: { letter: string, key_skills_addressed: ''
     @ ''list of strings }. The letter must read as natural prose.''"

definition excerpt :: "(json \<Rightarrow> string) \<Rightarrow> (string, json) dict \<Rightarrow> string result" where
  "excerpt str_of md = sliced_text str_of 600 (dget md ''description'' (JStr []))"

definition build_draft_prompt ::
  "(json \<Rightarrow> string) \<Rightarrow> (json \<Rightarrow> string) \<Rightarrow> task_unit \<Rightarrow> json stage_context \<Rightarrow> (string \<times> string) result" where
  "build_draft_prompt dumps str_of tu ctx =
     (let md = tu_metadata tu in
      case excerpt str_of md of Inl e \<Rightarrow> Inl e
      | Inr desc \<Rightarrow> Inr (draft_system,
          ''Research output: '' @ take 1500 (dumps (output_of ''research'' ctx)) @ nl @ nl
          @ ''Job title: '' @ shown str_of md ''title'' @ nl
          @ ''Company: '' @ shown str_of md ''company'' @ nl
          @ ''Description excerpt: '' @ desc @ nl))"

definition polish_system :: string where
  "polish_system =
     ''You are a cover-letter editor. Polish the supplied draft for ''
     @ ''clarity, tone, and concision (<=180 words). Preserve every skill ''
     @ ''claim and the buyer-intent address. Output STRICT JSON with ''
     @ ''keys: letter (string, polished), edits_made (list of strings).''"

definition build_polish_prompt ::
  "(json \<Rightarrow> string) \<Rightarrow> (json \<Rightarrow> string) \<Rightarrow> task_unit \<Rightarrow> json stage_context \<Rightarrow> (string \<times> string) result" where
  "build_polish_prompt dumps str_of tu ctx =
     Inr (polish_system,
       ''Draft: '' @ take 1500 (dumps (output_of ''draft'' ctx)) @ nl @ nl
       @ ''Original job title: '' @ shown str_of (tu_metadata tu) ''title'' @ nl)"

definition validate_system :: string where
  "validate_system =
     ''You are auditing a cover letter for an JobApp pitch. Grade it on ''
     @ ''three axes (each 0..1): intent_match, skill_coverage, tone. ''
     @ ''Output STRICT JSON: { intent_match: float, skill_coverage: ''
     @ ''float, tone: float, reasoning: string }.''"

definition build_validate_draft_prompt ::
  "(json \<Rightarrow> string) \<Rightarrow> (json \<Rightarrow> string) \<Rightarrow> task_unit \<Rightarrow> json stage_context \<Rightarrow> (string \<times> string) result" where
  "build_validate_draft_prompt dumps str_of tu ctx =
     (let md = tu_metadata tu in
      case skills_line md ''(none)'' of Inl e \<Rightarrow> Inl e
      | Inr skills \<Rightarrow>
        (case excerpt str_of md of Inl e \<Rightarrow> Inl e
         | Inr desc \<Rightarrow> Inr (validate_system,
             ''Cover letter: '' @ take 1500 (dumps (output_of ''draft'' ctx)) @ nl @ nl
             @ ''Job title: '' @ shown str_of md ''title'' @ nl
             @ ''Required skills: '' @ skills @ nl
             @ ''Description excerpt: '' @ desc @ nl)))"

section \<open>Response parsers\<close>

text \<open>The text of a fenced block, and the part from the first opening to the last closing brace.\<close>

definition strip_char :: "char \<Rightarrow> string \<Rightarrow> string" where
  "strip_char c s = rev (dropWhile (\<lambda>x. x = c) (rev (dropWhile (\<lambda>x. x = c) s)))"

definition unfence :: "string \<Rightarrow> string" where
  "unfence text =
     (if take 3 text = replicate 3 (CHR 0x60)
      then (let t = strip_char (CHR 0x60) text in if take 4 (lower t) = ''json'' then drop 4 t else t)
      else text)"

definition brace_block :: "string \<Rightarrow> string option" where
  "brace_block text =
     (if CHR 0x7B \<in> set text \<and> CHR 0x7D \<in> set text
      then
        let first = length (takeWhile (\<lambda>c. c \<noteq> CHR 0x7B) text);
            last = length text - 1 - length (takeWhile (\<lambda>c. c \<noteq> CHR 0x7D) (rev text))
        in if last > first then Some (take (last + 1 - first) (drop first text)) else None
      else None)"

definition parse_json_loose :: "(string \<Rightarrow> json option) \<Rightarrow> string option \<Rightarrow> json" where
  "parse_json_loose loads response_text =
     (if \<not> truthy response_text then JNull
      else let text = unfence (strip (the response_text)) in
        case loads text of
          Some j \<Rightarrow> j
        | None \<Rightarrow> (case brace_block text of
              None \<Rightarrow> JNull
            | Some block \<Rightarrow> (case loads block of Some j \<Rightarrow> j | None \<Rightarrow> JNull)))"

text \<open>A clipped text and a clipped list of the reply.\<close>

definition clipped :: "(json \<Rightarrow> string) \<Rightarrow> nat \<Rightarrow> string \<Rightarrow> (string, json) dict \<Rightarrow> json" where
  "clipped str_of n k kvs = JStr (take n (py_str str_of (dget kvs k (JStr []))))"

definition clipped_list :: "nat \<Rightarrow> string \<Rightarrow> (string, json) dict \<Rightarrow> json result" where
  "clipped_list n k kvs = (case list_of (dget kvs k JNull) of Inl e \<Rightarrow> Inl e | Inr xs \<Rightarrow> Inr (JArr (take n xs)))"

definition parse_research ::
  "(string \<Rightarrow> json option) \<Rightarrow> (json \<Rightarrow> string) \<Rightarrow> string option \<Rightarrow> json option result" where
  "parse_research loads str_of response_text = (case parse_json_loose loads response_text of
     JObj kvs \<Rightarrow>
       (case clipped_list 10 ''buyer_signals'' kvs of Inl e \<Rightarrow> Inl e | Inr signals \<Rightarrow>
       (case clipped_list 10 ''risk_flags'' kvs of Inl e \<Rightarrow> Inl e | Inr flags \<Rightarrow>
       (case clipped_list 10 ''skill_gaps'' kvs of Inl e \<Rightarrow> Inl e | Inr gaps \<Rightarrow>
         Inr (Some (JObj [(''intent'', clipped str_of 500 ''intent'' kvs), (''buyer_signals'', signals),
           (''risk_flags'', flags), (''skill_gaps'', gaps)])))))
   | _ \<Rightarrow> Inr None)"

definition parse_draft ::
  "(string \<Rightarrow> json option) \<Rightarrow> (json \<Rightarrow> string) \<Rightarrow> string option \<Rightarrow> json option result" where
  "parse_draft loads str_of response_text = (case parse_json_loose loads response_text of
     JObj kvs \<Rightarrow>
       (case clipped_list 20 ''key_skills_addressed'' kvs of Inl e \<Rightarrow> Inl e | Inr skills \<Rightarrow>
         Inr (Some (JObj [(''letter'', clipped str_of 5000 ''letter'' kvs), (''key_skills_addressed'', skills)])))
   | _ \<Rightarrow> Inr None)"

definition parse_polish ::
  "(string \<Rightarrow> json option) \<Rightarrow> (json \<Rightarrow> string) \<Rightarrow> string option \<Rightarrow> json option result" where
  "parse_polish loads str_of response_text = (case parse_json_loose loads response_text of
     JObj kvs \<Rightarrow>
       (case clipped_list 20 ''edits_made'' kvs of Inl e \<Rightarrow> Inl e | Inr edits \<Rightarrow>
         Inr (Some (JObj [(''letter'', clipped str_of 5000 ''letter'' kvs), (''edits_made'', edits)])))
   | _ \<Rightarrow> Inr None)"

text \<open>The three grades, each \<open>float(parsed.get(k) or 0.0)\<close>.\<close>

definition grades :: "(string, json) dict \<Rightarrow> real list result" where
  "grades kvs = map_result (\<lambda>k. float_or_0 (dget kvs k JNull)) [''intent_match'', ''skill_coverage'', ''tone'']"

definition parse_validate ::
  "(string \<Rightarrow> json option) \<Rightarrow> (json \<Rightarrow> string) \<Rightarrow> string option \<Rightarrow> json option result" where
  "parse_validate loads str_of response_text = (case parse_json_loose loads response_text of
     JObj kvs \<Rightarrow>
       (case grades kvs of Inl e \<Rightarrow> Inl e | Inr gs \<Rightarrow>
         Inr (Some (JObj (zip [''intent_match'', ''skill_coverage'', ''tone''] (map JNum gs)
           @ [(''reasoning'', clipped str_of 1000 ''reasoning'' kvs)]))))
   | _ \<Rightarrow> Inr None)"

section \<open>The stage graph\<close>

text \<open>A stage of the example: the builder and the parser as the runner calls them.\<close>

definition job_app_stage ::
  "string \<Rightarrow> string option \<Rightarrow> bool \<Rightarrow> real \<Rightarrow> (task_unit \<Rightarrow> json stage_context \<Rightarrow> (string \<times> string) result)
     \<Rightarrow> (string option \<Rightarrow> json option result) \<Rightarrow> json stage" where
  "job_app_stage sid parent is_validator budget builder parser =
     \<lparr>sg_id = sid, sg_op = sid, sg_prompt_builder = (\<lambda>tu ctx lang. as_exn (map_sum id Some (builder tu ctx))),
      sg_parser = (\<lambda>tu r i out. as_exn (parser (Some r))), sg_parent_stage = parent, sg_is_validator = is_validator,
      sg_lang = None, sg_budget_per_call = budget, sg_json_schema = None, sg_generate_kwargs = []\<rparr>"

definition job_app_stages ::
  "(string \<Rightarrow> json option) \<Rightarrow> (json \<Rightarrow> string) \<Rightarrow> (json \<Rightarrow> string) \<Rightarrow> json stage list" where
  "job_app_stages loads dumps str_of =
     [job_app_stage ''research'' None False (5 / 100) (build_research_prompt str_of) (parse_research loads str_of),
      job_app_stage ''draft'' (Some ''research'') False (10 / 100) (build_draft_prompt dumps str_of) (parse_draft loads str_of),
      job_app_stage ''polish'' (Some ''draft'') False (5 / 100) (build_polish_prompt dumps str_of) (parse_polish loads str_of),
      job_app_stage ''validate_draft'' (Some ''draft'') True (5 / 100) (build_validate_draft_prompt dumps str_of)
        (parse_validate loads str_of)]"

definition build_job_app_stage_graph ::
  "(string \<Rightarrow> json option) \<Rightarrow> (json \<Rightarrow> string) \<Rightarrow> (json \<Rightarrow> string) \<Rightarrow> json stage list result" where
  "build_job_app_stage_graph loads dumps str_of = stage_graph (job_app_stages loads dumps str_of)"

section \<open>The row scorer\<close>

definition job_app_score :: "(string \<Rightarrow> json option) \<Rightarrow> run_row \<Rightarrow> real" where
  "job_app_score loads row =
     (if truthy (rr_error_class row) then 0
      else case rr_response row of
        None \<Rightarrow> 0
      | Some response \<Rightarrow>
          if length response < 20 then 0
          else if rr_stage row = ''validate_draft''
          then (case parse_json_loose loads (Some response) of
              JObj kvs \<Rightarrow> (case grades kvs of Inl _ \<Rightarrow> 0
                | Inr scores \<Rightarrow> if scores = [] then 0 else max 0 (min 1 (sum_list scores / real (length scores))))
            | _ \<Rightarrow> 0)
          else 1)"

definition job_app_row_scorer :: "(string \<Rightarrow> json option) \<Rightarrow> row_scorer" where
  "job_app_row_scorer loads row = Num (job_app_score loads row)"

section \<open>The stages fit the runner\<close>

lemma job_app_stage_simps [simp]:
  "sg_id (job_app_stage sid parent v b bld prs) = sid" "sg_parent_stage (job_app_stage sid parent v b bld prs) = parent"
  "sg_is_validator (job_app_stage sid parent v b bld prs) = v"
  by (simp_all add: job_app_stage_def)

text \<open>The order of the pipeline is that of the definition.\<close>

lemma job_app_graph:
  "topo_order (job_app_stages loads dumps str_of) = Inr (job_app_stages loads dumps str_of)"
  "build_job_app_stage_graph loads dumps str_of = Inr (job_app_stages loads dumps str_of)"
proof -
  show order: "topo_order (job_app_stages loads dumps str_of) = Inr (job_app_stages loads dumps str_of)"
    by (simp add: topo_order_def job_app_stages_def stages_by_id_def visit.simps)
  show "build_job_app_stage_graph loads dumps str_of = Inr (job_app_stages loads dumps str_of)"
    unfolding build_job_app_stage_graph_def stage_graph_def order
    by (simp add: job_app_stages_def stage_ids_def missing_parent_def)
qed

lemma job_app_score_bounds: "0 \<le> job_app_score loads row \<and> job_app_score loads row \<le> 1"
  by (auto simp: job_app_score_def split: option.split json.split sum.split)

text \<open>
  A reply that its stage's parser rejected still scores 1 on the stages before the validator, where the
  scorer the framework falls back to gives 0.
\<close>

lemma unparsed_reply_scores_one:
  assumes "rr_response row = Some r" "20 \<le> length r" "\<not> truthy (rr_error_class row)" "rr_stage row \<noteq> ''validate_draft''"
    "truthy (rr_parse_failure_prefix row)"
  shows "job_app_row_scorer loads row = Num 1" "default_row_scorer row = Num 0"
  using assms by (simp_all add: job_app_row_scorer_def job_app_score_def default_row_scorer_def is_row_usable_iff)

end
