(* ===== verification/Job_App_Run.thy ===== *)
theory Job_App_Run
  imports Job_App_Stages Phase_Completion
begin

text \<open>
  The rest of the example benchmark: the pool of jobs read from a CSV file
  (\<open>examples/job_app_cover_letter/job_pool.py\<close>), and the deterministic provider of the dry run with the
  driver (\<open>run.py\<close>). The CSV reader gives a dictionary per line, with \<open>None\<close> for the columns a short line lacks.
\<close>

section \<open>The pool of jobs\<close>

type_synonym csv_row = "(string, string option) dict"

text \<open>\<open>row.get(k, "").strip()\<close>; \<open>None\<close> has no \<open>strip\<close>.\<close>

definition stripped_field :: "csv_row \<Rightarrow> string \<Rightarrow> string result" where
  "stripped_field row k = (case dget row k (Some []) of None \<Rightarrow> Inl AttributeError | Some s \<Rightarrow> Inr (strip s))"

definition parse_float :: "string option \<Rightarrow> real option" where
  "parse_float s = (if \<not> truthy s then None else float_of_string (the s))"

definition skill_list :: "csv_row \<Rightarrow> json result" where
  "skill_list row = (case dget row ''required_skills'' (Some []) of
       None \<Rightarrow> Inl AttributeError
     | Some s \<Rightarrow> Inr (JArr (map JStr (filter (\<lambda>x. x \<noteq> []) (map strip (split_on (CHR '','') s))))))"

definition job_unit :: "csv_row \<Rightarrow> task_unit option result" where
  "job_unit row =
     (let jid = strip (case dget row ''job_id'' None of None \<Rightarrow> [] | Some s \<Rightarrow> s) in
      if jid = [] then Inr None
      else
      (case stripped_field row ''company'' of Inl e \<Rightarrow> Inl e | Inr company \<Rightarrow>
      (case stripped_field row ''title'' of Inl e \<Rightarrow> Inl e | Inr title \<Rightarrow>
      (case stripped_field row ''description'' of Inl e \<Rightarrow> Inl e | Inr description \<Rightarrow>
      (case skill_list row of Inl e \<Rightarrow> Inl e | Inr skills \<Rightarrow>
      (case stripped_field row ''industry'' of Inl e \<Rightarrow> Inl e | Inr industry \<Rightarrow>
        Inr (Some
          \<lparr>tu_id = jid,
           tu_metadata = [(''company'', JStr company), (''title'', JStr title), (''description'', JStr description),
             (''required_skills'', skills),
             (''budget_usd'', json_or_null JNum (parse_float (dget row ''budget_usd'' None)))],
           tu_stratum = (if industry = [] then None else Some industry)\<rparr>)))))))"

text \<open>The pool: the file, if there is one, and the units once they are loaded.\<close>

record job_pool =
  jp_file :: "csv_row list option"
  jp_units :: "task_unit list option"

definition pool_load :: "job_pool \<Rightarrow> task_unit list result \<times> job_pool" where
  "pool_load p = (case jp_units p of
       Some us \<Rightarrow> (Inr us, p)
     | None \<Rightarrow>
        (case jp_file p of
           None \<Rightarrow> (Inl FileNotFoundError, p)
         | Some rows \<Rightarrow>
            (case map_result job_unit rows of
               Inl e \<Rightarrow> (Inl e, p)
             | Inr units \<Rightarrow> (Inr (List.map_filter id units), p\<lparr>jp_units := Some (List.map_filter id units)\<rparr>))))"



text \<open>What a loaded unit carries: texts, and a list of texts under \<open>required_skills\<close>.\<close>

definition job_metadata :: "(string, json) dict \<Rightarrow> bool" where
  "job_metadata md \<longleftrightarrow> (\<exists>ss. dget md ''required_skills'' JNull = JArr (map JStr ss))
     \<and> (\<exists>s. map_of md ''description'' = Some (JStr s))"

lemma job_unit_fields:
  assumes "job_unit row = Inr (Some tu)"
  shows "\<exists>company title description skills budget. skill_list row = Inr skills \<and> tu_id tu \<noteq> [] \<and>
    tu_metadata tu = [(''company'', JStr company), (''title'', JStr title), (''description'', JStr description),
      (''required_skills'', skills), (''budget_usd'', budget)]"
  using assms unfolding job_unit_def Let_def by (simp split: if_splits sum.splits) (auto)

lemma skill_list_texts: "skill_list row = Inr skills \<Longrightarrow> \<exists>ss. skills = JArr (map JStr ss)"
  by (auto simp: skill_list_def split: option.splits)

lemma job_unit_metadata:
  assumes "job_unit row = Inr (Some tu)"
  shows "job_metadata (tu_metadata tu)"
proof -
  from job_unit_fields [OF assms] obtain c t d skills b where "skill_list row = Inr skills"
    and md: "tu_metadata tu = [(''company'', JStr c), (''title'', JStr t), (''description'', JStr d),
      (''required_skills'', skills), (''budget_usd'', b)]" by blast
  from skill_list_texts [OF this(1)] obtain ss where "skills = JArr (map JStr ss)" by blast
  then show ?thesis by (simp add: job_metadata_def md dget_def) blast
qed

lemma pool_load_metadata:
  assumes "pool_load p = (Inr us, p')" "case jp_units p of None \<Rightarrow> True | Some vs \<Rightarrow> \<forall>u\<in>set vs. job_metadata (tu_metadata u)"
    "u \<in> set us"
  shows "job_metadata (tu_metadata u)"
proof (cases "jp_units p")
  case None
  with assms(1) obtain rows units where "map_result job_unit rows = Inr units" "us = List.map_filter id units"
    by (auto simp: pool_load_def split: option.splits sum.splits)
  moreover from this assms(3) have "Some u \<in> set units" by (auto simp: map_filter_def)
  ultimately obtain row where "job_unit row = Inr (Some u)"
    by (auto simp: map_result_Inr list_all2_conv_all_nth in_set_conv_nth)
  then show ?thesis using job_unit_metadata by blast
qed (use assms in \<open>simp add: pool_load_def\<close>)

text \<open>The four builders succeed on the units of the pool, whatever the stages before returned.\<close>

lemma join_texts: "\<exists>s. join_items sep (JArr (map JStr ss)) = Inr s"
proof -
  have "map_result text_of (map JStr ss) = Inr ss" by (induction ss) simp_all
  then show ?thesis by (simp add: join_items_def list_of_def)
qed

text \<open>
  No prompt of the example fails. For every unit the job pool loads from its file, every one of the four
  stages and every context the earlier stages may leave, whatever values they parsed from the replies, the
  runner gets a pair of prompts.
\<close>

theorem job_app_prompts_never_fail:
  assumes "pool_load \<lparr>jp_file = Some rows, jp_units = None\<rparr> = (Inr us, p')" "tu \<in> set us"
    "stg \<in> set (job_app_stages loads dumps str_of)"
  shows "\<exists>prompts. build_prompt stg tu ctx = Inr prompts"
proof -
  from pool_load_metadata [OF assms(1) _ assms(2)] have md: "job_metadata (tu_metadata tu)" by simp
  then obtain ss s where skills: "dget (tu_metadata tu) ''required_skills'' JNull = JArr (map JStr ss)"
    and desc: "dget (tu_metadata tu) ''description'' (JStr []) = JStr s"
    by (auto simp: job_metadata_def dget_def)
  from join_texts [of "'', ''" ss] obtain joined where "join_items '', '' (JArr (map JStr ss)) = Inr joined" by blast
  with skills desc assms(3) show ?thesis
    by (auto simp: job_app_stages_def job_app_stage_def build_prompt_def build_research_prompt_def build_draft_prompt_def
        build_polish_prompt_def build_validate_draft_prompt_def skills_line_def excerpt_def sliced_text_def Let_def)
qed

definition one_job :: csv_row where
  "one_job = [(''job_id'', Some ''j1''), (''industry'', Some ''saas''), (''required_skills'', Some ''python, sql'')]"

corollary job_app_prompts_never_fail_witness:
  "\<exists>u p' prompts. pool_load \<lparr>jp_file = Some [one_job], jp_units = None\<rparr> = (Inr [u], p')
     \<and> build_prompt (job_app_stages (\<lambda>_. None) (\<lambda>_. []) (\<lambda>_. []) ! 0) u
         \<lparr>cx_task_unit = u, cx_outputs = [], cx_parent_prompt_hashes = [], cx_response_texts = [], cx_quarantined = False\<rparr> = Inr prompts"
proof -
  obtain u p' where load: "pool_load \<lparr>jp_file = Some [one_job], jp_units = None\<rparr> = (Inr [u], p')"
    by (simp add: pool_load_def one_job_def job_unit_def stripped_field_def skill_list_def dget_def strip_def py_space_def
        map_filter_simps Let_def)
  have "job_app_stages (\<lambda>_. None) (\<lambda>_. []) (\<lambda>_. []) ! 0 \<in> set (job_app_stages (\<lambda>_. None) (\<lambda>_. []) (\<lambda>_. []))"
    by (rule nth_mem) (simp add: job_app_stages_def)
  from job_app_prompts_never_fail [OF load _ this] load show ?thesis by fastforce
qed

section \<open>The provider of the dry run\<close>

text \<open>\<open>s.split(sep, 1)[1]\<close> for a text that contains the separator.\<close>

fun after_first :: "string \<Rightarrow> string \<Rightarrow> string" where
  "after_first sep [] = []"
| "after_first sep (c # cs) = (if take (length sep) (c # cs) = sep then drop (length sep) (c # cs) else after_first sep cs)"

definition judged_lite :: "string \<Rightarrow> bool" where
  "judged_lite prompt \<longleftrightarrow> str_in ''[by:'' prompt
     \<and> str_in ''lite'' (takeWhile (\<lambda>c. c \<noteq> CHR '']'') (after_first ''[by:'' prompt))"

text \<open>The grades 0.78 or 0.92, and 0.05 less for the coverage, with two digits.\<close>

definition fake_grading :: "bool \<Rightarrow> string" where
  "fake_grading lite =
     (let q = (if lite then ''0.78'' else ''0.92''); c = (if lite then ''0.73'' else ''0.87'') in
      ''{\"intent_match\": '' @ q @ '','' @ ''\"skill_coverage\": '' @ c @ '','' @ ''\"tone\": '' @ q @ '',''
      @ ''\"reasoning\": \"addresses the buyer signals well\"}'')"

definition fake_research :: string where
  "fake_research =
     ''{\"intent\": \"ship a production system fast\",''
     @ ''\"buyer_signals\": [\"urgency\", \"production focus\"],''
     @ ''\"risk_flags\": [\"scope ambiguity\"],''
     @ ''\"skill_gaps\": []}''"

definition fake_polish :: string where
  "fake_polish =
     ''{\"letter\": \"Hi, I have shipped 12+ production systems on ''
     @ ''this exact stack. Happy to share case studies on a quick ''
     @ ''call.\",''
     @ ''\"edits_made\": [\"tightened opening\", \"removed filler\"]}''"

definition fake_draft :: "string \<Rightarrow> string" where
  "fake_draft model =
     ''{\"letter\": \"[by:'' @ model @ ''] I have shipped 12+ ''
     @ ''production systems on the exact stack you describe. I ''
     @ ''ship clean async code, ship fast, and stay in scope. ''
     @ ''Happy to share two relevant case studies on a 15-min call.\",''
     @ ''\"key_skills_addressed\": [\"python\", \"fastapi\", \"async\"]}''"

definition fake_generate :: "string \<Rightarrow> string \<Rightarrow> string \<Rightarrow> string" where
  "fake_generate model prompt system =
     (let sys_lc = lower system in
      if str_in ''auditing'' sys_lc \<or> str_in ''grade it'' sys_lc then fake_grading (judged_lite prompt)
      else if str_in ''extract the buyer'' sys_lc \<or> str_in ''decoding job_app'' sys_lc then fake_research
      else if str_in ''polish the supplied draft'' sys_lc \<or> str_in ''cover-letter editor'' sys_lc then fake_polish
      else if str_in ''writing a cover letter'' sys_lc \<or> str_in ''freelance pitch'' sys_lc then fake_draft model
      else ''{\"ok\": true, \"padding\": \"placeholder response with enough length\"}'')"



text \<open>The provider recognises the stage by its system prompt.\<close>

lemma lower_systems:
  "lower research_system =
     ''you are an expert at decoding jobapp job postings. extract the ''
     @ ''buyer's true intent so a freelancer can craft a precise cover ''
     @ ''letter. output strict json with these keys: intent (string), ''
     @ ''buyer_signals (list of strings), risk_flags (list of strings), ''
     @ ''skill_gaps (list of strings).''"
  "lower draft_system =
     ''you are writing a cover letter for an jobapp freelance pitch. ''
     @ ''use the supplied research output to address the buyer's intent ''
     @ ''directly, name-drop relevant skills, and stay under 200 words. ''
     @ ''output strict json: { letter: string, key_skills_addressed: ''
     @ ''list of strings }. the letter must read as natural prose.''"
  "lower polish_system =
     ''you are a cover-letter editor. polish the supplied draft for ''
     @ ''clarity, tone, and concision (<=180 words). preserve every skill ''
     @ ''claim and the buyer-intent address. output strict json with ''
     @ ''keys: letter (string, polished), edits_made (list of strings).''"
  "lower validate_system =
     ''you are auditing a cover letter for an jobapp pitch. grade it on ''
     @ ''three axes (each 0..1): intent_match, skill_coverage, tone. ''
     @ ''output strict json: { intent_match: float, skill_coverage: ''
     @ ''float, tone: float, reasoning: string }.''"
  unfolding research_system_def draft_system_def polish_system_def validate_system_def
  by (simp add: lower_simps lower_char_def, code_simp)+

lemma fake_generate_stages:
  "fake_generate model prompt research_system = fake_research"
  "fake_generate model prompt draft_system = fake_draft model"
  "fake_generate model prompt polish_system = fake_polish"
  "fake_generate model prompt validate_system = fake_grading (judged_lite prompt)"
  unfolding fake_generate_def Let_def lower_systems
  by (simp_all del: str_in.simps add: str_in_starts)

section \<open>The driver\<close>



record job_app_args =
  ja_jobs :: int
  ja_candidates :: int
  ja_candidates_list :: "string list option"
  ja_concurrency :: nat
  ja_dry_run :: bool

definition default_job_app_args :: job_app_args where
  "default_job_app_args = \<lparr>ja_jobs = 5, ja_candidates = 3, ja_candidates_list = None, ja_concurrency = 8, ja_dry_run = False\<rparr>"


definition job_app_schedule :: "job_app_args \<Rightarrow> int \<Rightarrow> halving_schedule result" where
  "job_app_schedule a pool_total =
     (let n_jobs = min (ja_jobs a) pool_total
      in make_schedule [min (ja_candidates a) 3, max (ja_candidates a div 2) 1] [min 2 n_jobs, n_jobs] n_jobs)"






text \<open>The schedule is accepted for every positive number of candidates and jobs.\<close>

lemma job_app_schedule_iff:
  "(\<exists>s. job_app_schedule a n = Inr s) \<longleftrightarrow> 0 < ja_candidates a \<and> 0 < min (ja_jobs a) n"
  by (auto simp: job_app_schedule_def make_schedule_def Let_def)





text \<open>
  With the default arguments the schedule has two rounds, of three candidates and of one.
\<close>

lemma job_app_default_schedule:
  "job_app_schedule default_job_app_args 5 = Inr \<lparr>hs_round_sizes = [3, 1], hs_units_per_arm = [2, 5], hs_pool_size = 5\<rparr>"
  by (simp add: job_app_schedule_def default_job_app_args_def make_schedule_def)





end
