(* ===== verification/Base64.thy ===== *)
theory Base64
  imports Prelude
begin

text \<open>
  \<open>base64.b64encode\<close> and \<open>base64.b64decode\<close> of the standard library, as \<open>storage/file.py\<close> uses them for the
  compressed logs of a row. Bytes are characters. The decoder is the one that discards characters outside
  the alphabet and stops at complete padding.
\<close>

definition b64_char :: "nat \<Rightarrow> char" where
  "b64_char k = char_of (if k < 26 then 65 + k else if k < 52 then 71 + k else if k < 62 then k - 4 else if k = 62 then 43 else 47)"

definition b64_value :: "char \<Rightarrow> nat option" where
  "b64_value c = (let n = of_char c in
     if 65 \<le> n \<and> n \<le> 90 then Some (n - 65) else if 97 \<le> n \<and> n \<le> 122 then Some (n - 71)
     else if 48 \<le> n \<and> n \<le> 57 then Some (n + 4) else if n = 43 then Some 62 else if n = 47 then Some 63 else None)"

fun b64encode :: "string \<Rightarrow> string" where
  "b64encode [] = []"
| "b64encode [a] = (let x = of_char a in [b64_char (x div 4), b64_char (x mod 4 * 16), CHR ''='', CHR ''=''])"
| "b64encode [a, b] = (let x = of_char a; y = of_char b in
     [b64_char (x div 4), b64_char (x mod 4 * 16 + y div 16), b64_char (y mod 16 * 4), CHR ''=''])"
| "b64encode (a # b # c # s) = (let x = of_char a; y = of_char b; z = of_char c in
     [b64_char (x div 4), b64_char (x mod 4 * 16 + y div 16), b64_char (y mod 16 * 4 + z div 64), b64_char (z mod 64)] @ b64encode s)"

text \<open>The scan: the position in the group of four, the bits left over and the padding seen.\<close>

fun b64_scan :: "nat \<Rightarrow> nat \<Rightarrow> nat \<Rightarrow> string \<Rightarrow> string result" where
  "b64_scan q left pads [] = (if q = 0 then Inr [] else Inl ValueError)"
| "b64_scan q left pads (c # cs) =
     (if c = CHR ''=''
      then (if q < 2 then b64_scan q left pads cs else if 4 \<le> q + pads + 1 then Inr [] else b64_scan q left (pads + 1) cs)
      else (case b64_value c of
          None \<Rightarrow> b64_scan q left pads cs
        | Some v \<Rightarrow>
            if q = 0 then b64_scan 1 v 0 cs
            else if q = 1 then map_sum id (Cons (char_of (left * 4 + v div 16))) (b64_scan 2 (v mod 16) 0 cs)
            else if q = 2 then map_sum id (Cons (char_of (left * 16 + v div 4))) (b64_scan 3 (v mod 4) 0 cs)
            else map_sum id (Cons (char_of (left * 64 + v))) (b64_scan 0 0 0 cs)))"

text \<open>A text with a character outside ASCII is refused before the scan.\<close>

definition b64decode :: "string \<Rightarrow> string result" where
  "b64decode s = (if \<forall>c\<in>set s. of_char c < (128 :: nat) then b64_scan 0 0 0 s else Inl ValueError)"

section \<open>Decoding gives back what was encoded\<close>

lemma b64_char_facts [simp]:
  assumes "k < 64"
  shows "b64_value (b64_char k) = Some k" "b64_char k \<noteq> CHR ''=''" "of_char (b64_char k) < (128 :: nat)"
proof -
  let ?n = "if k < 26 then 65 + k else if k < 52 then 71 + k else if k < 62 then k - 4 else if k = 62 then 43 else 47 :: nat"
  have n: "of_char (b64_char k) = ?n" using assms by (simp add: b64_char_def)
  show "b64_value (b64_char k) = Some k" unfolding b64_value_def n using assms by (auto simp: Let_def)
  show "of_char (b64_char k) < (128 :: nat)" unfolding n using assms by auto
  have "of_char (CHR ''='') = (61 :: nat)" by simp
  with n show "b64_char k \<noteq> CHR ''=''" using assms by (auto split: if_splits)
qed

text \<open>The bits of three bytes in four groups of six.\<close>

lemma b64_groups:
  fixes x y z :: nat
  assumes "x < 256" "y < 256" "z < 256"
  shows "x div 4 < 64" "x mod 4 * 16 + y div 16 < 64" "y mod 16 * 4 + z div 64 < 64" "z mod 64 < 64"
    and "x div 4 * 4 + (x mod 4 * 16 + y div 16) div 16 = x"
    and "(x mod 4 * 16 + y div 16) mod 16 * 16 + (y mod 16 * 4 + z div 64) div 4 = y"
    and "(y mod 16 * 4 + z div 64) mod 4 * 64 + z mod 64 = z"
proof -
  have d: "y div 16 < 16" "z div 64 < 4" "x mod 4 < 4" "y mod 16 < 16" using assms by simp_all
  show "x div 4 < 64" "z mod 64 < 64" using assms by simp_all
  show "x mod 4 * 16 + y div 16 < 64" "y mod 16 * 4 + z div 64 < 64" using d by linarith+
  have "(x mod 4 * 16 + y div 16) div 16 = x mod 4" "(x mod 4 * 16 + y div 16) mod 16 = y div 16"
    "(y mod 16 * 4 + z div 64) div 4 = y mod 16" "(y mod 16 * 4 + z div 64) mod 4 = z div 64"
    using d(1,2) by simp_all
  then show "x div 4 * 4 + (x mod 4 * 16 + y div 16) div 16 = x"
    "(x mod 4 * 16 + y div 16) mod 16 * 16 + (y mod 16 * 4 + z div 64) div 4 = y"
    "(y mod 16 * 4 + z div 64) mod 4 * 64 + z mod 64 = z" by simp_all
qed

lemma b64_scan_group:
  assumes "u < 64" "v < 64" "w < 64"
  shows "k < 64 \<Longrightarrow> b64_scan 0 0 0 (b64_char u # b64_char v # b64_char w # b64_char k # s) =
      map_sum id (append [char_of (u * 4 + v div 16), char_of (v mod 16 * 16 + w div 4), char_of (w mod 4 * 64 + k)]) (b64_scan 0 0 0 s)"
    and "b64_scan 0 0 0 [b64_char u, b64_char v, b64_char w, CHR ''=''] = Inr [char_of (u * 4 + v div 16), char_of (v mod 16 * 16 + w div 4)]"
    and "b64_scan 0 0 0 [b64_char u, b64_char v, CHR ''='', CHR ''=''] = Inr [char_of (u * 4 + v div 16)]"
  using assms by (cases "b64_scan 0 0 0 s", simp_all)

lemma b64_scan_encode: "b64_scan 0 0 0 (b64encode s) = Inr s"
proof (induction s rule: b64encode.induct)
  case (2 a)
  have a: "of_char a < (256 :: nat)" by simp
  show ?case
    using b64_scan_group(3) [OF b64_groups(1,2) [OF a, of 0 0], of 0] b64_groups(5) [OF a, of 0 0] by (simp add: Let_def)
next
  case (3 a b)
  have ab: "of_char a < (256 :: nat)" "of_char b < (256 :: nat)" by simp_all
  show ?case
    using b64_scan_group(2) [OF b64_groups(1-3) [OF ab, of 0]] b64_groups(5,6) [OF ab, of 0] by (simp add: Let_def)
next
  case (4 a b c s)
  have abc: "of_char a < (256 :: nat)" "of_char b < (256 :: nat)" "of_char c < (256 :: nat)" by simp_all
  show ?case
    unfolding b64encode.simps Let_def append_Cons append_Nil b64_scan_group(1) [OF b64_groups(1-4) [OF abc]] b64_groups(5-7) [OF abc]
    by (simp add: 4)
qed simp

lemma b64encode_ascii: "\<forall>c\<in>set (b64encode s). of_char c < (128 :: nat)"
proof (induction s rule: b64encode.induct)
  case (2 a)
  have a: "of_char a < (256 :: nat)" by simp
  show ?case using b64_char_facts(3) [OF b64_groups(1) [OF a, of 0 0]] b64_char_facts(3) [OF b64_groups(2) [OF a, of 0 0]]
    by (simp add: Let_def)
next
  case (3 a b)
  have ab: "of_char a < (256 :: nat)" "of_char b < (256 :: nat)" by simp_all
  show ?case using b64_groups(1-3) [OF ab, of 0, THEN b64_char_facts(3)] by (simp add: Let_def)
next
  case (4 a b c s)
  have abc: "of_char a < (256 :: nat)" "of_char b < (256 :: nat)" "of_char c < (256 :: nat)" by simp_all
  show ?case using 4 b64_groups(1-4) [OF abc, THEN b64_char_facts(3)] by (simp add: Let_def)
qed simp

lemma b64decode_encode [simp]: "b64decode (b64encode s) = Inr s"
  using b64encode_ascii b64_scan_encode by (simp add: b64decode_def)

end
