(* ===== verification/Row_Codec.thy ===== *)
theory Row_Codec
  imports Python_Json Base64
begin

text \<open>
  How a row leaves and enters a backend: \<open>_row_to_dict\<close> and \<open>_dict_to_row\<close> of \<open>storage/file.py\<close>, and the
  parameters, the columns and \<open>_record_to_row\<close> of \<open>storage/postgres.py\<close>. A row is here what Python has, the
  values of its fields by name; \<open>RunRow\<close> checks names only, never types. Instants are numbers; their ISO
  text and the text of a JSON value are parameters.
\<close>

section \<open>A row and its fields\<close>

datatype pyfield = FJson json | FTime int | FBytes string

type_synonym py_row = "(string, pyfield) dict"

definition jint :: "int \<Rightarrow> json" where
  "jint x = JNum (of_int x)"

definition or_none :: "('a \<Rightarrow> pyfield) \<Rightarrow> 'a option \<Rightarrow> pyfield" where
  "or_none f x = (case x of None \<Rightarrow> FJson JNull | Some v \<Rightarrow> f v)"

text \<open>\<open>asdict(row)\<close>.\<close>

definition row_fields :: "run_row \<Rightarrow> py_row" where
  "row_fields r =
    [(''composite_hash'', FJson (JStr (rr_composite_hash r))),
     (''provider'', FJson (JStr (rr_provider r))),
     (''model'', FJson (JStr (rr_model r))),
     (''thinking'', FJson (JStr (rr_thinking r))),
     (''stage'', FJson (JStr (rr_stage r))),
     (''task_unit_id'', FJson (JStr (rr_task_unit_id r))),
     (''stratum'', FJson (json_or_null JStr (rr_stratum r))),
     (''lang'', FJson (json_or_null JStr (rr_lang r))),
     (''parent_prompt_hash'', FJson (json_or_null JStr (rr_parent_prompt_hash r))),
     (''experiment_tag'', FJson (JStr (rr_experiment_tag r))),
     (''response'', FJson (json_or_null JStr (rr_response r))),
     (''error_class'', FJson (json_or_null JStr (rr_error_class r))),
     (''error_message'', FJson (json_or_null JStr (rr_error_message r))),
     (''cost_usd'', FJson (json_or_null JNum (rr_cost_usd r))),
     (''effective_cost_usd'', FJson (json_or_null JNum (rr_effective_cost_usd r))),
     (''input_tokens'', FJson (json_or_null jint (rr_input_tokens r))),
     (''output_tokens'', FJson (json_or_null jint (rr_output_tokens r))),
     (''reasoning_tokens'', FJson (json_or_null jint (rr_reasoning_tokens r))),
     (''cache_hit_tokens'', FJson (json_or_null jint (rr_cache_hit_tokens r))),
     (''cache_write_tokens'', FJson (json_or_null jint (rr_cache_write_tokens r))),
     (''cache_discount_usd'', FJson (json_or_null JNum (rr_cache_discount_usd r))),
     (''is_byok'', FJson (json_or_null JBool (rr_is_byok r))),
     (''web_search_citations'', FJson (json_or_null id (rr_web_search_citations r))),
     (''upstream_resolved_model'', FJson (json_or_null JStr (rr_upstream_resolved_model r))),
     (''upstream_provider'', FJson (json_or_null JStr (rr_upstream_provider r))),
     (''upstream_model'', FJson (json_or_null JStr (rr_upstream_model r))),
     (''native_finish_reason'', FJson (json_or_null JStr (rr_native_finish_reason r))),
     (''generation_id'', FJson (json_or_null JStr (rr_generation_id r))),
     (''mean_attempt_duration_sec'', FJson (json_or_null JNum (rr_mean_attempt_duration_sec r))),
     (''n_attempts'', FJson (json_or_null jint (rr_n_attempts r))),
     (''http_status_sequence'', FJson (json_or_null (JArr \<circ> map jint) (rr_http_status_sequence r))),
     (''per_attempt_durations_sec'', FJson (json_or_null (JArr \<circ> map JNum) (rr_per_attempt_durations_sec r))),
     (''logs'', FJson (json_or_null JStr (rr_logs r))),
     (''logs_compressed'', or_none FBytes (rr_logs_compressed r)),
     (''parse_failure_prefix'', FJson (json_or_null JStr (rr_parse_failure_prefix r))),
     (''generation_details'', FJson (JObj (rr_generation_details r))),
     (''ts'', or_none FTime (rr_ts r))]"

text \<open>The parameters of \<open>RunRow\<close> with their defaults.\<close>

definition run_row_params :: "(string \<times> pyfield option) list" where
  "run_row_params =
    [(''composite_hash'', None), (''provider'', None), (''model'', None),
     (''thinking'', None), (''stage'', None), (''task_unit_id'', None),
     (''stratum'', None), (''lang'', None), (''parent_prompt_hash'', None),
     (''experiment_tag'', None), (''response'', None), (''error_class'', None),
     (''error_message'', None), (''cost_usd'', None), (''effective_cost_usd'', None),
     (''input_tokens'', None), (''output_tokens'', None), (''reasoning_tokens'', None),
     (''cache_hit_tokens'', None), (''cache_write_tokens'', None), (''cache_discount_usd'', Some (FJson JNull)),
     (''is_byok'', Some (FJson JNull)), (''web_search_citations'', Some (FJson JNull)), (''upstream_resolved_model'', Some (FJson JNull)),
     (''upstream_provider'', Some (FJson JNull)), (''upstream_model'', Some (FJson JNull)), (''native_finish_reason'', Some (FJson JNull)),
     (''generation_id'', Some (FJson JNull)), (''mean_attempt_duration_sec'', Some (FJson JNull)), (''n_attempts'', Some (FJson JNull)),
     (''http_status_sequence'', Some (FJson JNull)), (''per_attempt_durations_sec'', Some (FJson JNull)), (''logs'', Some (FJson JNull)),
     (''logs_compressed'', Some (FJson JNull)), (''parse_failure_prefix'', Some (FJson JNull)), (''generation_details'', Some (FJson (JObj []))),
     (''ts'', Some (FJson JNull))]"

definition run_row_of :: "py_row \<Rightarrow> py_row result" where
  "run_row_of d =
     (if (\<exists>k\<in>set (map fst d). k \<notin> set (map fst run_row_params)) then Inl TypeError
      else map_result (\<lambda>(k, dflt). case map_of d k of Some v \<Rightarrow> Inr (k, v)
          | None \<Rightarrow> (case dflt of Some v \<Rightarrow> Inr (k, v) | None \<Rightarrow> Inl TypeError)) run_row_params)"

section \<open>Lines of the results file\<close>

definition row_to_dict :: "(int \<Rightarrow> string) \<Rightarrow> run_row \<Rightarrow> py_row" where
  "row_to_dict isoformat r =
     (let d = row_fields r;
          d1 = (case rr_ts r of Some t \<Rightarrow> dset ''ts'' (FJson (JStr (isoformat t))) d | None \<Rightarrow> d)
      in case rr_logs_compressed r of
          Some b \<Rightarrow> dset ''logs_compressed'' (FJson (JStr (b64encode b))) d1
        | None \<Rightarrow> d1)"

text \<open>
  The value behind the line \<open>orjson.dumps\<close> writes with sorted keys: bytes cannot be written.
\<close>

fun sort_keys :: "json \<Rightarrow> json" where
  "sort_keys (JObj kvs) = JObj (sort_key fst (map (\<lambda>(k, v). (k, sort_keys v)) kvs))"
| "sort_keys (JArr xs) = JArr (map sort_keys xs)"
| "sort_keys j = j"

fun written :: "string \<times> pyfield \<Rightarrow> (string \<times> json) result" where
  "written (k, FJson j) = Inr (k, j)"
| "written (k, _) = Inl TypeError"

definition json_line :: "py_row \<Rightarrow> json result" where
  "json_line d = map_sum id (sort_keys \<circ> JObj) (map_result written d)"

definition dict_to_row :: "(string \<Rightarrow> int option) \<Rightarrow> json \<Rightarrow> py_row result" where
  "dict_to_row fromisoformat j = (case j of
       JObj kvs \<Rightarrow>
         (let d = map (\<lambda>(k, v). (k, FJson v)) kvs;
              d1 = (case map_of d ''ts'' of
                  Some (FJson (JStr s)) \<Rightarrow> dset ''ts'' (or_none FTime (fromisoformat s)) d | _ \<Rightarrow> d)
          in case map_of d1 ''logs_compressed'' of
              Some (FJson (JStr s)) \<Rightarrow>
                (case b64decode s of Inl e \<Rightarrow> Inl e | Inr b \<Rightarrow> run_row_of (dset ''logs_compressed'' (FBytes b) d1))
            | _ \<Rightarrow> run_row_of d1)
     | _ \<Rightarrow> Inl AttributeError)"

text \<open>The row up to the order of the keys within its JSON values.\<close>

fun sorted_field :: "pyfield \<Rightarrow> pyfield" where
  "sorted_field (FJson j) = FJson (sort_keys j)"
| "sorted_field f = f"

section \<open>The columns of the results table\<close>

definition RESULTS_COLS :: "string list" where
  "RESULTS_COLS =
    [''composite_hash'', ''provider'', ''model'', ''thinking'', ''stage'',
     ''task_unit_id'', ''stratum'', ''lang'', ''parent_prompt_hash'', ''experiment_tag'',
     ''response'', ''error_class'', ''error_message'', ''cost_usd'', ''effective_cost_usd'',
     ''input_tokens'', ''output_tokens'', ''reasoning_tokens'', ''cache_hit_tokens'', ''cache_write_tokens'',
     ''cache_discount_usd'', ''is_byok'', ''web_search_citations'', ''upstream_resolved_model'', ''upstream_provider'',
     ''upstream_model'', ''native_finish_reason'', ''generation_id'', ''mean_attempt_duration_sec'', ''n_attempts'',
     ''http_status_sequence'', ''per_attempt_durations_sec'', ''logs'', ''logs_compressed'', ''parse_failure_prefix'',
     ''generation_details'', ''ts'']"

text \<open>\<open>_to_json\<close>: the text for a JSONB column.\<close>

definition to_json :: "(json \<Rightarrow> string) \<Rightarrow> json \<Rightarrow> pyfield" where
  "to_json dumps v = FJson (if v = JNull then JNull else JStr (dumps v))"

text \<open>The parameters of the INSERT, \<open>ts = row.ts or datetime.now(UTC)\<close> included.\<close>

definition insert_values :: "(json \<Rightarrow> string) \<Rightarrow> int \<Rightarrow> run_row \<Rightarrow> pyfield list" where
  "insert_values dumps now r =
    [FJson (JStr (rr_composite_hash r)),
     FJson (JStr (rr_provider r)),
     FJson (JStr (rr_model r)),
     FJson (JStr (rr_thinking r)),
     FJson (JStr (rr_stage r)),
     FJson (JStr (rr_task_unit_id r)),
     FJson (json_or_null JStr (rr_stratum r)),
     FJson (json_or_null JStr (rr_lang r)),
     FJson (json_or_null JStr (rr_parent_prompt_hash r)),
     FJson (JStr (rr_experiment_tag r)),
     FJson (json_or_null JStr (rr_response r)),
     FJson (json_or_null JStr (rr_error_class r)),
     FJson (json_or_null JStr (rr_error_message r)),
     FJson (json_or_null JNum (rr_cost_usd r)),
     FJson (json_or_null JNum (rr_effective_cost_usd r)),
     FJson (json_or_null jint (rr_input_tokens r)),
     FJson (json_or_null jint (rr_output_tokens r)),
     FJson (json_or_null jint (rr_reasoning_tokens r)),
     FJson (json_or_null jint (rr_cache_hit_tokens r)),
     FJson (json_or_null jint (rr_cache_write_tokens r)),
     FJson (json_or_null JNum (rr_cache_discount_usd r)),
     FJson (json_or_null JBool (rr_is_byok r)),
     to_json dumps (json_or_null id (rr_web_search_citations r)),
     FJson (json_or_null JStr (rr_upstream_resolved_model r)),
     FJson (json_or_null JStr (rr_upstream_provider r)),
     FJson (json_or_null JStr (rr_upstream_model r)),
     FJson (json_or_null JStr (rr_native_finish_reason r)),
     FJson (json_or_null JStr (rr_generation_id r)),
     FJson (json_or_null JNum (rr_mean_attempt_duration_sec r)),
     FJson (json_or_null jint (rr_n_attempts r)),
     to_json dumps (json_or_null (JArr \<circ> map jint) (rr_http_status_sequence r)),
     to_json dumps (json_or_null (JArr \<circ> map JNum) (rr_per_attempt_durations_sec r)),
     FJson (json_or_null JStr (rr_logs r)),
     or_none FBytes (rr_logs_compressed r),
     FJson (json_or_null JStr (rr_parse_failure_prefix r)),
     to_json dumps (JObj (rr_generation_details r)),
     FTime (case rr_ts r of Some t \<Rightarrow> t | None \<Rightarrow> now)]"

text \<open>\<open>_record_to_row\<close>: what is done with each column.\<close>

datatype column_kind = PlainCol | FloatCol | JsonCol | JsonOrEmpty

definition record_columns :: "(string \<times> column_kind) list" where
  "record_columns =
    [(''composite_hash'', PlainCol), (''provider'', PlainCol), (''model'', PlainCol),
     (''thinking'', PlainCol), (''stage'', PlainCol), (''task_unit_id'', PlainCol),
     (''stratum'', PlainCol), (''lang'', PlainCol), (''parent_prompt_hash'', PlainCol),
     (''experiment_tag'', PlainCol), (''response'', PlainCol), (''error_class'', PlainCol),
     (''error_message'', PlainCol), (''cost_usd'', FloatCol), (''effective_cost_usd'', FloatCol),
     (''input_tokens'', PlainCol), (''output_tokens'', PlainCol), (''reasoning_tokens'', PlainCol),
     (''cache_hit_tokens'', PlainCol), (''cache_write_tokens'', PlainCol), (''cache_discount_usd'', FloatCol),
     (''is_byok'', PlainCol), (''web_search_citations'', JsonCol), (''upstream_resolved_model'', PlainCol),
     (''upstream_provider'', PlainCol), (''upstream_model'', PlainCol), (''native_finish_reason'', PlainCol),
     (''generation_id'', PlainCol), (''mean_attempt_duration_sec'', FloatCol), (''n_attempts'', PlainCol),
     (''http_status_sequence'', JsonCol), (''per_attempt_durations_sec'', JsonCol), (''logs'', PlainCol),
     (''logs_compressed'', PlainCol), (''parse_failure_prefix'', PlainCol), (''generation_details'', JsonOrEmpty),
     (''ts'', PlainCol)]"

text \<open>\<open>_maybe_json\<close>: a text is parsed, unless it is no JSON; any other value is taken as it is.\<close>

definition maybe_json :: "(string \<Rightarrow> json option) \<Rightarrow> pyfield \<Rightarrow> pyfield" where
  "maybe_json loads v = (case v of
       FJson (JStr s) \<Rightarrow> (case loads s of Some j \<Rightarrow> FJson j | None \<Rightarrow> v)
     | _ \<Rightarrow> v)"

fun field_truthy :: "pyfield \<Rightarrow> bool" where
  "field_truthy (FJson j) = json_truthy j"
| "field_truthy (FTime t) = True"
| "field_truthy (FBytes b) = (b \<noteq> [])"

fun column_value :: "(string \<Rightarrow> json option) \<Rightarrow> column_kind \<Rightarrow> pyfield \<Rightarrow> pyfield result" where
  "column_value loads PlainCol v = Inr v"
| "column_value loads FloatCol v = (case v of
       FJson j \<Rightarrow> if j = JNull then Inr v else map_sum id (FJson \<circ> JNum) (float_of j) | _ \<Rightarrow> Inl TypeError)"
| "column_value loads JsonCol v = Inr (maybe_json loads v)"
| "column_value loads JsonOrEmpty v =
     Inr (if field_truthy (maybe_json loads v) then maybe_json loads v else FJson (JObj []))"

definition record_to_row :: "(string \<Rightarrow> json option) \<Rightarrow> py_row \<Rightarrow> py_row result" where
  "record_to_row loads rec =
     map_result (\<lambda>(c, kind). case map_of rec c of None \<Rightarrow> Inl KeyError
        | Some v \<Rightarrow> map_sum id (Pair c) (column_value loads kind v)) record_columns"

section \<open>A row survives the results file\<close>

abbreviation field_names :: "string list" where
  "field_names \<equiv> map fst run_row_params"

lemma row_field_names: "map fst (row_fields r) = field_names"
  by (simp add: row_fields_def run_row_params_def)

lemma field_names_distinct: "distinct field_names"
  unfolding run_row_params_def by code_simp

lemma dict_ok_row_fields: "dict_ok (row_fields r)"
  using field_names_distinct by (simp add: dict_ok_def row_field_names)

lemma lookup_all:
  assumes "dict_ok d"
  shows "map (\<lambda>k. (k, the (map_of d k))) (map fst d) = d"
  unfolding map_map
proof (rule map_idI)
  fix x
  assume "x \<in> set d"
  with assms show "((\<lambda>k. (k, the (map_of d k))) \<circ> fst) x = x" by (cases x) (simp add: dict_ok_def)
qed

lemma run_row_of_all:
  assumes "set (map fst d) = set field_names"
  shows "run_row_of d = Inr (map (\<lambda>k. (k, the (map_of d k))) field_names)"
proof -
  have "map_result (\<lambda>(k, dflt). case map_of d k of Some v \<Rightarrow> Inr (k, v)
        | None \<Rightarrow> (case dflt of Some v \<Rightarrow> Inr (k, v) | None \<Rightarrow> Inl TypeError)) run_row_params
      = Inr (map (\<lambda>(k, dflt). (k, the (map_of d k))) run_row_params)"
  proof (rule map_result_total)
    fix kd
    assume "kd \<in> set run_row_params"
    then have "fst kd \<in> fst ` set d" using assms by (metis imageI set_map)
    then obtain v where "map_of d (fst kd) = Some v" by (auto simp: in_keys_iff)
    then show "(case kd of (k, dflt) \<Rightarrow> case map_of d k of Some v \<Rightarrow> Inr (k, v)
        | None \<Rightarrow> (case dflt of Some v \<Rightarrow> Inr (k, v) | None \<Rightarrow> Inl TypeError)) = Inr (case kd of (k, dflt) \<Rightarrow> (k, the (map_of d k)))"
      by (simp add: case_prod_beta)
  qed
  moreover have "map (\<lambda>(k, dflt). (k, the (map_of d k))) run_row_params = map (\<lambda>k. (k, the (map_of d k))) field_names"
    by (simp add: case_prod_beta comp_def)
  ultimately show ?thesis using assms by (simp add: run_row_of_def)
qed

text \<open>Two dictionaries that agree on the fields make the same row.\<close>

lemma run_row_of_same:
  assumes "map_of d = map_of e" "map fst e = field_names"
  shows "run_row_of d = Inr e"
proof -
  have "set (map fst d) = set (map fst e)" using assms(1) by (metis dom_map_of_conv_image_fst set_map)
  then have "run_row_of d = Inr (map (\<lambda>k. (k, the (map_of e k))) (map fst e))"
    using run_row_of_all [of d] unfolding assms by simp
  also have "map (\<lambda>k. (k, the (map_of e k))) (map fst e) = e"
    using lookup_all [of e] field_names_distinct unfolding dict_ok_def assms(2) by blast
  finally show ?thesis .
qed

lemma map_of_sort_key:
  assumes "dict_ok d"
  shows "map_of (sort_key fst d) = map_of d"
proof -
  have "distinct (map fst (sort_key fst d))"
    using assms by (metis dict_ok_def distinct_map distinct_sort set_sort)
  then show ?thesis using assms unfolding dict_ok_def by (intro map_of_eqI) (auto intro: map_of_eq_Some_iff [THEN iffD1] simp: map_of_eq_Some_iff)
qed

text \<open>Every field but the instant and the bytes is a JSON value, and these two are turned into texts.\<close>

lemma row_lookups:
  "map_of (row_fields r) ''ts'' = Some (or_none FTime (rr_ts r))"
  "map_of (row_fields r) ''logs_compressed'' = Some (or_none FBytes (rr_logs_compressed r))"
  by (simp_all add: row_fields_def)

lemma plain_fields: "list_all (\<lambda>(k, f). k = ''ts'' \<or> k = ''logs_compressed'' \<or> (\<exists>j. f = FJson j)) (row_fields r)"
  by (simp add: row_fields_def)

lemma row_to_dict_lookup:
  "map_of (row_to_dict isoformat r) k =
     (if k = ''ts'' then Some (FJson (json_or_null (JStr \<circ> isoformat) (rr_ts r)))
      else if k = ''logs_compressed'' then Some (FJson (json_or_null (JStr \<circ> b64encode) (rr_logs_compressed r)))
      else map_of (row_fields r) k)"
  by (simp add: row_to_dict_def Let_def row_lookups or_none_def json_or_null_def split: option.split)

lemma row_to_dict_ok: "dict_ok (row_to_dict isoformat r)"
  by (simp add: row_to_dict_def Let_def dict_ok_row_fields split: option.split)

lemma all_written:
  "\<forall>x\<in>set d. \<exists>j. snd x = FJson j \<Longrightarrow> \<exists>kvs. map_result written d = Inr kvs \<and> map (\<lambda>(k, j). (k, FJson j)) kvs = d"
proof (induction d)
  case (Cons x d)
  then obtain k j where x: "x = (k, FJson j)" by (metis list.set_intros(1) prod.collapse)
  from Cons obtain kvs where "map_result written d = Inr kvs" "map (\<lambda>(k, j). (k, FJson j)) kvs = d" by fastforce
  then show ?case by (intro exI [of _ "(k, j) # kvs"]) (simp add: x)
qed simp

lemma row_to_dict_written:
  "\<exists>kvs. map_result written (row_to_dict isoformat r) = Inr kvs \<and> map (\<lambda>(k, j). (k, FJson j)) kvs = row_to_dict isoformat r"
proof (rule all_written, rule ballI)
  fix x
  assume "x \<in> set (row_to_dict isoformat r)"
  then have "(fst x, snd x) \<in> set (row_to_dict isoformat r)" by simp
  with row_to_dict_ok [of isoformat r] have x: "map_of (row_to_dict isoformat r) (fst x) = Some (snd x)"
    by (simp only: dict_ok_def map_of_eq_Some_iff)
  have "\<exists>j. f = FJson j" if "map_of (row_fields r) k = Some f" "k \<noteq> ''ts''" "k \<noteq> ''logs_compressed''" for k f
    using plain_fields [of r] map_of_SomeD [OF that(1)] that(2,3) by (auto simp: list_all_iff)
  with x [symmetric] show "\<exists>j. snd x = FJson j" by (auto simp: row_to_dict_lookup split: if_splits)
qed

text \<open>What the reader finds in the line.\<close>

lemma json_line_fields:
  "\<exists>kvs. json_line (row_to_dict isoformat r) = Inr (JObj kvs)
     \<and> map_of (map (\<lambda>(k, v). (k, FJson v)) kvs) = (\<lambda>k. map_option sorted_field (map_of (row_to_dict isoformat r) k))"
proof -
  obtain kvs where kvs: "map_result written (row_to_dict isoformat r) = Inr kvs" "map (\<lambda>(k, j). (k, FJson j)) kvs = row_to_dict isoformat r"
    using row_to_dict_written by blast
  let ?sorted = "sort_key fst (map (\<lambda>(k, v). (k, sort_keys v)) kvs)"
  have "map fst kvs = map fst (row_to_dict isoformat r)" unfolding kvs(2) [symmetric] by (simp add: comp_def case_prod_beta)
  then have "dict_ok kvs" using row_to_dict_ok [of isoformat r] by (simp add: dict_ok_def)
  then have "map_of ?sorted = map_of (map (\<lambda>(k, v). (k, sort_keys v)) kvs)"
    by (intro map_of_sort_key) (simp add: dict_ok_def comp_def case_prod_beta)
  then have "map_of (map (\<lambda>(k, v). (k, FJson v)) ?sorted) k = map_option sorted_field (map_of (row_to_dict isoformat r) k)" for k
    unfolding kvs(2) [symmetric] by (simp add: map_of_map option.map_comp comp_def)
  then show ?thesis using kvs(1) by (auto simp: json_line_def)
qed

text \<open>
  C34: A row survives the results file. Whatever a row holds, its line can be written, though JSON has neither instants nor
  bytes, and reading the line back gives the row again, up to the order of the keys inside its JSON values; of the
  ISO format of instants only its own round trip is used.
\<close>

theorem results_file_roundtrip:
  assumes "\<And>t. fromisoformat (isoformat t) = Some t"
  shows "\<exists>line. json_line (row_to_dict isoformat r) = Inr line
    \<and> dict_to_row fromisoformat line = Inr (map (\<lambda>(k, f). (k, sorted_field f)) (row_fields r))"
proof -
  obtain kvs where line: "json_line (row_to_dict isoformat r) = Inr (JObj kvs)"
    and kvs: "map_of (map (\<lambda>(k, v). (k, FJson v)) kvs) = (\<lambda>k. map_option sorted_field (map_of (row_to_dict isoformat r) k))"
    using json_line_fields by blast
  let ?e = "map (\<lambda>(k, f). (k, sorted_field f)) (row_fields r)"
  have e: "map fst ?e = field_names" using row_field_names by (simp add: comp_def case_prod_beta)
  have same: "run_row_of d = Inr ?e" if "\<And>k. map_of d k = map_option sorted_field (map_of (row_fields r) k)" for d
    by (rule run_row_of_same [OF _ e]) (rule ext, simp add: that map_of_map)
  have "dict_to_row fromisoformat (JObj kvs) = Inr ?e"
    using assms same
    by (cases "rr_ts r"; cases "rr_logs_compressed r")
      (simp_all add: dict_to_row_def kvs row_to_dict_lookup row_lookups json_or_null_def or_none_def Let_def)
  with line show ?thesis by blast
qed

text \<open>A row with logs, an instant and a JSON value; decimal numbers stand for the ISO format.\<close>

definition logged_row :: run_row where
  "logged_row = (good_row ''t'')\<lparr>rr_logs_compressed := Some ''zip'', rr_ts := Some 1700000000,
     rr_generation_details := [(''route'', JStr ''a''), (''cost'', JNum 1)]\<rparr>"

corollary results_file_roundtrip_witness:
  "\<exists>line. json_line (row_to_dict string_of_int logged_row) = Inr line
    \<and> dict_to_row int_of_string line = Inr (map (\<lambda>(k, f). (k, sorted_field f)) (row_fields logged_row))"
  by (rule results_file_roundtrip) simp

section \<open>A row survives the results table\<close>

definition JSONB_COLS :: "string list" where
  "JSONB_COLS = [''web_search_citations'', ''http_status_sequence'', ''per_attempt_durations_sec'', ''generation_details'']"

text \<open>
  What the driver returns: the value of a JSONB column is what \<open>fetch\<close> makes of the text written, a text again
  or, with a codec registered, a decoded value; other columns come back as they were written.
\<close>

definition fetched :: "(string \<Rightarrow> json) \<Rightarrow> py_row \<Rightarrow> py_row" where
  "fetched fetch rec = map (\<lambda>(c, v). (c, if c \<in> set JSONB_COLS
     then (case v of FJson (JStr s) \<Rightarrow> FJson (fetch s) | _ \<Rightarrow> v) else v)) rec"

definition inserted :: "(json \<Rightarrow> string) \<Rightarrow> int \<Rightarrow> run_row \<Rightarrow> py_row" where
  "inserted dumps now r = zip RESULTS_COLS (insert_values dumps now r)"

fun canonical :: "(json \<Rightarrow> json) \<Rightarrow> pyfield \<Rightarrow> pyfield" where
  "canonical canon (FJson j) = FJson (if j = JNull then JNull else canon j)"
| "canonical canon f = f"

lemma column_names: "map fst record_columns = RESULTS_COLS" "distinct RESULTS_COLS" "RESULTS_COLS = field_names"
  by (simp add: record_columns_def RESULTS_COLS_def, unfold RESULTS_COLS_def, code_simp, simp add: run_row_params_def)

lemma length_insert_values: "length (insert_values dumps now r) = length RESULTS_COLS"
  by (simp add: insert_values_def RESULTS_COLS_def)

text \<open>Reading by name is reading by position.\<close>

lemma map_result_by_name:
  "distinct (map fst cs) \<Longrightarrow> map fst rec = map fst cs \<Longrightarrow> set (map fst pre) \<inter> set (map fst cs) = {} \<Longrightarrow>
   map_result (\<lambda>(c, kind). case map_of (pre @ rec) c of None \<Rightarrow> Inl KeyError | Some v \<Rightarrow> g c kind v) cs
     = map_result (\<lambda>((c, kind), (_, v)). g c kind v) (zip cs rec)"
proof (induction cs arbitrary: rec pre)
  case (Cons x cs)
  obtain c kind where x: "x = (c, kind)" by fastforce
  with Cons.prems obtain v rec' where rec: "rec = (c, v) # rec'" by (cases rec) auto
  have "map_of pre c = None" using Cons.prems(3) by (auto simp: x map_of_eq_None_iff)
  then have "map_of (pre @ rec) c = Some v" by (simp add: rec map_add_def)
  with Cons.IH [of rec' "pre @ [(c, v)]"] Cons.prems show ?case by (simp add: x rec cong: sum.case_cong)
qed simp

lemma float_column: "column_value loads FloatCol (FJson (json_or_null JNum x)) = Inr (FJson (json_or_null JNum x))"
  by (cases x) (simp_all add: json_or_null_def)

text \<open>The four JSONB columns of a row as it is written, and what is read of one.\<close>

definition jsonb_values :: "run_row \<Rightarrow> json list" where
  "jsonb_values r = [json_or_null id (rr_web_search_citations r), json_or_null (JArr \<circ> map jint) (rr_http_status_sequence r),
     json_or_null (JArr \<circ> map JNum) (rr_per_attempt_durations_sec r), JObj (rr_generation_details r)]"

abbreviation jsonb_fetched :: "(json \<Rightarrow> string) \<Rightarrow> (string \<Rightarrow> json) \<Rightarrow> json \<Rightarrow> pyfield" where
  "jsonb_fetched dumps fetch j \<equiv>
     (case to_json dumps j of FJson (JStr s) \<Rightarrow> FJson (fetch s) | v \<Rightarrow> to_json dumps j)"

lemma jsonb_column:
  assumes "j \<noteq> JNull \<Longrightarrow> maybe_json loads (FJson (fetch (dumps j))) = FJson (canon j)"
  shows "maybe_json loads (jsonb_fetched dumps fetch j) = canonical canon (FJson j)"
  using assms by (cases "j = JNull") (simp_all add: to_json_def maybe_json_def)

text \<open>
  C35: A row survives the results table. The parameters of the INSERT stand in the order of its columns, and reading the record
  back gives the row with its instant filled in: numbers and texts as they were, and in the four JSONB columns what
  a value becomes in the database and the driver, whether that returns texts or decoded values.
\<close>

theorem results_table_roundtrip:
  assumes "\<And>j. j \<in> set (jsonb_values r) \<Longrightarrow> j \<noteq> JNull \<Longrightarrow> maybe_json loads (FJson (fetch (dumps j))) = FJson (canon j)"
    and "\<And>j. json_truthy (canon j) = json_truthy j" "canon (JObj []) = JObj []"
  shows "record_to_row loads (fetched fetch (inserted dumps now r))
    = Inr (map (\<lambda>(c, f). (c, if c \<in> set JSONB_COLS then canonical canon f else f))
        (row_fields (r\<lparr>rr_ts := Some (case rr_ts r of Some t \<Rightarrow> t | None \<Rightarrow> now)\<rparr>)))"
proof -
  have names: "map fst (fetched fetch (inserted dumps now r)) = map fst record_columns"
    by (simp add: fetched_def inserted_def case_prod_beta comp_def length_insert_values column_names(1))
  have cols: "maybe_json loads (jsonb_fetched dumps fetch j) = canonical canon (FJson j)" if "j \<in> set (jsonb_values r)" for j
    using assms(1) [OF that] by (rule jsonb_column)
  note col = cols [unfolded jsonb_values_def, simplified]
  have details: "(if json_truthy (canon (JObj kvs)) then FJson (canon (JObj kvs)) else FJson (JObj [])) = FJson (canon (JObj kvs))" for kvs
    using assms(2) [of "JObj kvs"] assms(3) by (cases kvs) simp_all
  have "record_to_row loads (fetched fetch (inserted dumps now r))
      = map_result (\<lambda>((c, kind), (_, v)). map_sum id (Pair c) (column_value loads kind v)) (zip record_columns (fetched fetch (inserted dumps now r)))"
    using map_result_by_name [of record_columns "fetched fetch (inserted dumps now r)" "[]"] names column_names(1,2)
    by (simp add: record_to_row_def)
  also have "\<dots> = Inr (map (\<lambda>(c, f). (c, if c \<in> set JSONB_COLS then canonical canon f else f))
        (row_fields (r\<lparr>rr_ts := Some (case rr_ts r of Some t \<Rightarrow> t | None \<Rightarrow> now)\<rparr>)))"
    unfolding fetched_def inserted_def RESULTS_COLS_def insert_values_def record_columns_def row_fields_def JSONB_COLS_def
    by (simp add: float_column or_none_def del: canonical.simps column_value.simps(2) split del: if_split)
      (simp add: col details cong: if_cong split del: if_split)
  finally show ?thesis .
qed

corollary results_table_roundtrip_witness:
  "record_to_row (\<lambda>_. Some (JObj (rr_generation_details logged_row))) (fetched JStr (inserted (\<lambda>_. ''d'') 5 logged_row))
    = Inr (map (\<lambda>(c, f). (c, if c \<in> set JSONB_COLS then canonical id f else f))
        (row_fields (logged_row\<lparr>rr_ts := Some 1700000000\<rparr>)))"
proof -
  have "maybe_json (\<lambda>_. Some (JObj (rr_generation_details logged_row))) (FJson (JStr ((\<lambda>_. ''d'') j))) = FJson (id j)"
    if "j \<in> set (jsonb_values logged_row)" "j \<noteq> JNull" for j
    using that by (auto simp: jsonb_values_def logged_row_def good_row_def sample_row_def json_or_null_def maybe_json_def)
  from results_table_roundtrip [where canon = id and dumps = "\<lambda>_. ''d''" and fetch = JStr, OF this]
  show ?thesis by (simp add: logged_row_def)
qed

end
