(* ===== verification/Upsert_Statement.thy ===== *)
theory Upsert_Statement
  imports Row_Codec
begin

text \<open>
  The statement of \<open>PostgresStorage.record_call\<close>: its text, built from the list of columns when the module is loaded,
  and what its \<open>DO UPDATE SET\<close> does to the stored record. \<open>Postgres_Storage\<close> replaces the whole row under a key;
  here the assignments of the statement are shown to do that, column by column.
\<close>

section \<open>The text\<close>

definition RESULTS_COLS_text :: string where
  "RESULTS_COLS_text =
     ''composite_hash, provider, model, thinking, stage, task_unit_id, ''
     @ ''stratum, lang, parent_prompt_hash, experiment_tag, response, ''
     @ ''error_class, error_message, cost_usd, effective_cost_usd, ''
     @ ''input_tokens, output_tokens, reasoning_tokens, cache_hit_tokens, ''
     @ ''cache_write_tokens, cache_discount_usd, is_byok, ''
     @ ''web_search_citations, upstream_resolved_model, upstream_provider, ''
     @ ''upstream_model, native_finish_reason, generation_id, ''
     @ ''mean_attempt_duration_sec, n_attempts, http_status_sequence, ''
     @ ''per_attempt_durations_sec, logs, logs_compressed, ''
     @ ''parse_failure_prefix, generation_details, ts''"

definition RESULTS_PK_COLS :: "string list" where
  "RESULTS_PK_COLS = [''composite_hash'', ''provider'', ''model'', ''thinking'']"

text \<open>The assignments of \<open>_RESULTS_UPDATE_SET\<close> as pairs of the column and the column of \<open>EXCLUDED\<close>, and their text.\<close>

definition update_assignments :: "(string \<times> string) list" where
  "update_assignments =
     map (\<lambda>c. (c, c)) (filter (\<lambda>c. c \<notin> set RESULTS_PK_COLS) (map strip (split_on (CHR '','') RESULTS_COLS_text)))"

definition RESULTS_UPDATE_SET :: string where
  "RESULTS_UPDATE_SET = join '', '' (map (\<lambda>(c, src). c @ ''=EXCLUDED.'' @ src) update_assignments)"

definition placeholder_text :: string where
  "placeholder_text = ''$1,$2,$3,$4,$5,$6,$7,$8,$9,$10,$11,$12,$13,$14,$15,''
     @ ''$16,$17,$18,$19,$20,$21,$22,$23,$24,$25,$26,$27,$28,''
     @ ''$29,$30,$31,$32,$33,$34,$35,$36,$37''"

definition record_call_sql :: "string \<Rightarrow> string" where
  "record_call_sql schema =
     ''INSERT INTO '' @ schema @ ''.benchmark_results ('' @ RESULTS_COLS_text @ '') VALUES (''
     @ placeholder_text @ '') ''
     @ ''ON CONFLICT (composite_hash, provider, model, thinking) ''
     @ ''DO UPDATE SET '' @ RESULTS_UPDATE_SET @ '' WHERE (''
     @ schema @ ''.benchmark_results.error_class IS NOT NULL AND ''
     @ schema @ ''.benchmark_results.error_class <> '' @ [CHR 0x27, CHR 0x27] @ '') OR (''
     @ schema @ ''.benchmark_results.parse_failure_prefix IS NOT NULL AND ''
     @ schema @ ''.benchmark_results.parse_failure_prefix <> '' @ [CHR 0x27, CHR 0x27] @ '')''"

section \<open>The update\<close>

text \<open>A stored record under \<open>DO UPDATE SET\<close>: the assigned columns take the value of the row that was not inserted.\<close>

definition do_update :: "py_row \<Rightarrow> py_row \<Rightarrow> py_row" where
  "do_update stored excluded =
     map (\<lambda>(c, v). (c, case map_of update_assignments c of
                          None \<Rightarrow> v
                        | Some src \<Rightarrow> (case map_of excluded src of None \<Rightarrow> v | Some v' \<Rightarrow> v'))) stored"

lemma columns_of_text: "map strip (split_on (CHR '','') RESULTS_COLS_text) = RESULTS_COLS"
  unfolding RESULTS_COLS_text_def RESULTS_COLS_def by code_simp

lemma distinct_columns: "distinct RESULTS_COLS"
  by (rule column_names)

lemma map_of_self: "map_of (map (\<lambda>c. (c, c)) cs) c = (if c \<in> set cs then Some c else None)"
  by (induction cs) auto

lemma assigned: "map_of update_assignments c = (if c \<in> set RESULTS_COLS \<and> c \<notin> set RESULTS_PK_COLS then Some c else None)"
  by (simp add: update_assignments_def columns_of_text map_of_self)

text \<open>The placeholders of the statement.\<close>

definition placeholders :: "string list" where
  "placeholders = split_on (CHR '','') placeholder_text"

lemma placeholder_numbers: "placeholders = map (\<lambda>i. CHR ''$'' # string_of_nat i) [1..<Suc (length RESULTS_COLS)]"
  unfolding placeholders_def placeholder_text_def RESULTS_COLS_def by code_simp

lemma key_columns:
  assumes "row_cache_key r0 = row_cache_key r" "c \<in> set RESULTS_PK_COLS"
  shows "map_of (inserted dumps now0 r0) c = map_of (inserted dumps now r) c"
proof -
  have "take 4 (insert_values dumps now r) = map (FJson \<circ> JStr) [rr_composite_hash r, rr_provider r, rr_model r, rr_thinking r]"
    for now and r :: run_row by (simp add: insert_values_def)
  moreover have "map_of (inserted dumps now r) c = map_of (zip RESULTS_PK_COLS (take 4 (insert_values dumps now r))) c"
    for now and r :: run_row
  proof -
    have "inserted dumps now r = zip RESULTS_PK_COLS (take 4 (insert_values dumps now r)) @ zip (drop 4 RESULTS_COLS) (drop 4 (insert_values dumps now r))"
      by (simp add: inserted_def RESULTS_COLS_def RESULTS_PK_COLS_def insert_values_def)
    moreover have "c \<in> fst ` set (zip RESULTS_PK_COLS (take 4 (insert_values dumps now r)))"
      using assms(2) by (simp add: insert_values_def RESULTS_PK_COLS_def)
    ultimately show ?thesis by (simp add: map_add_dom_app_simps dom_map_of_conv_image_fst)
  qed
  ultimately show ?thesis using assms(1) by (simp add: row_cache_key_def make_cache_key_def)
qed

text \<open>
  C39: The upsert is whole. It has one placeholder and one argument per column, and when it replaces a record of the same key,
  every column of the record is that of the new row afterwards: no column is left out of the generated update.
\<close>

theorem upsert_replaces_record:
  assumes "row_cache_key r0 = row_cache_key r"
  shows "do_update (inserted dumps now0 r0) (inserted dumps now r) = inserted dumps now r
    \<and> length placeholders = length (insert_values dumps now r)"
proof -
  let ?stored = "inserted dumps now0 r0"
  have new: "map fst (inserted dumps now r) = RESULTS_COLS" and old: "map fst ?stored = RESULTS_COLS"
    by (simp_all add: inserted_def length_insert_values)
  let ?new = "inserted dumps now r"
  have "length ?new = length ?stored" using new old by (metis length_map)
  moreover have "do_update ?stored ?new ! i = ?new ! i" if "i < length ?stored" for i
  proof -
    let ?c = "fst (?stored ! i)"
    have c: "fst (?new ! i) = ?c" "?c \<in> set RESULTS_COLS"
      using that new old \<open>length ?new = length ?stored\<close> by (metis nth_map, metis nth_map nth_mem length_map)
    have at: "map_of ?new ?c = Some (snd (?new ! i))"
      using that new c(1) distinct_columns \<open>length ?new = length ?stored\<close> by (metis map_of_eq_Some_iff nth_mem prod.collapse)
    have "map_of ?stored ?c = Some (snd (?stored ! i))"
      using that old distinct_columns by (metis map_of_eq_Some_iff nth_mem prod.collapse)
    with key_columns [OF assms, of ?c dumps now0 now] at have "?c \<in> set RESULTS_PK_COLS \<Longrightarrow> snd (?stored ! i) = snd (?new ! i)" by simp
    then show ?thesis
      using that at c by (auto simp: do_update_def assigned case_prod_beta prod_eq_iff)
  qed
  ultimately have "do_update ?stored ?new = ?new"
    by (intro nth_equalityI) (simp_all add: do_update_def)
  then show ?thesis by (simp add: placeholder_numbers length_insert_values RESULTS_COLS_def)
qed

text \<open>A failed attempt overwritten by a good one of the same key.\<close>

theorem upsert_replaces_record_witness:
  "do_update (inserted (\<lambda>_. ''d'') 1 (failed_row ''t'')) (inserted (\<lambda>_. ''d'') 2 (good_row ''t''))
    = inserted (\<lambda>_. ''d'') 2 (good_row ''t'')"
proof -
  have "row_cache_key (failed_row ''t'') = row_cache_key (good_row ''t'')"
    by (simp add: row_cache_key_def make_cache_key_def good_row_def failed_row_def sample_row_def)
  then show ?thesis by (rule conjunct1 [OF upsert_replaces_record])
qed

end
