(* ===== verification/File_Lifecycle.thy ===== *)
theory File_Lifecycle
  imports File_Storage
begin

text \<open>
  The life cycle of \<open>storage/file.py\<close> below the granularity of \<open>File_Storage\<close>: the bounded retries on a locked
  SQLite index, and \<open>initialize\<close> and \<open>close\<close> under concurrent callers. \<open>initialize\<close> opens and prepares its
  connection outside the lock, so several callers may have one each; the first to come back publishes its
  own and the others close theirs.
\<close>

section \<open>Retries on a locked index\<close>

text \<open>
  A statement tried up to \<open>n\<close> times, from attempt \<open>a\<close> on; \<open>ans\<close> gives the exception of an attempt. An
  exception that is not transient, or that of the last attempt, is raised. The second component are
  the pauses taken.
\<close>

fun retry_loop :: "(pyexn \<Rightarrow> bool) \<Rightarrow> (nat \<Rightarrow> real) \<Rightarrow> nat \<Rightarrow> nat \<Rightarrow> (nat \<Rightarrow> pyexn option) \<Rightarrow> pyexn option \<times> real list" where
  "retry_loop transient pause 0 a ans = (None, [])"
| "retry_loop transient pause (Suc n) a ans =
     (case ans a of
        None \<Rightarrow> (None, [])
      | Some exc \<Rightarrow>
          if \<not> transient exc \<or> n = 0 then (Some exc, [])
          else (case retry_loop transient pause n (a + 1) ans of (res, ps) \<Rightarrow> (res, pause a # ps)))"

definition LOCK_RETRY_ATTEMPTS :: nat where
  "LOCK_RETRY_ATTEMPTS = 3"

definition write_locked :: "pyexn \<Rightarrow> bool" where
  "write_locked exc = (case exc of PyExn name msg \<Rightarrow> name = ''OperationalError'' \<and> str_in ''database is locked'' (lower msg))"

definition db_execute_with_retry :: "(nat \<Rightarrow> pyexn option) \<Rightarrow> pyexn option \<times> real list" where
  "db_execute_with_retry ans = retry_loop write_locked (\<lambda>attempt. 1 / 10 * 2 ^ attempt) LOCK_RETRY_ATTEMPTS 0 ans"

definition wal_locked :: "pyexn \<Rightarrow> bool" where
  "wal_locked exc = (case exc of PyExn name msg \<Rightarrow> name = ''OperationalError'' \<and> str_in ''locked'' msg)"

definition switch_to_wal :: "(nat \<Rightarrow> pyexn option) \<Rightarrow> pyexn option \<times> real list" where
  "switch_to_wal ans = retry_loop wal_locked (\<lambda>attempt. 5 / 100 * real (attempt + 1)) 5 0 ans"

text \<open>The attempt that decides: the first that succeeds or fails for good, else the last.\<close>

lemma retry_loop_decided:
  assumes "k < n" "\<And>j. j < k \<Longrightarrow> \<exists>exc. ans (a + j) = Some exc \<and> transient exc"
    "k = n - 1 \<or> (case ans (a + k) of None \<Rightarrow> True | Some exc \<Rightarrow> \<not> transient exc)"
  shows "retry_loop transient pause n a ans = (ans (a + k), map (\<lambda>j. pause (a + j)) [0..<k])"
  using assms
proof (induction k arbitrary: n a)
  case 0
  then obtain m where "n = Suc m" by (cases n) auto
  with 0 show ?case by (auto split: option.splits)
next
  case (Suc k)
  then obtain m where n: "n = Suc m" "k < m" by (cases n) auto
  from Suc.prems(2) [of 0] obtain exc where exc: "ans a = Some exc" "transient exc" by auto
  have "retry_loop transient pause m (a + 1) ans = (ans (a + 1 + k), map (\<lambda>j. pause (a + 1 + j)) [0..<k])"
  proof (rule Suc.IH)
    show "\<exists>exc. ans (a + 1 + j) = Some exc \<and> transient exc" if "j < k" for j
      using Suc.prems(2) [of "Suc j"] that by simp
  qed (use n Suc.prems(3) in auto)
  moreover have "map (\<lambda>j. pause (a + j)) [0..<Suc k] = pause a # map (\<lambda>j. pause (a + 1 + j)) [0..<k]"
    by (simp add: upt_conv_Cons map_Suc_upt [symmetric] comp_def del: upt_Suc)
  ultimately show ?case using exc n by (simp del: upt_Suc)
qed

lemma retry_loop_decides:
  fixes n :: nat
  assumes "0 < n"
  shows "\<exists>k<n. (\<forall>j<k. \<exists>exc. ans (a + j) = Some exc \<and> transient exc)
    \<and> (k = n - 1 \<or> (case ans (a + k) of None \<Rightarrow> True | Some exc \<Rightarrow> \<not> transient exc))"
proof -
  let ?stops = "\<lambda>k. k = n - 1 \<or> (case ans (a + k) of None \<Rightarrow> True | Some exc \<Rightarrow> \<not> transient exc)"
  define k where "k = (LEAST k. ?stops k)"
  have "?stops k" unfolding k_def by (rule LeastI [of _ "n - 1"]) simp
  moreover have "k \<le> n - 1" unfolding k_def by (rule Least_le) simp
  moreover have "\<exists>exc. ans (a + j) = Some exc \<and> transient exc" if "j < k" for j
    using not_less_Least [OF that [unfolded k_def]] by (auto split: option.splits)
  ultimately show ?thesis using assms by (intro exI [of _ k]) auto
qed

text \<open>
  C37: A write to the index is tried at most three times. It succeeds exactly if one of the first three attempts does and those
  before it found the index locked; otherwise it raises the exception of the first attempt that failed for
  another reason, or of the third; and the caller waits no longer than 0.3 seconds in between.
\<close>

theorem write_retries_bounded:
  "\<exists>k<3. db_execute_with_retry ans = (ans k, map (\<lambda>j. 1 / 10 * 2 ^ j) [0..<k])
    \<and> (\<forall>j<k. \<exists>exc. ans j = Some exc \<and> write_locked exc)
    \<and> (k = 2 \<or> ans k = None \<or> \<not> write_locked (the (ans k)))
    \<and> sum_list (snd (db_execute_with_retry ans)) \<le> 3 / 10"
proof -
  obtain k where k: "k < 3" "\<forall>j<k. \<exists>exc. ans j = Some exc \<and> write_locked exc"
    "k = 2 \<or> (case ans k of None \<Rightarrow> True | Some exc \<Rightarrow> \<not> write_locked exc)"
    using retry_loop_decides [of 3 ans 0 write_locked] by auto
  have run: "db_execute_with_retry ans = (ans k, map (\<lambda>j. 1 / 10 * 2 ^ j) [0..<k])"
    using retry_loop_decided [of k 3 ans 0 write_locked] k by (simp add: db_execute_with_retry_def LOCK_RETRY_ATTEMPTS_def)
  from k(1) have "sum_list (snd (db_execute_with_retry ans)) \<le> 3 / 10"
    unfolding run by (auto simp: less_Suc_eq numeral_eq_Suc)
  with run k show ?thesis by (auto split: option.splits)
qed

text \<open>An index locked for two attempts.\<close>

definition locked_twice :: "nat \<Rightarrow> pyexn option" where
  "locked_twice k = (if k < 2 then Some (PyExn ''OperationalError'' ''database is locked'') else None)"

corollary write_retries_bounded_witness:
  "db_execute_with_retry locked_twice = (None, [1 / 10, 2 / 10])"
proof -
  have locked: "write_locked (PyExn ''OperationalError'' ''database is locked'')"
    unfolding write_locked_def pyexn.case by code_simp
  from write_retries_bounded [of locked_twice] obtain k where k: "k < 3"
    "db_execute_with_retry locked_twice = (locked_twice k, map (\<lambda>j. 1 / 10 * 2 ^ j) [0..<k])"
    "k = 2 \<or> locked_twice k = None \<or> \<not> write_locked (the (locked_twice k))" by blast
  with locked have "k = 2" by (auto simp: locked_twice_def split: if_splits)
  with k(2) show ?thesis by (simp add: locked_twice_def numeral_2_eq_2)
qed

section \<open>Opening under concurrency\<close>

text \<open>
  Where a caller stands: before the first lock; past it, the store not being initialised; with its own connection, open
  or prepared; too late to publish it; in front of \<open>close\<close>; returned; or left with an exception, which the connection
  it had opened, if any, outlives.
\<close>

datatype caller = Entered | Checked | Connected nat | Prepared nat | Duplicate nat | Closing | Returned | Failed "nat option"

record connections =
  cn_initialized :: bool
  cn_db :: "nat option"
  cn_open :: "nat set"
  cn_next :: nat
  cn_callers :: "nat \<Rightarrow> caller"

definition move :: "nat \<Rightarrow> caller \<Rightarrow> connections \<Rightarrow> connections" where
  "move i c s = s\<lparr>cn_callers := (cn_callers s)(i := c)\<rparr>"

text \<open>What stands between opening a connection and publishing it: the switch to WAL, then the schema.\<close>

definition prepare_error :: "(nat \<Rightarrow> pyexn option) \<Rightarrow> pyexn option \<Rightarrow> pyexn option" where
  "prepare_error wal ddl = (case fst (switch_to_wal wal) of Some exc \<Rightarrow> Some exc | None \<Rightarrow> ddl)"

text \<open>
  One step of one caller: a locked section, or what runs between two of them. A connection whose \<open>close\<close> raises counts
  as open: the duplicate stays with the caller that failed, the published one stays published.
\<close>

inductive lifecycle_step :: "connections \<Rightarrow> connections \<Rightarrow> bool" where
  ready: "cn_callers s i = Entered \<Longrightarrow> cn_initialized s \<Longrightarrow> lifecycle_step s (move i Returned s)"
| not_ready: "cn_callers s i = Entered \<Longrightarrow> \<not> cn_initialized s \<Longrightarrow> lifecycle_step s (move i Checked s)"
| mkdir_fails: "cn_callers s i = Entered \<Longrightarrow> \<not> cn_initialized s \<Longrightarrow> lifecycle_step s (move i (Failed None) s)"
| connected: "cn_callers s i = Checked \<Longrightarrow> lifecycle_step s
     (move i (Connected (cn_next s)) s\<lparr>cn_open := insert (cn_next s) (cn_open s), cn_next := Suc (cn_next s)\<rparr>)"
| not_connected: "cn_callers s i = Checked \<Longrightarrow> lifecycle_step s (move i (Failed None) s)"
| prepared: "cn_callers s i = Connected c \<Longrightarrow> prepare_error wal ddl = None \<Longrightarrow> lifecycle_step s (move i (Prepared c) s)"
| not_prepared: "cn_callers s i = Connected c \<Longrightarrow> prepare_error wal ddl = Some exc \<Longrightarrow>
     lifecycle_step s (move i (Failed (Some c)) s)"
| published: "cn_callers s i = Prepared c \<Longrightarrow> \<not> cn_initialized s \<Longrightarrow>
     lifecycle_step s (move i Returned s\<lparr>cn_db := Some c, cn_initialized := True\<rparr>)"
| too_late: "cn_callers s i = Prepared c \<Longrightarrow> cn_initialized s \<Longrightarrow> lifecycle_step s (move i (Duplicate c) s)"
| dropped: "cn_callers s i = Duplicate c \<Longrightarrow> lifecycle_step s (move i Returned s\<lparr>cn_open := cn_open s - {c}\<rparr>)"
| not_dropped: "cn_callers s i = Duplicate c \<Longrightarrow> lifecycle_step s (move i (Failed (Some c)) s)"
| closed: "cn_callers s i = Closing \<Longrightarrow> lifecycle_step s
     (move i Returned s\<lparr>cn_open := cn_open s - set_option (cn_db s), cn_db := None, cn_initialized := False\<rparr>)"
| not_closed: "cn_callers s i = Closing \<Longrightarrow> cn_db s = Some c \<Longrightarrow> lifecycle_step s (move i (Failed None) s)"

definition lifecycle_start :: "(nat \<Rightarrow> caller) \<Rightarrow> connections" where
  "lifecycle_start callers = \<lparr>cn_initialized = False, cn_db = None, cn_open = {}, cn_next = 0, cn_callers = callers\<rparr>"

text \<open>The connection a caller alone knows of.\<close>

fun holds :: "caller \<Rightarrow> nat option" where
  "holds (Connected c) = Some c"
| "holds (Prepared c) = Some c"
| "holds (Duplicate c) = Some c"
| "holds (Failed c) = c"
| "holds _ = None"

text \<open>The invariant: every open connection is the published one or known to exactly one caller.\<close>

definition accounts :: "bool \<Rightarrow> nat option \<Rightarrow> nat set \<Rightarrow> nat \<Rightarrow> (nat \<Rightarrow> nat option) \<Rightarrow> bool" where
  "accounts init db opened new h \<longleftrightarrow> (init \<longleftrightarrow> db \<noteq> None)
     \<and> opened = set_option db \<union> ran h
     \<and> (\<forall>i c. h i = Some c \<longrightarrow> db \<noteq> Some c \<and> (\<forall>j. h j = Some c \<longrightarrow> j = i))
     \<and> (\<forall>c\<in>opened. c < new)"

definition accounted :: "connections \<Rightarrow> bool" where
  "accounted s = accounts (cn_initialized s) (cn_db s) (cn_open s) (cn_next s) (holds \<circ> cn_callers s)"

lemma move_fields [simp]:
  "cn_initialized (move i c s) = cn_initialized s" "cn_db (move i c s) = cn_db s" "cn_open (move i c s) = cn_open s"
  "cn_next (move i c s) = cn_next s" "cn_callers (move i c s) = (cn_callers s)(i := c)"
  by (simp_all add: move_def)

lemma held_after_move: "holds \<circ> (cn_callers s)(i := c) = (holds \<circ> cn_callers s)(i := holds c)"
  by (rule ext) simp

lemma accounts_opened:
  assumes "accounts init db opened new h" "h i = None"
  shows "accounts init db (insert new opened) (Suc new) (h(i \<mapsto> new))"
proof -
  have fresh: "db \<noteq> Some new" "h j \<noteq> Some new" for j using assms(1) by (auto simp: accounts_def ran_def)
  have "ran (h(i \<mapsto> new)) = insert new (ran h)" using assms(2) by simp
  with assms fresh show ?thesis by (auto simp: accounts_def less_Suc_eq)
qed

lemma ran_without:
  assumes "accounts init db opened new h" "h i = Some c"
  shows "ran (h(i := None)) = ran h - {c}"
proof (intro set_eqI iffI)
  fix x
  assume "x \<in> ran h - {c}"
  then obtain j where "h j = Some x" "x \<noteq> c" by (auto simp: ran_def)
  with assms(2) show "x \<in> ran (h(i := None))" by (intro ranI [of _ j]) auto
qed (use assms in \<open>auto simp: accounts_def ran_def split: if_splits\<close>)

lemma accounts_published:
  assumes "accounts False db opened new h" "h i = Some c"
  shows "accounts True (Some c) opened new (h(i := None))"
  using assms ran_without [OF assms] by (auto simp: accounts_def intro: ranI)

lemma accounts_dropped:
  assumes "accounts init db opened new h" "h i = Some c"
  shows "accounts init db (opened - {c}) new (h(i := None))"
  using assms ran_without [OF assms] by (auto simp: accounts_def)

lemma accounts_closed: "accounts init db opened new h \<Longrightarrow> accounts False None (opened - set_option db) new h"
  by (auto simp: accounts_def ran_def)

lemma accounted_step:
  assumes "lifecycle_step s t" "accounted s"
  shows "accounted t"
  using assms(1)
proof (cases rule: lifecycle_step.cases)
  case (connected i)
  with assms(2) accounts_opened [where i = i and h = "holds \<circ> cn_callers s"] show ?thesis
    by (simp add: accounted_def held_after_move)
next
  case (published i c)
  with assms(2) accounts_published [where i = i and h = "holds \<circ> cn_callers s"] show ?thesis
    by (simp add: accounted_def held_after_move)
next
  case (dropped i c)
  with assms(2) accounts_dropped [where i = i and h = "holds \<circ> cn_callers s"] show ?thesis
    by (simp add: accounted_def held_after_move)
next
  case (closed i)
  moreover from closed(2) have "(holds \<circ> cn_callers s)(i := None) = holds \<circ> cn_callers s" by (auto simp: fun_eq_iff)
  ultimately show ?thesis using assms(2) accounts_closed by (simp add: accounted_def held_after_move)
qed (use assms(2) in \<open>simp_all add: accounted_def held_after_move fun_upd_idem\<close>)

text \<open>Any callers that start with \<open>initialize\<close> or with \<open>close\<close>.\<close>

abbreviation fresh_callers :: "(nat \<Rightarrow> caller) \<Rightarrow> bool" where
  "fresh_callers callers \<equiv> \<forall>i. callers i \<in> {Entered, Closing, Returned}"

lemma accounted_reached:
  assumes "lifecycle_step\<^sup>*\<^sup>* (lifecycle_start callers) s" "fresh_callers callers"
  shows "accounted s"
  using assms(1)
proof (induction rule: rtranclp_induct)
  case base
  have "holds (callers i) = None" for i using assms(2) [rule_format, of i] by auto
  then show ?case by (simp add: accounted_def accounts_def lifecycle_start_def comp_def)
qed (rule accounted_step)

text \<open>
  C13: Concurrent initialisation leaves no connection behind. However many callers open and close the file storage and
  however their steps interleave, in every state the open connections are the published one and those that single
  callers are still busy with or failed with; so once all callers have returned, the published connection is the only one
  open, and none is open if the store is not initialised.
\<close>

theorem one_connection_published:
  assumes "lifecycle_step\<^sup>*\<^sup>* (lifecycle_start callers) s" "fresh_callers callers"
  shows "(cn_initialized s \<longleftrightarrow> cn_db s \<noteq> None)
    \<and> cn_open s = set_option (cn_db s) \<union> ran (holds \<circ> cn_callers s)
    \<and> ((\<forall>i. cn_callers s i = Returned) \<longrightarrow> cn_open s = set_option (cn_db s))"
proof -
  have "ran (holds \<circ> cn_callers s) = {}" if "\<forall>i. cn_callers s i = Returned" using that by (simp add: ran_def)
  with accounted_reached [OF assms] show ?thesis by (simp add: accounted_def accounts_def)
qed

lemma lifecycle_chain: "lifecycle_step a b \<Longrightarrow> lifecycle_step\<^sup>*\<^sup>* b c \<Longrightarrow> lifecycle_step\<^sup>*\<^sup>* a c"
  by (rule converse_rtranclp_into_rtranclp)

text \<open>Two callers that both see the store uninitialised: the first publishes, the second closes its connection.\<close>

definition two_callers :: "nat \<Rightarrow> caller" where
  "two_callers = (\<lambda>_. Returned)(0 := Entered, 1 := Entered)"

lemma two_callers_run:
  "\<exists>s. lifecycle_step\<^sup>*\<^sup>* (lifecycle_start two_callers) s \<and> (\<forall>i. cn_callers s i = Returned) \<and> cn_db s = Some 0"
proof -
  have wal: "prepare_error (\<lambda>_. None) None = None" by (simp add: prepare_error_def switch_to_wal_def numeral_eq_Suc)
  let ?at = "\<lambda>a b. \<lparr>cn_initialized = False, cn_db = None, cn_open = {0, 1}, cn_next = 2, cn_callers = (\<lambda>_. Returned)(0 := a, 1 := b)\<rparr>"
  let ?s0 = "lifecycle_start two_callers" and ?s1 = "move 0 Checked (lifecycle_start two_callers)"
  let ?s2 = "move 1 Checked ?s1"
  let ?s3 = "move 0 (Connected 0) ?s2\<lparr>cn_open := {0}, cn_next := 1\<rparr>"
  let ?s5 = "\<lparr>cn_initialized = True, cn_db = Some 0, cn_open = {0, 1}, cn_next = 2,
    cn_callers = (\<lambda>_. Returned)(0 := Returned, 1 := Prepared 1)\<rparr>"
  note field = lifecycle_start_def two_callers_def move_def
  have h1: "lifecycle_step ?s0 ?s1" "lifecycle_step ?s1 ?s2"
    by (rule lifecycle_step.not_ready; simp add: field)+
  have h2: "lifecycle_step ?s2 ?s3" using lifecycle_step.connected [of ?s2 0] by (simp add: field)
  have h3: "lifecycle_step ?s3 (?at (Connected 0) (Connected 1))"
    using lifecycle_step.connected [of ?s3 1] by (simp add: field insert_commute fun_upd_twist numeral_2_eq_2)
  have h4: "lifecycle_step (?at (Connected 0) (Connected 1)) (?at (Prepared 0) (Connected 1))"
    using lifecycle_step.prepared [OF _ wal, of "?at (Connected 0) (Connected 1)" 0 0] by (simp add: field fun_upd_twist)
  have h5: "lifecycle_step (?at (Prepared 0) (Connected 1)) (?at (Prepared 0) (Prepared 1))"
    using lifecycle_step.prepared [OF _ wal, of "?at (Prepared 0) (Connected 1)" 1 1] by (simp add: field fun_upd_twist)
  have h6: "lifecycle_step (?at (Prepared 0) (Prepared 1)) ?s5"
    using lifecycle_step.published [of "?at (Prepared 0) (Prepared 1)" 0 0] by (simp add: field fun_upd_twist)
  have h7: "lifecycle_step ?s5 (move 1 (Duplicate 1) ?s5)" by (rule lifecycle_step.too_late) simp_all
  have h8: "lifecycle_step (move 1 (Duplicate 1) ?s5) (move 1 Returned (move 1 (Duplicate 1) ?s5)\<lparr>cn_open := {0}\<rparr>)"
    using lifecycle_step.dropped [of "move 1 (Duplicate 1) ?s5" 1 1] by (simp add: insert_Diff_if)
  have "lifecycle_step\<^sup>*\<^sup>* ?s0 (move 1 Returned (move 1 (Duplicate 1) ?s5)\<lparr>cn_open := {0}\<rparr>)"
    by (intro lifecycle_chain [OF h1(1)] lifecycle_chain [OF h1(2)]
        lifecycle_chain [OF h2] lifecycle_chain [OF h3] lifecycle_chain [OF h4] lifecycle_chain [OF h5] lifecycle_chain [OF h6] lifecycle_chain [OF h7] lifecycle_chain [OF h8] rtranclp.rtrancl_refl)
  then show ?thesis by (intro exI conjI) (assumption, simp_all)
qed

corollary one_connection_published_witness:
  "\<exists>s. lifecycle_step\<^sup>*\<^sup>* (lifecycle_start two_callers) s \<and> cn_open s = {0} \<and> cn_initialized s"
proof -
  obtain s where s: "lifecycle_step\<^sup>*\<^sup>* (lifecycle_start two_callers) s" "\<forall>i. cn_callers s i = Returned" "cn_db s = Some 0"
    using two_callers_run by blast
  have "fresh_callers two_callers" by (simp add: two_callers_def)
  from one_connection_published [OF s(1) this] s show ?thesis by auto
qed

text \<open>
  A failed preparation leaks its connection. If the switch to WAL or the schema fails after a caller has opened its
  connection, the exception leaves \<open>initialize\<close> without closing it: whatever happens afterwards, \<open>close\<close> included, the
  connection stays open and is never the published one.
\<close>

theorem failed_initialize_leaks_connection:
  assumes "lifecycle_step\<^sup>*\<^sup>* (lifecycle_start callers) s" "fresh_callers callers"
    "cn_callers s i = Connected c" "prepare_error wal ddl = Some exc"
    "lifecycle_step\<^sup>*\<^sup>* (move i (Failed (Some c)) s) t"
  shows "lifecycle_step s (move i (Failed (Some c)) s) \<and> c \<in> cn_open t \<and> cn_db t \<noteq> Some c"
proof -
  let ?m = "move i (Failed (Some c)) s"
  have step: "lifecycle_step s ?m" using assms(3,4) by (rule lifecycle_step.not_prepared)
  have stays: "cn_callers u i = Failed (Some c)" if "lifecycle_step\<^sup>*\<^sup>* ?m u" for u
    using that
  proof (induction rule: rtranclp_induct)
    case (step u v)
    from step(2,3) show ?case by (cases rule: lifecycle_step.cases) auto
  qed simp
  have "accounted s" using assms(1,2) by (rule accounted_reached)
  from accounted_step [OF step this] have "accounted ?m" .
  have "accounted t" using assms(5) by (induction rule: rtranclp_induct) (fact \<open>accounted ?m\<close>, rule accounted_step)
  moreover have "(holds \<circ> cn_callers t) i = Some c" using stays [OF assms(5)] by simp
  ultimately show ?thesis using step unfolding accounted_def accounts_def by (blast intro: ranI)
qed

corollary failed_initialize_leaks_connection_witness:
  "\<exists>t. lifecycle_step\<^sup>*\<^sup>* (lifecycle_start ((\<lambda>_. Returned)(0 := Entered))) t \<and> cn_db t = None \<and> 0 \<in> cn_open t"
proof -
  let ?s0 = "lifecycle_start ((\<lambda>_. Returned)(0 := Entered))" and ?ddl = "Some (PyExn ''DatabaseError'' [])"
  let ?s1 = "move 0 Checked ?s0"
  let ?s2 = "move 0 (Connected 0) ?s1\<lparr>cn_open := {0}, cn_next := 1\<rparr>"
  have h: "lifecycle_step ?s0 ?s1" by (rule lifecycle_step.not_ready) (simp_all add: lifecycle_start_def)
  have "lifecycle_step ?s1 ?s2" using lifecycle_step.connected [of ?s1 0] by (simp add: lifecycle_start_def)
  then have reach: "lifecycle_step\<^sup>*\<^sup>* ?s0 ?s2" by (intro lifecycle_chain [OF h] r_into_rtranclp)
  have "prepare_error (\<lambda>_. None) ?ddl = ?ddl" by (simp add: prepare_error_def switch_to_wal_def numeral_eq_Suc)
  from failed_initialize_leaks_connection [OF reach _ _ this rtranclp.rtrancl_refl, of 0 0]
  have "lifecycle_step ?s2 (move 0 (Failed (Some 0)) ?s2)" "0 \<in> cn_open (move 0 (Failed (Some 0)) ?s2)" by simp_all
  with reach have "lifecycle_step\<^sup>*\<^sup>* ?s0 (move 0 (Failed (Some 0)) ?s2)" by simp
  then show ?thesis by (intro exI conjI) (assumption, simp_all add: lifecycle_start_def)
qed

end
