(* ===== verification/File_Crash.thy ===== *)
theory File_Crash
  imports File_Storage Python_Text
begin

text \<open>
  What a crash of the process leaves behind in \<open>storage/file.py\<close>. A result file is here its text, and an
  operation is the list of the states its writes to disk go through, the last being the completed one: a crash leaves
  any of them. Lines are written by \<open>dumps\<close> and read back by \<open>loads\<close>; a line that is no JSON is skipped.
\<close>

section \<open>Result files as texts\<close>

definition newline :: char where
  "newline = CHR 0x0A"

text \<open>The loop over the lines of \<open>query_rows\<close>: blank lines and lines \<open>orjson\<close> refuses are skipped.\<close>

definition blank :: "string \<Rightarrow> bool" where
  "blank raw = list_all (\<lambda>c. of_char c \<in> {9, 10, 11, 12, 13, 32 :: nat}) raw"

definition read_line :: "(string \<Rightarrow> run_row option) \<Rightarrow> string \<Rightarrow> run_row option" where
  "read_line loads raw = (if blank raw then None else loads raw)"

definition read_rows :: "(string \<Rightarrow> run_row option) \<Rightarrow> string \<Rightarrow> run_row list" where
  "read_rows loads text = List.map_filter (read_line loads) (split_on newline text)"

record disk =
  dk_results :: "(path, string) dict"
  dk_index :: "(cache_key, index_row) dict"

text \<open>\<open>_append_line\<close>, and the index insert with its commit.\<close>

definition append_text :: "path \<Rightarrow> string \<Rightarrow> disk \<Rightarrow> disk" where
  "append_text dir text d = d\<lparr>dk_results := dset dir (dget (dk_results d) dir [] @ text) (dk_results d)\<rparr>"

definition commit_index :: "run_row \<Rightarrow> disk \<Rightarrow> disk" where
  "commit_index row d = d\<lparr>dk_index := index_insert row (dk_index d)\<rparr>"

text \<open>\<open>record_call\<close> on a row with its timestamp: the bytes of the line in their order, then the index.\<close>

definition record_states :: "(run_row \<Rightarrow> string) \<Rightarrow> run_row \<Rightarrow> disk \<Rightarrow> disk list" where
  "record_states dumps row d =
     (case tag_dir (rr_experiment_tag row) of
        Inl e \<Rightarrow> [d]
      | Inr dir \<Rightarrow>
          if map_of (dk_index d) (row_cache_key row) \<noteq> None then [d]
          else
            let line = dumps row @ [newline]
            in map (\<lambda>k. append_text dir (take k line) d) [0..<Suc (length line)]
               @ (if usable row then [commit_index row (append_text dir line d)] else []))"

text \<open>\<open>delete_experiment\<close>: the index entries first, then the directory tree, file by file in some order.\<close>

definition drop_files :: "path list \<Rightarrow> disk \<Rightarrow> disk" where
  "drop_files gone d = d\<lparr>dk_results := filter (\<lambda>kv. fst kv \<notin> set gone) (dk_results d)\<rparr>"

definition delete_states :: "string \<Rightarrow> disk \<Rightarrow> disk list" where
  "delete_states tag d =
     (case tag_dir tag of
        Inl e \<Rightarrow> [d]
      | Inr dir \<Rightarrow>
          let d1 = d\<lparr>dk_index := filter (\<lambda>kv. ix_source_tag (snd kv) \<noteq> tag) (dk_index d)\<rparr>
          in d # map (\<lambda>gone. drop_files gone d1) (rev (subseqs (filter (below dir) (map fst (dk_results d1))))))"

text \<open>The rows of a directory, and the state of \<open>File_Storage\<close> that a disk stands for.\<close>

definition disk_rows :: "(string \<Rightarrow> run_row option) \<Rightarrow> disk \<Rightarrow> path \<Rightarrow> run_row list" where
  "disk_rows loads d dir = read_rows loads (dget (dk_results d) dir [])"

definition stands_for :: "(string \<Rightarrow> run_row option) \<Rightarrow> disk \<Rightarrow> file_store \<Rightarrow> bool" where
  "stands_for loads d s \<longleftrightarrow> dk_index d = fs_index s \<and> (\<forall>dir. disk_rows loads d dir = dget (fs_results s) dir [])"

text \<open>Files whose last line is complete.\<close>

definition complete_text :: "string \<Rightarrow> bool" where
  "complete_text text \<longleftrightarrow> text = [] \<or> last text = newline"

definition complete_files :: "disk \<Rightarrow> bool" where
  "complete_files d \<longleftrightarrow> (\<forall>dir. complete_text (dget (dk_results d) dir []))"

text \<open>What is used of the JSON of a row: it is one line, is read back, and no proper beginning of it is JSON.\<close>

definition line_ok :: "(run_row \<Rightarrow> string) \<Rightarrow> (string \<Rightarrow> run_row option) \<Rightarrow> run_row \<Rightarrow> bool" where
  "line_ok dumps loads row \<longleftrightarrow> newline \<notin> set (dumps row) \<and> \<not> blank (dumps row) \<and> loads (dumps row) = Some row
     \<and> (\<forall>k. 0 < k \<longrightarrow> k < length (dumps row) \<longrightarrow> loads (take k (dumps row)) = None)"

text \<open>Every cached response has its line in the file of its tag.\<close>

definition backed :: "(string \<Rightarrow> run_row option) \<Rightarrow> disk \<Rightarrow> cache_key \<Rightarrow> index_row \<Rightarrow> bool" where
  "backed loads d k ix \<longleftrightarrow> (\<exists>dir. tag_dir (ix_source_tag ix) = Inr dir \<and>
     (\<exists>r\<in>set (disk_rows loads d dir). row_cache_key r = k \<and> rr_response r = Some (ix_response ix)))"

definition index_backed :: "(string \<Rightarrow> run_row option) \<Rightarrow> disk \<Rightarrow> bool" where
  "index_backed loads d \<longleftrightarrow> (\<forall>x\<in>set (dk_index d). backed loads d (fst x) (snd x))"

section \<open>Reading what was appended\<close>

lemma split_on_complete: "split_on c (s @ c # t) = split_on c s @ split_on c t"
proof (induction s)
  case (Cons x s)
  then show ?case by (cases "split_on c s") auto
qed simp

lemma read_rows_append:
  assumes "complete_text text"
  shows "read_rows loads (text @ s) = read_rows loads text @ read_rows loads s"
proof (cases "text = []")
  case False
  with assms obtain t where t: "text = t @ [newline]" by (metis append_butlast_last_id complete_text_def)
  have "split_on newline (text @ s) = split_on newline t @ split_on newline s"
    "split_on newline text = split_on newline t @ [[]]"
    using split_on_complete [of newline t s] split_on_complete [of newline t "[]"] by (simp_all add: t)
  then show ?thesis by (simp add: read_rows_def map_filter_def read_line_def blank_def)
qed (simp add: read_rows_def map_filter_def read_line_def blank_def)

lemma read_rows_line:
  "newline \<notin> set s \<Longrightarrow> read_rows loads s = (case read_line loads s of None \<Rightarrow> [] | Some r \<Rightarrow> [r])"
  "newline \<notin> set s \<Longrightarrow> read_rows loads (s @ [newline]) = (case read_line loads s of None \<Rightarrow> [] | Some r \<Rightarrow> [r])"
  using split_on_append [of newline s "[]"]
  by (simp_all add: read_rows_def split_on_plain map_filter_def read_line_def blank_def split: option.split)

text \<open>Of a line that is cut off the reader sees nothing, of the whole one the row, with or without the newline.\<close>

lemma read_rows_torn:
  assumes "line_ok dumps loads row"
  shows "read_rows loads (take k (dumps row @ [newline])) = (if length (dumps row) \<le> k then [row] else [])"
proof -
  have line: "newline \<notin> set (dumps row)" "read_line loads (dumps row) = Some row"
    using assms by (simp_all add: line_ok_def read_line_def)
  consider "k < length (dumps row)" | "k = length (dumps row)" | "length (dumps row) < k" by linarith
  then show ?thesis
  proof cases
    case 1
    then have "newline \<notin> set (take k (dumps row))" using line(1) by (meson in_set_takeD)
    moreover have "read_line loads (take k (dumps row)) = None"
      using assms 1 by (cases "k = 0") (simp_all add: line_ok_def read_line_def blank_def)
    ultimately show ?thesis using 1 by (simp add: read_rows_line)
  qed (use line read_rows_line in simp_all)
qed

lemma disk_rows_append:
  "disk_rows loads (append_text dir text d) dir' =
     (if dir' = dir then read_rows loads (dget (dk_results d) dir [] @ text) else disk_rows loads d dir')"
  by (simp add: disk_rows_def append_text_def dget_dset)

lemma disk_rows_torn:
  assumes "complete_files d" "line_ok dumps loads row"
  shows "disk_rows loads (append_text dir (take k (dumps row @ [newline])) d) dir' =
     disk_rows loads d dir' @ (if dir' = dir \<and> length (dumps row) \<le> k then [row] else [])"
  using assms read_rows_append [of "dget (dk_results d) dir []" loads] read_rows_torn [OF assms(2)]
  by (simp add: disk_rows_append complete_files_def) (simp add: disk_rows_def)

section \<open>The completed operations\<close>

lemma append_text_index [simp]: "dk_index (append_text dir text d) = dk_index d"
  by (simp add: append_text_def)

lemma commit_index_simps [simp]:
  "dk_index (commit_index row d) = index_insert row (dk_index d)" "disk_rows loads (commit_index row d) = disk_rows loads d"
  by (simp_all add: commit_index_def disk_rows_def fun_eq_iff)

lemma record_states_cases:
  assumes "d' \<in> set (record_states dumps row d)"
  obtains (unchanged) "d' = d"
  | (appending) dir k where "tag_dir (rr_experiment_tag row) = Inr dir" "map_of (dk_index d) (row_cache_key row) = None"
      "d' = append_text dir (take k (dumps row @ [newline])) d"
  | (committed) dir where "tag_dir (rr_experiment_tag row) = Inr dir" "map_of (dk_index d) (row_cache_key row) = None"
      "usable row" "d' = commit_index row (append_text dir (dumps row @ [newline]) d)"
proof (cases "tag_dir (rr_experiment_tag row)")
  case (Inl e)
  with assms show thesis by (intro unchanged) (simp add: record_states_def)
next
  case (Inr dir)
  show thesis
  proof (cases "map_of (dk_index d) (row_cache_key row)")
    case None
    let ?line = "dumps row @ [newline]"
    have "d' \<in> set (map (\<lambda>k. append_text dir (take k ?line) d) [0..<Suc (length ?line)])
        \<or> usable row \<and> d' = commit_index row (append_text dir ?line d)"
      using assms Inr None by (cases "usable row") (auto simp: record_states_def Let_def simp del: upt_Suc)
    then show thesis
    proof (elim disjE conjE)
      assume "d' \<in> set (map (\<lambda>k. append_text dir (take k ?line) d) [0..<Suc (length ?line)])"
      then obtain k where "d' = append_text dir (take k ?line) d" unfolding set_map by blast
      with Inr None show thesis by (rule appending)
    qed (rule committed [OF Inr None])
  next
    case (Some ix)
    with assms Inr show thesis by (intro unchanged) (simp add: record_states_def)
  qed
qed

lemma record_states_last:
  assumes "tag_dir (rr_experiment_tag row) = Inr dir" "map_of (dk_index d) (row_cache_key row) = None"
  shows "last (record_states dumps row d) =
    (if usable row then commit_index row (append_text dir (dumps row @ [newline]) d) else append_text dir (dumps row @ [newline]) d)"
  using assms by (simp add: record_states_def Let_def)

text \<open>Two rows of one key, and a JSON for them.\<close>

definition failed_try :: run_row where
  "failed_try = stamp 1 (failed_row ''t'')"

definition good_try :: run_row where
  "good_try = stamp 2 (good_row ''t'')"

definition sample_dumps :: "run_row \<Rightarrow> string" where
  "sample_dumps row = (if rr_response row = None then ''{0}'' else ''{1}'')"

definition sample_loads :: "string \<Rightarrow> run_row option" where
  "sample_loads s = (if s = ''{0}'' then Some failed_try else if s = ''{1}'' then Some good_try else None)"

definition empty_disk :: disk where
  "empty_disk = \<lparr>dk_results = [], dk_index = []\<rparr>"

lemma try_simps [simp]:
  "sample_dumps failed_try = ''{0}''" "sample_dumps good_try = ''{1}''"
  "tag_dir (rr_experiment_tag failed_try) = Inr [''t'']" "tag_dir (rr_experiment_tag good_try) = Inr [''t'']"
  "usable good_try" "row_cache_key good_try = row_cache_key failed_try"
  "rr_response good_try = Some (replicate 20 (CHR ''x''))"
  by (simp_all add: failed_try_def good_try_def sample_dumps_def tag_dir_Inr failed_row_def good_row_def sample_row_def
      stamp_def row_usable_def is_row_usable_iff row_cache_key_def make_cache_key_def MIN_USABLE_RESPONSE_LEN_def)

lemma empty_disk_simps [simp]: "dk_index empty_disk = []" "dk_results empty_disk = []" "complete_files empty_disk"
  "index_backed loads empty_disk"
  by (simp_all add: empty_disk_def complete_files_def complete_text_def index_backed_def)

lemma sample_line_ok: "line_ok sample_dumps sample_loads failed_try" "line_ok sample_dumps sample_loads good_try"
proof -
  have prefix: "\<forall>k. 0 < k \<longrightarrow> k < length ''{0}'' \<longrightarrow> sample_loads (take k ''{0}'') = None"
    "\<forall>k. 0 < k \<longrightarrow> k < length ''{1}'' \<longrightarrow> sample_loads (take k ''{1}'') = None"
    by (auto simp: sample_loads_def less_Suc_eq numeral_2_eq_2)
  have "\<not> blank ''{0}''" "\<not> blank ''{1}''" by (simp_all add: blank_def)
  with prefix show "line_ok sample_dumps sample_loads failed_try" "line_ok sample_dumps sample_loads good_try"
    by (simp_all add: line_ok_def newline_def) (simp_all add: sample_loads_def)
qed

definition good_disk :: disk where
  "good_disk = last (record_states sample_dumps good_try empty_disk)"

lemma good_disk: "good_disk = commit_index good_try (append_text [''t''] (''{1}'' @ [newline]) empty_disk)"
  using record_states_last [of good_try "[''t'']" empty_disk sample_dumps] by (simp add: good_disk_def)

lemma good_disk_simps [simp]:
  "disk_rows sample_loads good_disk [''t''] = [good_try]"
  "dk_index good_disk = index_insert good_try []"
  "index_insert good_try [] = [(row_cache_key good_try, index_row_of good_try (replicate 20 (CHR ''x'')))]"
  using disk_rows_torn [OF empty_disk_simps(3) sample_line_ok(2), of "[''t'']" 4 "[''t'']"]
  by (simp_all add: good_disk index_insert_def)
    (simp add: disk_rows_def dget_def read_rows_def map_filter_def read_line_def blank_def)

text \<open>
  C12: The result files and the index implement the store. A \<open>record_call\<close> that completes takes a disk that stands for a
  state of the file storage to one that stands for the state after it, and leaves only complete lines.
\<close>

theorem text_files_refine_store:
  assumes "stands_for loads d s" "complete_files d" "line_ok dumps loads (stamp now row)"
  shows "stands_for loads (last (record_states dumps (stamp now row) d)) (snd (file_record_call now row s))
    \<and> complete_files (last (record_states dumps (stamp now row) d))"
proof (cases "tag_dir (rr_experiment_tag (stamp now row))")
  case (Inl e)
  then have "record_states dumps (stamp now row) d = [d]" by (simp add: record_states_def)
  with assms(1,2) Inl show ?thesis by (simp add: file_record_call_def Let_def stands_for_def)
next
  case (Inr dir)
  show ?thesis
  proof (cases "map_of (dk_index d) (row_cache_key (stamp now row))")
    case None
    let ?d = "append_text dir (dumps (stamp now row) @ [newline]) d"
    have rows: "disk_rows loads ?d dir' = dget (fs_results s) dir' [] @ (if dir' = dir then [stamp now row] else [])" for dir'
      using disk_rows_torn [OF assms(2,3), where k = "Suc (length (dumps (stamp now row)))"] assms(1) by (simp add: stands_for_def)
    moreover have "complete_files ?d"
      using assms(2) by (simp add: complete_files_def complete_text_def append_text_def dget_dset)
    moreover have "complete_files (commit_index row' ?d) = complete_files ?d" for row'
      by (simp add: complete_files_def commit_index_def)
    moreover have "dk_index d = fs_index s" using assms(1) by (simp add: stands_for_def)
    ultimately show ?thesis
      using Inr None record_states_last [OF Inr None, of dumps]
      by (simp add: file_record_call_def Let_def stands_for_def dget_dappend)
  next
    case (Some ix)
    then have "record_states dumps (stamp now row) d = [d]" using Inr by (simp add: record_states_def)
    with assms(1,2) Inr Some show ?thesis by (simp add: file_record_call_def Let_def stands_for_def)
  qed
qed

theorem text_files_refine_store_witness:
  "\<exists>d. stands_for sample_loads d (snd (file_record_call 2 (good_row ''t'') file_new))
     \<and> disk_rows sample_loads d [''t''] = [good_try]"
proof -
  have "stands_for sample_loads empty_disk file_new"
    by (simp add: stands_for_def disk_rows_def file_new_def dget_def read_rows_def map_filter_def read_line_def blank_def)
  then have "stands_for sample_loads good_disk (snd (file_record_call 2 (good_row ''t'') file_new))"
    using text_files_refine_store [of sample_loads empty_disk file_new sample_dumps 2 "good_row ''t''"] sample_line_ok
    unfolding good_disk_def good_try_def by simp
  with good_disk_simps(1) show ?thesis by blast
qed

section \<open>Crashes\<close>

text \<open>The directory of the index is that of an accepted tag, so its deletion is one of an experiment.\<close>

lemma index_directory_is_a_tag: "tag_dir ''_index'' = Inr [''_index'']"
proof -
  have "tag_matches ''_index''" by code_simp
  then show ?thesis by (simp add: tag_dir_Inr tag_accepted_def)
qed

lemma index_backed_more:
  assumes "index_backed loads d" "dk_index d' = dk_index d" "\<And>dir. set (disk_rows loads d dir) \<subseteq> set (disk_rows loads d' dir)"
  shows "index_backed loads d'"
  using assms unfolding index_backed_def backed_def by (metis subsetD)

lemma set_dset: "x \<in> set (dset k v ix) \<Longrightarrow> x \<in> set ix \<or> x = (k, v)"
  by (induction ix) (auto split: if_splits)

lemma index_insert_set:
  "x \<in> set (index_insert row ix) \<Longrightarrow> x \<in> set ix \<or> (\<exists>resp. rr_response row = Some resp \<and> x = (row_cache_key row, index_row_of row resp))"
  using set_dset [of x "row_cache_key row" _ ix]
  by (auto simp: index_insert_def split: option.splits if_splits)

lemma index_backed_commit:
  assumes "index_backed loads d" "tag_dir (rr_experiment_tag row) = Inr dir" "row \<in> set (disk_rows loads d dir)"
  shows "index_backed loads (commit_index row d)"
  unfolding index_backed_def
proof
  fix x
  assume "x \<in> set (dk_index (commit_index row d))"
  then consider "x \<in> set (dk_index d)" | resp where "rr_response row = Some resp" "x = (row_cache_key row, index_row_of row resp)"
    using index_insert_set by fastforce
  then show "backed loads (commit_index row d) (fst x) (snd x)"
    using assms by cases (auto simp: index_backed_def backed_def index_row_of_def)
qed

text \<open>
  C11: A crash while a row is recorded does no harm. Wherever \<open>record_call\<close> is cut off, in the middle of the line included, every
  file reads as before or as before with the row behind it, and every cached response still has its line: the line
  is on disk before the index knows of it.
\<close>

theorem crash_keeps_index_backed:
  assumes "complete_files d" "line_ok dumps loads row" "index_backed loads d" "d' \<in> set (record_states dumps row d)"
  shows "index_backed loads d'
    \<and> (\<forall>dir. disk_rows loads d' dir = disk_rows loads d dir \<or> disk_rows loads d' dir = disk_rows loads d dir @ [row])"
  using assms(4)
proof (cases rule: record_states_cases)
  case (appending dir k)
  have rows: "disk_rows loads d' dir' = disk_rows loads d dir' @ (if dir' = dir \<and> length (dumps row) \<le> k then [row] else [])" for dir'
    unfolding appending(3) by (rule disk_rows_torn [OF assms(1,2)])
  have "index_backed loads d'" by (rule index_backed_more [OF assms(3)]) (simp add: appending(3), simp add: rows)
  with rows show ?thesis by simp
next
  case (committed dir)
  let ?d = "append_text dir (dumps row @ [newline]) d"
  have rows: "disk_rows loads ?d dir' = disk_rows loads d dir' @ (if dir' = dir then [row] else [])" for dir'
    using disk_rows_torn [OF assms(1,2), where k = "Suc (length (dumps row))"] by simp
  have "index_backed loads ?d" by (rule index_backed_more [OF assms(3)]) (simp_all add: rows)
  then have "index_backed loads d'"
    using committed index_backed_commit [of loads ?d row dir] by (simp add: rows)
  with committed rows show ?thesis by simp
qed (use assms(3) in simp)

theorem crash_keeps_index_backed_witness:
  "index_backed sample_loads (append_text [''t''] ''{1'' empty_disk) \<and> index_backed sample_loads good_disk"
proof -
  have "append_text [''t''] (take 2 ''{1}'' @ take (2 - 3) [newline]) empty_disk \<in> set (record_states sample_dumps good_try empty_disk)"
    unfolding record_states_def Let_def by simp
  moreover have "good_disk \<in> set (record_states sample_dumps good_try empty_disk)"
    unfolding good_disk_def by (rule last_in_set) (simp add: record_states_def Let_def)
  ultimately show ?thesis
    using crash_keeps_index_backed [OF empty_disk_simps(3) sample_line_ok(2)] by simp
qed

lemma subseqs_nonempty [simp]: "subseqs xs \<noteq> []"
  by (induction xs) (simp_all add: Let_def)

lemma delete_states_cases:
  assumes "d' \<noteq> d" "d' \<in> set (delete_states tag d)"
  obtains dir gone where "tag_dir tag = Inr dir" "set gone \<subseteq> {p. below dir p}"
    "d' = drop_files gone (d\<lparr>dk_index := filter (\<lambda>kv. ix_source_tag (snd kv) \<noteq> tag) (dk_index d)\<rparr>)"
proof (cases "tag_dir tag")
  case (Inr dir)
  let ?d = "d\<lparr>dk_index := filter (\<lambda>kv. ix_source_tag (snd kv) \<noteq> tag) (dk_index d)\<rparr>"
  have "set (delete_states tag d) = insert d ((\<lambda>gone. drop_files gone ?d) ` set (subseqs (filter (below dir) (map fst (dk_results d)))))"
    using Inr by (simp add: delete_states_def Let_def)
  with assms have "d' \<in> (\<lambda>gone. drop_files gone ?d) ` set (subseqs (filter (below dir) (map fst (dk_results d))))"
    by (simp only: insert_iff) simp
  then obtain gone where "d' = drop_files gone ?d" "gone \<in> set (subseqs (filter (below dir) (map fst (dk_results d))))"
    by (rule imageE)
  moreover from this(2) have "set gone \<subseteq> set (filter (below dir) (map fst (dk_results d)))"
    using subseqs_powset [of "filter (below dir) (map fst (dk_results d))"] by (metis imageI PowD)
  then have "set gone \<subseteq> {p. below dir p}" by auto
  ultimately show thesis using that [OF Inr] by simp
qed (use assms in \<open>simp add: delete_states_def\<close>)

text \<open>
  A crash while an experiment is deleted leaves no cached response without its line, unless the tag is \<open>.\<close>:
  the index forgets the experiment before the first of its files goes.
\<close>

theorem crash_keeps_index_backed_delete:
  assumes "index_backed loads d" "d' \<in> set (delete_states tag d)" "tag \<noteq> ''.''"
  shows "index_backed loads d'"
proof (cases "d' = d")
  case False
  then obtain dir gone where dir: "tag_dir tag = Inr dir" and gone: "set gone \<subseteq> {p. below dir p}"
    and d': "d' = drop_files gone (d\<lparr>dk_index := filter (\<lambda>kv. ix_source_tag (snd kv) \<noteq> tag) (dk_index d)\<rparr>)"
    using assms(2) by (rule delete_states_cases)
  have kept: "disk_rows loads d' dir' = disk_rows loads d dir'" if "dir' \<notin> set gone" for dir'
    using that by (simp add: d' disk_rows_def drop_files_def dget_def map_of_filter_keys [where P = "\<lambda>p. p \<notin> set gone"])
  have "backed loads d' (fst x) (snd x)" if "x \<in> set (dk_index d)" "ix_source_tag (snd x) \<noteq> tag" for x
  proof -
    from assms(1) that(1) obtain dir' where dir': "tag_dir (ix_source_tag (snd x)) = Inr dir'"
      "\<exists>r\<in>set (disk_rows loads d dir'). row_cache_key r = fst x \<and> rr_response r = Some (ix_response (snd x))"
      unfolding index_backed_def backed_def by blast
    from dir dir'(1) that(2) assms(3) have "\<not> below dir dir'" by (auto simp: tag_dir_Inr below_def)
    with gone have "dir' \<notin> set gone" by blast
    with dir' show ?thesis by (simp add: backed_def kept)
  qed
  then show ?thesis by (auto simp: index_backed_def d' drop_files_def)
qed (use assms(1) in simp)

theorem crash_keeps_index_backed_delete_witness:
  "dk_index good_disk \<noteq> [] \<and> (\<exists>d'\<in>set (delete_states ''t'' good_disk). index_backed sample_loads d' \<and> dk_index d' = [])"
proof -
  have "backed sample_loads good_disk (row_cache_key good_try) (index_row_of good_try (replicate 20 (CHR ''x'')))"
    unfolding backed_def by (rule exI [where x = "[''t'']"]) (simp add: index_row_of_def)
  then have "index_backed sample_loads good_disk" by (simp add: index_backed_def)
  moreover define d' where "d' = last (delete_states ''t'' good_disk)"
  moreover have "d' \<in> set (delete_states ''t'' good_disk)"
    unfolding d'_def by (rule last_in_set) (simp add: delete_states_def Let_def split: sum.split)
  moreover have "tag_dir ''t'' = Inr [''t'']" "ix_source_tag (index_row_of good_try (replicate 20 (CHR ''x''))) = ''t''"
    by (simp_all add: tag_dir_Inr index_row_of_def good_try_def good_row_def sample_row_def stamp_def)
  then have "dk_index d' = []"
    unfolding d'_def delete_states_def Let_def by (simp add: drop_files_def last_map)
  ultimately show ?thesis
    using crash_keeps_index_backed_delete [of sample_loads good_disk d' "''t''"] by auto
qed

section \<open>A torn line\<close>

text \<open>
  C36: The line a crash has torn takes the next row with it. When the process dies inside the append, the next row of the
  experiment is written behind the torn bytes, on the same line: no reader sees it, but the index knows it, so it
  is never written again.
\<close>

theorem torn_line_loses_next_row:
  assumes "complete_files d" "line_ok dumps loads row" "line_ok dumps loads row2"
    and "tag_dir (rr_experiment_tag row) = Inr dir" "map_of (dk_index d) (row_cache_key row) = None"
    and "tag_dir (rr_experiment_tag row2) = Inr dir" "map_of (dk_index d) (row_cache_key row2) = None" "usable row2"
    and "0 < k" "k < length (dumps row)" "loads (take k (dumps row) @ dumps row2) = None"
    and d1: "d1 = append_text dir (take k (dumps row)) d" and d2: "d2 = last (record_states dumps row2 d1)"
  shows "d1 \<in> set (record_states dumps row d) \<and> disk_rows loads d2 dir = disk_rows loads d dir
    \<and> map_of (dk_index d2) (row_cache_key row2) \<noteq> None \<and> record_states dumps row2 d2 = [d2]"
proof -
  let ?line = "take k (dumps row) @ dumps row2"
  have d2': "d2 = commit_index row2 (append_text dir (dumps row2 @ [newline]) d1)"
    using record_states_last [of row2 dir d1 dumps] assms by simp
  have torn: "take k (dumps row) = take k (dumps row @ [newline])" using assms(10) by simp
  have "newline \<notin> set ?line" using assms(2,3) by (auto simp: line_ok_def dest: in_set_takeD)
  moreover have "read_line loads ?line = None" using assms(11) by (simp add: read_line_def)
  ultimately have none: "read_rows loads (?line @ [newline]) = []" using read_rows_line(2) [of ?line loads] by simp
  have "disk_rows loads d2 dir = read_rows loads (dget (dk_results d) dir [] @ (?line @ [newline]))"
    by (simp add: d2' d1 disk_rows_append) (simp add: append_text_def dget_dset)
  then have rows: "disk_rows loads d2 dir = disk_rows loads d dir"
    using assms(1) none read_rows_append [of "dget (dk_results d) dir []" loads "?line @ [newline]"]
    by (simp add: complete_files_def disk_rows_def)
  obtain resp where "rr_response row2 = Some resp" using assms(8) by (auto simp: row_usable_def is_row_usable_iff)
  then have "map_of (dk_index d2) (row_cache_key row2) \<noteq> None"
    using assms(7) by (simp add: d2' d1 index_insert_def)
  moreover from this have "record_states dumps row2 d2 = [d2]" using assms(6) by (simp add: record_states_def)
  moreover have "d1 \<in> set (record_states dumps row d)"
  proof -
    have "append_text dir (take k (dumps row @ [newline])) d
        \<in> set (map (\<lambda>k. append_text dir (take k (dumps row @ [newline])) d) [0..<Suc (length (dumps row @ [newline]))])"
      unfolding set_map using assms(10) by (intro imageI) simp
    then show ?thesis using assms(4,5) unfolding d1 torn record_states_def Let_def by (simp del: upt_Suc)
  qed
  ultimately show ?thesis using rows by blast
qed

theorem torn_line_loses_next_row_witness:
  "\<exists>d1 d2. d1 \<in> set (record_states sample_dumps failed_try empty_disk) \<and> d2 = last (record_states sample_dumps good_try d1)
     \<and> disk_rows sample_loads d2 [''t''] = [] \<and> map_of (dk_index d2) (row_cache_key good_try) \<noteq> None"
proof -
  let ?d1 = "append_text [''t''] (take 1 ''{0}'') empty_disk" 
  let ?d2 = "last (record_states sample_dumps good_try ?d1)"
  have "sample_loads (take 1 (sample_dumps failed_try) @ sample_dumps good_try) = None" by (simp add: sample_loads_def)
  with torn_line_loses_next_row [of empty_disk sample_dumps sample_loads failed_try good_try "[''t'']" 1 ?d1 ?d2] sample_line_ok
  have "?d1 \<in> set (record_states sample_dumps failed_try empty_disk) \<and> disk_rows sample_loads ?d2 [''t''] = disk_rows sample_loads empty_disk [''t'']
     \<and> map_of (dk_index ?d2) (row_cache_key good_try) \<noteq> None" by simp
  moreover have "disk_rows sample_loads empty_disk [''t''] = []"
    by (simp add: disk_rows_def dget_def read_rows_def map_filter_def read_line_def blank_def)
  ultimately show ?thesis by metis
qed

section \<open>The winners of a round\<close>

text \<open>\<open>Path.with_suffix\<close> on a file name: the last dot starts the suffix unless it is the first or the last character.\<close>

definition with_suffix :: "string \<Rightarrow> string \<Rightarrow> string" where
  "with_suffix name suffix =
     (let s = rev (dropWhile (\<lambda>c. c \<noteq> CHR ''.'') (rev name))
      in (if length s \<le> 1 \<or> length s = length name then name else butlast s) @ suffix)"

definition winners_name :: "int \<Rightarrow> string" where
  "winners_name k = ''round_'' @ string_of_int k @ ''.json''"

text \<open>\<open>_write_atomic\<close> in the files of a directory: the temporary file byte by byte, then \<open>os.replace\<close>.\<close>

definition write_atomic_states :: "nat \<Rightarrow> string \<Rightarrow> string \<Rightarrow> (string, string) dict \<Rightarrow> (string, string) dict list" where
  "write_atomic_states pid name data files =
     (let tmp = with_suffix name (''.tmp.'' @ string_of_nat pid)
      in files # map (\<lambda>k. dset tmp (take k data) files) [0..<Suc (length data)]
         @ [dset name data (filter (\<lambda>kv. fst kv \<noteq> tmp) files)])"

definition read_bytes_or_none :: "string \<Rightarrow> (string, string) dict \<Rightarrow> string option" where
  "read_bytes_or_none name files = map_of files name"

text \<open>\<open>load_winners\<close>: the file if there is one; the JSON of it raises if it does not parse.\<close>

definition load_winners_file :: "(string \<Rightarrow> winner_set option) \<Rightarrow> int \<Rightarrow> (string, string) dict \<Rightarrow> winner_set option result" where
  "load_winners_file loads round_idx files =
     (case read_bytes_or_none (winners_name round_idx) files of
        None \<Rightarrow> Inr None
      | Some data \<Rightarrow> case loads data of None \<Rightarrow> Inl ValueError | Some w \<Rightarrow> Inr (Some w))"

lemma with_suffix_round: "with_suffix (winners_name k) suffix = ''round_'' @ string_of_int k @ suffix"
  by (simp add: with_suffix_def winners_name_def Let_def butlast_append)

lemma winners_name_eq [simp]: "winners_name j = winners_name k \<longleftrightarrow> j = k"
proof
  assume "winners_name j = winners_name k"
  then have "int_of_string (string_of_int j) = int_of_string (string_of_int k)" by (simp add: winners_name_def)
  then show "j = k" by (simp only: int_of_string_of_int) simp
qed simp

lemma temporary_name: "with_suffix (winners_name k) (''.tmp.'' @ string_of_nat pid) \<noteq> winners_name j"
proof
  let ?pid = "string_of_nat pid"
  assume "with_suffix (winners_name k) (''.tmp.'' @ ?pid) = winners_name j"
  then have "last (''round_'' @ string_of_int k @ ''.tmp.'' @ ?pid) = last (''round_'' @ string_of_int j @ ''.json'')"
    by (simp only: with_suffix_round) (simp only: winners_name_def)
  then have "last ?pid = CHR ''n''" using digits_of_nat [of pid] by simp
  moreover have "is_digit (last ?pid)" using digits_of_nat [of pid] by (simp add: list_all_iff)
  ultimately show False by (simp add: is_digit_def)
qed

text \<open>
  C14: A crash while winners are saved leaves the old ones or the new ones. At every moment of \<open>persist_winners\<close> the winners
  of every other round are as they were, those of the round are the old or the new, never a part of them, and
  after it they are the new, whatever a crash has left behind before.
\<close>

theorem winners_never_torn:
  assumes "loads data = Some w" "files' \<in> set (write_atomic_states pid (winners_name k) data files)"
  shows "(load_winners_file loads j files' = load_winners_file loads j files
      \<or> j = k \<and> load_winners_file loads j files' = Inr (Some w))
    \<and> load_winners_file loads k (last (write_atomic_states pid' (winners_name k) data files')) = Inr (Some w)"
proof -
  let ?tmp = "with_suffix (winners_name k) (''.tmp.'' @ string_of_nat pid)"
  consider "files' = files" | i where "files' = dset ?tmp (take i data) files"
    | "files' = dset (winners_name k) data (filter (\<lambda>kv. fst kv \<noteq> ?tmp) files)"
    using assms(2) by (auto simp: write_atomic_states_def Let_def simp del: upt_Suc)
  then have "map_of files' (winners_name j) = map_of files (winners_name j) \<or> j = k \<and> map_of files' (winners_name j) = Some data"
  proof cases
    case 3
    have "map_of (filter (\<lambda>kv. fst kv \<noteq> ?tmp) files) (winners_name j) = map_of files (winners_name j)"
      using map_of_filter_keys [of "\<lambda>n. n \<noteq> ?tmp" files "winners_name j"] temporary_name [of k pid j] by metis
    with 3 show ?thesis by (cases "j = k") simp_all
  qed (use temporary_name [of k pid j] in auto)
  then show ?thesis
    using assms(1) by (auto simp: load_winners_file_def read_bytes_or_none_def write_atomic_states_def Let_def)
qed

definition winners_for :: "string \<Rightarrow> winner_set" where
  "winners_for m = \<lparr>ws_experiment_tag = ''t'', ws_round_idx = 2, ws_winners = [(''s'', m)], ws_candidates_out = [m],
     ws_stage_scores = [], ws_runner_up = []\<rparr>"

definition sample_winners :: "string \<Rightarrow> winner_set option" where
  "sample_winners s = (if s = ''{new}'' then Some (winners_for ''m2'') else if s = ''{old}'' then Some (winners_for ''m1'') else None)"

text \<open>Winners saved over older ones, the process dying with the temporary file half written.\<close>

theorem winners_never_torn_witness:
  "\<exists>files'. files' \<in> set (write_atomic_states 7 (winners_name 2) ''{new}'' [(winners_name 2, ''{old}'')])
    \<and> map_of files' (with_suffix (winners_name 2) ''.tmp.7'') = Some ''{n''
    \<and> load_winners_file sample_winners 2 files' = Inr (Some (winners_for ''m1''))
    \<and> load_winners_file sample_winners 2 (last (write_atomic_states 8 (winners_name 2) ''{new}'' files')) = Inr (Some (winners_for ''m2''))"
proof -
  let ?tmp = "with_suffix (winners_name 2) ''.tmp.7''" and ?files = "[(winners_name 2, ''{old}'')]"
  let ?files' = "dset ?tmp (take 2 ''{new}'') ?files"
  have pid: "string_of_nat 7 = ''7''" by code_simp
  have files': "?files' \<in> set (write_atomic_states 7 (winners_name 2) ''{new}'' ?files)"
    unfolding write_atomic_states_def Let_def pid by simp
  from temporary_name [of 2 7 2] have tmp: "?tmp \<noteq> winners_name 2" by (simp add: pid)
  have "sample_winners ''{new}'' = Some (winners_for ''m2'')" by (simp add: sample_winners_def)
  note saved = winners_never_torn [where loads = sample_winners and j = 2 and pid' = 8, OF this files']
  from saved have "load_winners_file sample_winners 2 (last (write_atomic_states 8 (winners_name 2) ''{new}'' ?files')) = Inr (Some (winners_for ''m2''))"
    by (rule conjunct2)
  moreover have "load_winners_file sample_winners 2 ?files' = Inr (Some (winners_for ''m1''))"
    using tmp by (simp add: load_winners_file_def read_bytes_or_none_def sample_winners_def)
  ultimately show ?thesis using files' tmp by (intro exI [of _ ?files'] conjI) simp_all
qed

end
