(* ===== verification/Pickling.thy ===== *)
theory Pickling
  imports Stage_Kwargs
begin

text \<open>
  The pickling hooks of the storage backends and of the resume cache: \<open>__getstate__\<close> drops what is bound to the event loop,
  \<open>__setstate__\<close> fills a new object from the rest and gives it a lock of its own. An object is its \<open>__dict__\<close>.
\<close>

section \<open>The hooks\<close>

text \<open>An attribute is \<open>None\<close>, a flag, a lock, a live connection or pool, or plain data.\<close>

datatype 'v attribute = NoneValue | Flag bool | LockOf nat | Live nat | Plain 'v

type_synonym 'v py_object = "(string, 'v attribute) dict"

datatype pickled_class = Memory | Files | Postgres | Resume

text \<open>The attributes the constructors set; the second is the one that holds a connection.\<close>

fun attributes :: "pickled_class \<Rightarrow> string list" where
  "attributes Memory = [''_prompts'', ''_rows'', ''_winners'', ''_lock'', ''_initialized'', ''_closed'']"
| "attributes Files = [''root'', ''_lock'', ''_db'', ''_initialized'']"
| "attributes Postgres = [''_url'', ''_schema'', ''_min'', ''_max'', ''_command_timeout'', ''_pool'', ''_lock'']"
| "attributes Resume = [''_entries'', ''_lock'']"

fun live_attribute :: "pickled_class \<Rightarrow> string option" where
  "live_attribute Files = Some ''_db''"
| "live_attribute Postgres = Some ''_pool''"
| "live_attribute c = None"

definition drop_lock :: "'v py_object \<Rightarrow> 'v py_object" where
  "drop_lock d = filter (\<lambda>kv. fst kv \<noteq> ''_lock'') d"

definition mem_getstate :: "'v py_object \<Rightarrow> 'v py_object" where
  "mem_getstate d = drop_lock d"

definition file_getstate :: "'v py_object \<Rightarrow> 'v py_object" where
  "file_getstate d = dset ''_initialized'' (Flag False) (dset ''_db'' NoneValue (drop_lock d))"

definition pg_getstate :: "'v py_object \<Rightarrow> 'v py_object" where
  "pg_getstate d = dset ''_pool'' NoneValue (drop_lock d)"

definition resume_getstate :: "'v py_object \<Rightarrow> 'v py_object" where
  "resume_getstate d = drop_lock d"

fun getstate :: "pickled_class \<Rightarrow> 'v py_object \<Rightarrow> 'v py_object" where
  "getstate Memory d = mem_getstate d"
| "getstate Files d = file_getstate d"
| "getstate Postgres d = pg_getstate d"
| "getstate Resume d = resume_getstate d"

text \<open>\<open>__setstate__\<close>, on an object whose \<open>__dict__\<close> is empty, with the lock it makes.\<close>

definition mem_setstate :: "nat \<Rightarrow> 'v py_object \<Rightarrow> 'v py_object" where
  "mem_setstate fresh state = dset ''_lock'' (LockOf fresh) (dupdate [] state)"

definition file_setstate :: "nat \<Rightarrow> 'v py_object \<Rightarrow> 'v py_object" where
  "file_setstate fresh state = dset ''_lock'' (LockOf fresh) (dupdate [] state)"

definition pg_setstate :: "nat \<Rightarrow> 'v py_object \<Rightarrow> 'v py_object" where
  "pg_setstate fresh state = dset ''_lock'' (LockOf fresh) (dupdate [] state)"

definition resume_setstate :: "nat \<Rightarrow> 'v py_object \<Rightarrow> 'v py_object" where
  "resume_setstate fresh state = dset ''_lock'' (LockOf fresh) (dupdate [] state)"

fun setstate :: "pickled_class \<Rightarrow> nat \<Rightarrow> 'v py_object \<Rightarrow> 'v py_object" where
  "setstate Memory fresh state = mem_setstate fresh state"
| "setstate Files fresh state = file_setstate fresh state"
| "setstate Postgres fresh state = pg_setstate fresh state"
| "setstate Resume fresh state = resume_setstate fresh state"

lemma setstate_def: "setstate c fresh state = dset ''_lock'' (LockOf fresh) (dupdate [] state)"
  by (cases c) (simp_all add: mem_setstate_def file_setstate_def pg_setstate_def resume_setstate_def)

section \<open>Copies\<close>

text \<open>What \<open>pickle\<close> takes, and what may stand under a name: the lock under its own, a connection at most in its place.\<close>

fun plain :: "'v attribute \<Rightarrow> bool" where
  "plain (LockOf l) = False"
| "plain (Live n) = False"
| "plain a = True"

fun fits :: "pickled_class \<Rightarrow> string \<Rightarrow> 'v attribute \<Rightarrow> bool" where
  "fits c k (LockOf l) = (k = ''_lock'')"
| "fits c k (Live n) = (live_attribute c = Some k)"
| "fits c k a = (k \<noteq> ''_lock'')"

definition picklable :: "'v py_object \<Rightarrow> bool" where
  "picklable d = list_all (\<lambda>kv. plain (snd kv)) d"

definition instance_of :: "pickled_class \<Rightarrow> 'v py_object \<Rightarrow> bool" where
  "instance_of c d \<longleftrightarrow> dict_ok d \<and> fst ` set d = set (attributes c) \<and> list_all (\<lambda>kv. fits c (fst kv) (snd kv)) d"

lemma list_all_lookup: "dict_ok d \<Longrightarrow> list_all (\<lambda>kv. P (fst kv) (snd kv)) d \<longleftrightarrow> (\<forall>k a. map_of d k = Some a \<longrightarrow> P k a)"
  unfolding list_all_iff dict_ok_def by (metis map_of_eq_Some_iff fst_conv snd_conv prod.collapse)

lemma instance_iff:
  "instance_of c d \<longleftrightarrow> dict_ok d \<and> (\<forall>k. map_of d k \<noteq> None \<longleftrightarrow> k \<in> set (attributes c)) \<and> (\<forall>k a. map_of d k = Some a \<longrightarrow> fits c k a)"
proof -
  have "fst ` set d = set (attributes c) \<longleftrightarrow> (\<forall>k. map_of d k \<noteq> None \<longleftrightarrow> k \<in> set (attributes c))"
    using dom_map_of_conv_image_fst [of d] unfolding dom_def by blast
  then show ?thesis unfolding instance_of_def using list_all_lookup [of d "fits c"] by blast
qed

text \<open>What a copy has that the original may not: the lock, no connection, and the flag of a store that is not open.\<close>

definition reset :: "pickled_class \<Rightarrow> nat \<Rightarrow> string \<Rightarrow> 'v attribute option" where
  "reset c fresh k =
     (if k = ''_lock'' then Some (LockOf fresh) else if live_attribute c = Some k then Some NoneValue
      else if c = Files \<and> k = ''_initialized'' then Some (Flag False) else None)"

lemma reset_names: "reset c fresh k = Some a \<Longrightarrow> k \<in> set (attributes c)"
  by (cases c) (auto simp: reset_def split: if_splits)

lemma dict_ok_drop_lock: "dict_ok d \<Longrightarrow> dict_ok (drop_lock d)"
  by (simp add: dict_ok_def drop_lock_def distinct_map_filter)

lemma map_of_drop_lock: "map_of (drop_lock d) k = (if k = ''_lock'' then None else map_of d k)"
  using map_of_filter_keys [of "\<lambda>k. k \<noteq> ''_lock''" d k] by (simp add: drop_lock_def)

lemma getstate_simps:
  assumes "dict_ok d"
  shows "dict_ok (getstate c d)"
    "map_of (getstate c d) k = (if k = ''_lock'' then None else case reset c 0 k of Some a \<Rightarrow> Some a | None \<Rightarrow> map_of d k)"
  using dict_ok_drop_lock [OF assms]
  by (cases c; auto simp: mem_getstate_def file_getstate_def pg_getstate_def resume_getstate_def reset_def map_of_drop_lock)+

lemma setstate_lookup:
  "dict_ok state \<Longrightarrow> map_of (setstate c fresh state) k = (if k = ''_lock'' then Some (LockOf fresh) else map_of state k)"
  by (simp add: setstate_def map_of_dupdate split: option.split)

lemma copy_lookup:
  assumes "dict_ok d"
  shows "map_of (setstate c fresh (getstate c d)) k = (case reset c fresh k of Some a \<Rightarrow> Some a | None \<Rightarrow> map_of d k)"
  using getstate_simps [OF assms] by (simp add: setstate_lookup) (simp add: reset_def)

text \<open>
  A pickled store or cache comes back usable. Of an instance in any condition, \<open>__getstate__\<close> leaves nothing that cannot be pickled,
  and the copy \<open>__setstate__\<close> makes is an instance of the class again, with the attributes of the original except that
  it has its own lock, no connection, and, for the file storage, is not initialised.
\<close>

theorem unpickled_copy_is_usable:
  assumes "instance_of c d"
  shows "picklable (getstate c d) \<and> instance_of c (setstate c fresh (getstate c d))
    \<and> map_of (setstate c fresh (getstate c d)) k = (case reset c fresh k of Some a \<Rightarrow> Some a | None \<Rightarrow> map_of d k)"
proof -
  have ok: "dict_ok d" using assms by (simp add: instance_of_def)
  note get = getstate_simps [OF ok, of c] and copy = copy_lookup [OF ok, of c fresh]
  let ?d = "setstate c fresh (getstate c d)"
  have names: "map_of d k \<noteq> None \<longleftrightarrow> k \<in> set (attributes c)" and fits: "map_of d k = Some a \<Longrightarrow> fits c k a" for k a
    using assms by (simp_all add: instance_iff del: not_None_eq)
  have old: "plain a" if "map_of d k = Some a" "reset c 0 k = None" for k a
    using fits [OF that(1)] that(2) by (cases a) (auto simp: reset_def split: if_splits)
  have "plain a" if "map_of (getstate c d) k = Some a" for k a
    using that old [of k a] by (auto simp: get(2) reset_def split: if_splits option.splits)
  then have "picklable (getstate c d)"
    using list_all_lookup [OF get(1), of "\<lambda>k a. plain a"] by (simp add: picklable_def)
  moreover have "instance_of c ?d"
    unfolding instance_iff
  proof (intro conjI allI impI)
    show "dict_ok ?d" by (simp add: setstate_def dict_ok_dupdate)
    show "map_of ?d k \<noteq> None \<longleftrightarrow> k \<in> set (attributes c)" for k
      using names [of k] by (auto simp: copy dest: reset_names split: option.split simp del: not_None_eq)
    show "fits c k a" if "map_of ?d k = Some a" for k a
      using that fits [of k a] by (auto simp: copy reset_def split: if_splits option.splits)
  qed
  ultimately show ?thesis by (simp add: copy)
qed

text \<open>A file storage with an open connection and its lock.\<close>

definition open_files :: "string py_object" where
  "open_files = [(''root'', Plain ''/data''), (''_lock'', LockOf 1), (''_db'', Live 7), (''_initialized'', Flag True)]"

theorem unpickled_copy_is_usable_witness:
  "\<not> picklable open_files \<and> picklable (getstate Files open_files)
    \<and> map_of (setstate Files 2 (getstate Files open_files)) ''_initialized'' = Some (Flag False)
    \<and> map_of (setstate Files 2 (getstate Files open_files)) ''root'' = Some (Plain ''/data'')"
proof -
  have "instance_of Files open_files" by (auto simp: instance_of_def open_files_def)
  note copy = unpickled_copy_is_usable [OF this, where fresh = 2]
  show ?thesis
    using copy [where k = "''_initialized''"] copy [where k = "''root''"] by (simp add: picklable_def open_files_def reset_def)
qed

end
