(* ===== verification/Log_Throttle.thy ===== *)
theory Log_Throttle
  imports Stage_Kwargs Python_Text
begin

text \<open>
  What the round runner writes to the log and what it holds back: \<open>_log_throttled\<close>, \<open>_log_validator_skip_once\<close> and
  \<open>warn_once\<close>, with their module-global state, and the places that call them. A line is its level, its text after
  \<open>%\<close>-formatting and whether it carries a traceback.
\<close>

section \<open>The three helpers\<close>

definition DEBUG :: nat where "DEBUG = 10"
definition INFO :: nat where "INFO = 20"
definition WARNING :: nat where "WARNING = 30"
definition ERROR :: nat where "ERROR = 40"

type_synonym log_line = "nat \<times> string \<times> bool"

record log_state =
  lg_throttle_hit_counts :: "(string, nat) dict"
  lg_validator_skip_logged :: "(int \<times> string) set"
  lg_warned_once :: "string set"

definition log_fresh :: log_state where
  "log_fresh = \<lparr>lg_throttle_hit_counts = [], lg_validator_skip_logged = {}, lg_warned_once = {}\<rparr>"

definition LOG_THROTTLE_MAX :: nat where
  "LOG_THROTTLE_MAX = 3"

definition log_throttled :: "string \<Rightarrow> nat \<Rightarrow> string \<Rightarrow> bool \<Rightarrow> log_state \<Rightarrow> log_line list \<times> log_state" where
  "log_throttled key level msg exc_info s =
     (let counts = dset key (dget (lg_throttle_hit_counts s) key 0 + 1) (lg_throttle_hit_counts s)
      in ([(if dget counts key 0 \<le> LOG_THROTTLE_MAX then level else DEBUG, msg, exc_info)], s\<lparr>lg_throttle_hit_counts := counts\<rparr>))"

definition log_validator_skip_once :: "int \<Rightarrow> string \<Rightarrow> nat \<Rightarrow> string \<Rightarrow> log_state \<Rightarrow> log_line list \<times> log_state" where
  "log_validator_skip_once round_idx reason level msg s =
     (if (round_idx, reason) \<in> lg_validator_skip_logged s then ([], s)
      else ([(level, msg, False)], s\<lparr>lg_validator_skip_logged := insert (round_idx, reason) (lg_validator_skip_logged s)\<rparr>))"

definition log_warn_once :: "string \<Rightarrow> log_state \<Rightarrow> log_line list \<times> log_state" where
  "log_warn_once msg s =
     (case warn_once msg (lg_warned_once s) of (new, warned) \<Rightarrow> (if new then [(WARNING, msg, False)] else [], s\<lparr>lg_warned_once := warned\<rparr>))"

section \<open>Where the runner logs\<close>

text \<open>
  One definition per place in \<open>_run_pipeline\<close>, \<open>_resolve_validator_call_model\<close> and \<open>_call_llm\<close>: a quarantined
  pipeline left, a prompt that was not built, a call that was not persisted (\<open>ok\<close> says if the call had succeeded), a
  pipeline given up, a validator stage skipped in a pool of \<open>n < 3\<close> candidates, and a call without an output cap. The
  \<open>repr\<close> of a stage id is a parameter; \<open>%s\<close> of no quarantine reason is \<open>None\<close>.
\<close>

definition log_quarantined :: "string \<Rightarrow> string \<Rightarrow> string option \<Rightarrow> log_state \<Rightarrow> log_line list \<times> log_state" where
  "log_quarantined model unit reason =
     log_throttled (''quarantine:'' @ model) WARNING
       (''[quarantine] '' @ model @ ''/'' @ unit @ '': skipping remaining stages ('' @
        (case reason of None \<Rightarrow> ''None'' | Some r \<Rightarrow> r) @ '')'') False"

definition log_prompt_failed :: "string \<Rightarrow> string \<Rightarrow> string \<Rightarrow> log_state \<Rightarrow> log_line list \<times> log_state" where
  "log_prompt_failed model unit stage =
     log_throttled (''prompt_build_failed:'' @ model @ '':'' @ stage) ERROR
       (''[stage '' @ stage @ ''] prompt build failed for '' @ model @ ''/'' @ unit) True"

definition log_persist_failed :: "string \<Rightarrow> string \<Rightarrow> string \<Rightarrow> bool \<Rightarrow> log_state \<Rightarrow> log_line list \<times> log_state" where
  "log_persist_failed model unit stage ok =
     log_throttled (''persist_infra_failure:'' @ model @ '':'' @ stage) ERROR
       (''[stage '' @ stage @ ''] '' @ model @ ''/'' @ unit @ '': INFRASTRUCTURE failure persisting a ''
        @ (if ok then ''succeeded'' else ''failed'')
        @ '' call (storage.record_call / resume_cache.put / budget_gate.record_cost) - the LLM call itself already ''
        @ (if ok then ''spent money'' else ''cost nothing'')
        @ ''. This is NOT a provider/model error and is not counted against the candidate's error history.'') True"

definition log_aborted :: "string \<Rightarrow> string \<Rightarrow> log_state \<Rightarrow> log_line list \<times> log_state" where
  "log_aborted model unit =
     log_throttled (''dead_errors_abort:'' @ model) WARNING
       (''[pipeline] '' @ model @ ''/'' @ unit @ '': 3+ DEAD errors - aborting remaining stages'') False"

definition log_validator_skipped ::
  "(string \<Rightarrow> string) \<Rightarrow> string \<Rightarrow> string \<Rightarrow> int \<Rightarrow> nat \<Rightarrow> log_state \<Rightarrow> log_line list \<times> log_state" where
  "log_validator_skipped repr model stage round_idx n =
     (if n < 2 then log_validator_skip_once round_idx ''n1'' INFO
        (''[validator] '' @ model @ '': only '' @ string_of_nat n @ '' candidate(s) in the pool - skipping ''
         @ repr stage @ '' (independence requires >= 2)'')
      else log_validator_skip_once round_idx ''n2'' WARNING
        (''[validator] N=2 candidates cannot achieve validator independence (mutual A<->B blame) - skipping ''
         @ repr stage @ '' this round''))"

definition log_no_output_cap :: "string \<Rightarrow> log_state \<Rightarrow> log_line list \<times> log_state" where
  "log_no_output_cap model =
     log_warn_once (''no max_tokens for '' @ model @
       '' and the provider does not state its own ceiling - output is unbounded'')"

text \<open>A place that was reached, with what it has to say; the first component is the model.\<close>

datatype log_site =
    Quarantined string string "string option"
  | Prompt_failed string string string
  | Persist_failed string string string bool
  | Aborted string string
  | Validator_skipped string string int nat
  | No_output_cap string

fun log_at :: "(string \<Rightarrow> string) \<Rightarrow> log_site \<Rightarrow> log_state \<Rightarrow> log_line list \<times> log_state" where
  "log_at repr (Quarantined model unit reason) = log_quarantined model unit reason"
| "log_at repr (Prompt_failed model unit stage) = log_prompt_failed model unit stage"
| "log_at repr (Persist_failed model unit stage ok) = log_persist_failed model unit stage ok"
| "log_at repr (Aborted model unit) = log_aborted model unit"
| "log_at repr (Validator_skipped model stage round_idx n) = log_validator_skipped repr model stage round_idx n"
| "log_at repr (No_output_cap model) = log_no_output_cap model"

lemmas log_place_defs = log_quarantined_def log_prompt_failed_def log_persist_failed_def log_aborted_def
  log_validator_skipped_def log_no_output_cap_def

text \<open>The log of a process: every place reached, in order, with the lines it wrote.\<close>

fun log_run :: "(string \<Rightarrow> string) \<Rightarrow> log_site list \<Rightarrow> log_state \<Rightarrow> (log_site \<times> log_line list) list" where
  "log_run repr [] s = []"
| "log_run repr (site # sites) s = (case log_at repr site s of (ls, s') \<Rightarrow> (site, ls) # log_run repr sites s')"

section \<open>How much is held back\<close>

text \<open>The places that share a limit: a throttle key, a skip reason of a round, a message logged once; and the limit.\<close>

datatype log_group = Throttle string | Skip int string | Once string

fun group_of :: "log_site \<Rightarrow> log_group" where
  "group_of (Quarantined model unit reason) = Throttle (''quarantine:'' @ model)"
| "group_of (Prompt_failed model unit stage) = Throttle (''prompt_build_failed:'' @ model @ '':'' @ stage)"
| "group_of (Persist_failed model unit stage ok) = Throttle (''persist_infra_failure:'' @ model @ '':'' @ stage)"
| "group_of (Aborted model unit) = Throttle (''dead_errors_abort:'' @ model)"
| "group_of (Validator_skipped model stage round_idx n) = Skip round_idx (if n < 2 then ''n1'' else ''n2'')"
| "group_of (No_output_cap model) = Once model"

fun limit :: "log_group \<Rightarrow> nat" where
  "limit (Throttle key) = 3"
| "limit (Skip round_idx reason) = 1"
| "limit (Once model) = 1"

text \<open>The level each place is meant to be reported at, and the line it writes as the first of a process.\<close>

fun level_of :: "log_site \<Rightarrow> nat" where
  "level_of (Quarantined model unit reason) = WARNING"
| "level_of (Prompt_failed model unit stage) = ERROR"
| "level_of (Persist_failed model unit stage ok) = ERROR"
| "level_of (Aborted model unit) = WARNING"
| "level_of (Validator_skipped model stage round_idx n) = (if n < 2 then INFO else WARNING)"
| "level_of (No_output_cap model) = WARNING"

definition line_of :: "(string \<Rightarrow> string) \<Rightarrow> log_site \<Rightarrow> log_line" where
  "line_of repr site = (level_of site, snd (hd (fst (log_at repr site log_fresh))))"

definition at_debug :: "log_line \<Rightarrow> log_line" where
  "at_debug l = (DEBUG, snd l)"

text \<open>What is written of a group's lines when \<open>r\<close> of them may still be written at their level.\<close>

definition held_back :: "log_group \<Rightarrow> nat \<Rightarrow> log_line list \<Rightarrow> log_line list" where
  "held_back g r ls = take r ls @ (case g of Throttle _ \<Rightarrow> map at_debug (drop r ls) | _ \<Rightarrow> [])"

definition of_group :: "log_group \<Rightarrow> (log_site \<times> log_line list) list \<Rightarrow> log_line list" where
  "of_group g out = concat (map snd (filter (\<lambda>e. group_of (fst e) = g) out))"

fun remaining :: "log_group \<Rightarrow> log_state \<Rightarrow> nat" where
  "remaining (Throttle key) s = 3 - dget (lg_throttle_hit_counts s) key 0"
| "remaining (Skip round_idx reason) s = (if (round_idx, reason) \<in> lg_validator_skip_logged s then 0 else 1)"
| "remaining (Once model) s = (if ''no max_tokens for '' @ model @
       '' and the provider does not state its own ceiling - output is unbounded'' \<in> lg_warned_once s then 0 else 1)"

lemma held_back_Cons:
  "held_back g r (l # ls) =
     (if 0 < r then [l] else case g of Throttle _ \<Rightarrow> [at_debug l] | _ \<Rightarrow> []) @ held_back g (r - 1) ls"
  by (cases r; cases g) (simp_all add: held_back_def)

lemma log_throttled_line:
  assumes "log_throttled key level msg tb s = (ls, s')"
  shows "ls = (if 0 < remaining (Throttle key) s then [(level, msg, tb)] else [(DEBUG, msg, tb)])
    \<and> remaining g s' = remaining g s - (if g = Throttle key then 1 else 0)"
  using assms by (cases g) (auto simp: log_throttled_def Let_def dget_dset LOG_THROTTLE_MAX_def)

lemma log_skip_line:
  assumes "log_validator_skip_once round_idx reason level msg s = (ls, s')"
  shows "ls = (if 0 < remaining (Skip round_idx reason) s then [(level, msg, False)] else [])
    \<and> remaining g s' = remaining g s - (if g = Skip round_idx reason then 1 else 0)"
  using assms by (cases g) (auto simp: log_validator_skip_once_def split: if_splits)

lemma log_once_line:
  assumes "log_no_output_cap model s = (ls, s')"
  shows "ls = (if 0 < remaining (Once model) s then [(WARNING, ''no max_tokens for '' @ model @
       '' and the provider does not state its own ceiling - output is unbounded'', False)] else [])
    \<and> remaining g s' = remaining g s - (if g = Once model then 1 else 0)"
  using assms by (cases g) (auto simp: log_no_output_cap_def log_warn_once_def warn_once_def split: if_splits)

lemma line_of_throttled:
  assumes "log_at repr site = log_throttled key (level_of site) msg tb"
  shows "line_of repr site = (level_of site, msg, tb)"
  by (simp add: line_of_def assms log_throttled_def Let_def)

lemma log_at_line:
  assumes "log_at repr site s = (ls, s')"
  shows "ls = (if 0 < remaining (group_of site) s then [line_of repr site]
      else case group_of site of Throttle _ \<Rightarrow> [at_debug (line_of repr site)] | _ \<Rightarrow> [])
    \<and> remaining g s' = remaining g s - (if g = group_of site then 1 else 0)"
proof -
  have throttled: ?thesis
    if "log_at repr site = log_throttled key (level_of site) msg tb" "group_of site = Throttle key" for key msg tb
    using log_throttled_line [of key "level_of site" msg tb s ls s' g] assms
    unfolding line_of_throttled [OF that(1)] that at_debug_def by simp
  show ?thesis
  proof (cases site)
    case (Validator_skipped model stage round_idx n)
    show ?thesis
    proof (cases "n < 2")
      case True
      with log_skip_line [of round_idx "''n1''" INFO _ s ls s' g] assms show ?thesis
        by (simp add: Validator_skipped line_of_def log_validator_skipped_def log_validator_skip_once_def log_fresh_def
            split: if_splits)
    next
      case False
      with log_skip_line [of round_idx "''n2''" WARNING _ s ls s' g] assms show ?thesis
        by (simp add: Validator_skipped line_of_def log_validator_skipped_def log_validator_skip_once_def log_fresh_def
            split: if_splits)
    qed
  next
    case (No_output_cap model)
    with log_once_line [of model s ls s' g] assms show ?thesis
      by (simp add: line_of_def log_no_output_cap_def log_warn_once_def warn_once_def log_fresh_def split: if_splits)
  qed (rule throttled; simp add: log_place_defs)+
qed

lemma log_run_lines:
  "of_group g (log_run repr sites s)
    = held_back g (remaining g s) (map (line_of repr) (filter (\<lambda>site. group_of site = g) sites))"
proof (induction sites arbitrary: s)
  case Nil
  show ?case by (cases g) (simp_all add: of_group_def held_back_def)
next
  case (Cons site sites)
  obtain ls s' where run: "log_at repr site s = (ls, s')" by fastforce
  from log_at_line [OF this, of g] Cons.IH [of s'] show ?case
    by (simp add: run of_group_def held_back_Cons split: log_group.split)
qed

text \<open>
  C38: The log stays readable and nothing is lost. However often a process gets there, a model's quarantines, its
  given-up pipelines, its prompt failures of a stage and its persistence failures of a stage write their first three
  lines at their level, which is a warning for the first two and an error for the others, and every later line with
  the same text and traceback at the debug level. A skipped validator stage writes its first line per round and
  reason (an info with one candidate, a warning with two) and a missing output cap its first warning per model;
  both are silent from then on.
\<close>

theorem log_lines_bounded:
  "let lines = map (line_of repr) (filter (\<lambda>site. group_of site = g) sites)
   in of_group g (log_run repr sites log_fresh) = take (limit g) lines
        @ (case g of Throttle _ \<Rightarrow> map (\<lambda>(_, message, traceback). (10, message, traceback)) (drop (limit g) lines)
           | _ \<Rightarrow> [])"
proof -
  have limit: "remaining g log_fresh = limit g" by (cases g) (simp_all add: log_fresh_def dget_def)
  have debug: "at_debug = (\<lambda>(_, message, traceback). (10, message, traceback))"
    by (auto simp: at_debug_def DEBUG_def)
  show ?thesis unfolding Let_def log_run_lines held_back_def limit debug by (rule refl)
qed

text \<open>
  The state is the process's, not the round's: once a round has reported that its pool is too small for a validator, a
  second benchmark in the process that skips any validator stage in its round of the same number says nothing.
\<close>

theorem second_benchmark_skips_silently:
  "map snd (log_run repr [Validator_skipped m st k 2, Validator_skipped m' st' k 2] log_fresh) =
    [[(WARNING, ''[validator] N=2 candidates cannot achieve validator independence (mutual A<->B blame) - skipping '' @ repr st
        @ '' this round'', False)], []]"
  by (simp add: log_validator_skipped_def log_validator_skip_once_def log_fresh_def)

end
