(* ===== verification/Job_App_Report.thy ===== *)
theory Job_App_Report
  imports Job_App_Run Command_Line
begin

text \<open>
  What the programs print and return at their top: the final report of the example driver and the dispatch of the
  command line. Formatted numbers are parameters.
\<close>

section \<open>The report of the example\<close>

definition padded_to :: "nat \<Rightarrow> string \<Rightarrow> string" where
  "padded_to n s = s @ replicate (n - length s) (CHR '' '')"

text \<open>The models of a stage, the highest score first, those of equal score in the order of the ranking.\<close>

definition model_lines :: "(real \<Rightarrow> string) \<Rightarrow> (real \<Rightarrow> string) \<Rightarrow> stage_ranking \<Rightarrow> string list" where
  "model_lines show_score show_cost sr =
     map (\<lambda>(model, score). ''      '' @ padded_to 55 model @ '' score='' @ show_score score
            @ '' eff_cost=$'' @ show_cost (dget (sr_model_eff_cost sr) model 0))
         (sort_key (\<lambda>kv. - snd kv) (sr_model_scores sr))"

definition stage_lines :: "(real \<Rightarrow> string) \<Rightarrow> (real \<Rightarrow> string) \<Rightarrow> string \<times> stage_ranking \<Rightarrow> string list" where
  "stage_lines show_score show_cost kv =
     (case kv of (stage, sr) \<Rightarrow>
        (''  ['' @ stage @ ''] winner: '' @ (case sr_winner sr of None \<Rightarrow> ''None'' | Some w \<Rightarrow> w))
        # model_lines show_score show_cost sr)"

definition job_app_report ::
  "(real \<Rightarrow> string) \<Rightarrow> (real \<Rightarrow> string) \<Rightarrow> (real \<Rightarrow> string) \<Rightarrow> string \<Rightarrow> string \<Rightarrow> phase_report \<Rightarrow> string list" where
  "job_app_report show_sec show_score show_cost tag storage_root report =
     [[], replicate 70 (CHR ''=''), ''JobApp benchmark complete: tag='' @ tag,
      ''Elapsed: '' @ show_sec (ph_elapsed_sec report) @ ''s'',
      ''Final survivors: '' @ repr_list (ph_final_candidates report), [], ''Per-stage rankings:'']
     @ concat (map (stage_lines show_score show_cost) (sort_key fst (rp_stages (ph_final_ranking report))))
     @ [[], ''Results persisted at: '' @ storage_root, replicate 70 (CHR ''='')]"

section \<open>The command line\<close>

text \<open>The parsed command: none, which prints the help text, \<open>doctor\<close>, or \<open>run\<close>.\<close>

datatype cli_command = NoCommand | Doctor | Run run_args

inductive cli_main ::
  "'g randbelow \<Rightarrow> 'g \<Rightarrow> (real \<Rightarrow> string) \<Rightarrow> (string \<Rightarrow> pyexn + ('p, 's, 'w) benchmark \<times> ('s, 'w) bench_state) \<Rightarrow> nat list
     \<Rightarrow> (string \<Rightarrow> string option) \<Rightarrow> (string \<Rightarrow> server) \<Rightarrow> string list \<Rightarrow> cli_command \<Rightarrow> cli_outcome \<Rightarrow> bool"
  for rb g show_sec load order environ server_at usage where
  no_command: "cli_main rb g show_sec load order environ server_at usage NoCommand (Exits 0 usage [])"
| doctor: "cmd_doctor environ server_at = (lines, code) \<Longrightarrow>
     cli_main rb g show_sec load order environ server_at usage Doctor (Exits code lines [])"
| run: "run_benchmark rb g show_sec load order a out st \<Longrightarrow>
     cli_main rb g show_sec load order environ server_at usage (Run a) out"

inductive_simps cli_main_simps:
  "cli_main rb g show_sec load order environ server_at usage NoCommand out"
  "cli_main rb g show_sec load order environ server_at usage Doctor out"
  "cli_main rb g show_sec load order environ server_at usage (Run a) out"

text \<open>
  The exit codes: 0 without a command, 0 or 1 from \<open>doctor\<close> and 1 exactly if a check failed, 0 or 2 from \<open>run\<close>, and 2 exactly if no
  candidate was given.
\<close>

lemma exit_codes:
  assumes "cli_main rb g show_sec load order environ server_at usage cmd (Exits code lines errs)"
  shows "case cmd of NoCommand \<Rightarrow> code = 0 | Doctor \<Rightarrow> code \<in> {0, 1} \<and> errs = []
    | Run a \<Rightarrow> code = (if parse_candidates (ra_candidates a) = [] then 2 else 0) \<and> (errs \<noteq> [] \<longleftrightarrow> code = 2)"
proof (cases cmd)
  case Doctor
  with assms show ?thesis by (auto simp: cli_main_simps cmd_doctor_def Let_def split: if_splits option.splits prod.splits)
next
  case (Run a)
  with assms obtain st where "run_benchmark rb g show_sec load order a (Exits code lines errs) st"
    by (auto simp: cli_main_simps)
  then show ?thesis
    by cases (auto simp: Run split: option.splits sum.splits)
qed (use assms in \<open>simp add: cli_main_simps\<close>)

text \<open>Every model of a stage has its line, and no model stands below one with a lower score.\<close>

lemma report_lists_all_models:
  "length (model_lines show_score show_cost sr) = length (sr_model_scores sr)"
  "sorted_wrt (\<lambda>a b. snd b \<le> snd a) (sort_key (\<lambda>kv. - snd kv) (sr_model_scores sr))"
proof -
  have "sorted (map (\<lambda>kv. - snd kv) (sort_key (\<lambda>kv. - snd kv) (sr_model_scores sr)))" by simp
  then show "sorted_wrt (\<lambda>a b. snd b \<le> snd a) (sort_key (\<lambda>kv. - snd kv) (sr_model_scores sr))"
    unfolding sorted_map by (rule sorted_wrt_mono_rel [rotated]) simp
qed (simp add: model_lines_def)

end
