(* ===== verification/Spec2Isabelle.thy ===== *)
theory Spec2Isabelle
  imports Stage_Graph Core_Hashing Halving_Schedule Alive_Filter Validator_Pairing Mad_Pruner
    Halving_Driver Session_Cache Budget_Gate Error_Classify Stage_Kwargs Stage_Winners
    Command_Line OpenRouter_Catalogue Job_App_Run Upsert_Statement
    File_Lifecycle File_Crash Pickling Log_Throttle Job_App_Report
begin

text \<open>
  Verification of \<open>llm_bench\<close>, a benchmark runner that eliminates language models over rounds. All file names
  below are relative to \<open>src/src/llm_bench\<close>, except for the example under \<open>src/examples\<close>.

  The program. A user lists candidate models, the stages of a task (a graph of prompts with parsers) and a schedule.
  In each round every candidate answers every stage for some task units; the rows are stored, ranked per
  stage and stage winners are chosen; then the lower part of the candidates is eliminated and the rest goes to the next round.
  A call with a known key is answered from a resume cache; a budget gate caps the spend per operation.

  The theories, from the bottom up.

  \<^item> \<open>Prelude\<close>, \<open>Python_Text\<close>, \<open>Python_Json\<close>, \<open>Python_Random\<close>, \<open>Base64\<close>: the Python the code relies on: results with
    exceptions as values, dictionaries in insertion order, stable sorting by keys (locale \<open>injective_key\<close>), floats with infinity where
    they occur as keys, texts and their conversions, untyped JSON, the generator behind \<open>random\<close> as a parameter with
    its documented range (\<open>rng_ok\<close>), base64.
  \<^item> \<open>Core_Types\<close>, \<open>Core_Scoring\<close>, \<open>Core_Hashing\<close>, \<open>Redaction\<close>: the dataclasses of \<open>core/types.py\<close> and \<open>stage/base.py\<close>
    as records, the usability predicate and the tie-break key, the preimage of the prompt hash, and the removal of credentials.
  \<^item> \<open>Stage_Graph\<close>, \<open>Halving_Schedule\<close>, \<open>Alive_Filter\<close>, \<open>Validator_Pairing\<close>, \<open>Mad_Pruner\<close>, \<open>Halving_Driver\<close>: the class
    \<open>StageGraph\<close> and the modules of \<open>halving/\<close>. The depth first visit terminates by the stages not yet on its stack, cyclic
    graphs included. \<open>promote\<close> is the whole elimination step: coverage gate, statistical prune, cut, force-promoted
    winners, dead candidates.
  \<^item> \<open>Storage_Contract\<close>, \<open>Memory_Storage\<close>, \<open>File_Storage\<close>, \<open>Postgres_Storage\<close>, \<open>Row_Codec\<close>: \<open>storage/\<close>. The contract is the
    locales \<open>resume_store\<close>, \<open>prefetch_store\<close>, \<open>winner_store\<close> and, for two backends side by side, \<open>two_stores\<close>; each backend interprets
    them on its own operations. \<open>Row_Codec\<close> has the way of a row into a line of a file or a record of the table and back,
    \<open>Upsert_Statement\<close> the text of the statement that writes the record and what its update does column by column.
  \<^item> \<open>File_Lifecycle\<close>, \<open>File_Crash\<close>: \<open>storage/file.py\<close> below the granularity of \<open>File_Storage\<close>: \<open>initialize\<close> and \<open>close\<close>
    under concurrent callers (\<open>lifecycle_step\<close>), the retries on a locked index, and what a crash leaves. There a file is its text and an
    operation the list of the disks it goes through, the last of which refines the abstract store (\<open>stands_for\<close>).
  \<^item> \<open>Pickling\<close>, \<open>Log_Throttle\<close>: the pickling hooks of the backends and the resume cache on the dictionary of their
    attributes, and the log lines of the round runner that are held back, with the state that decides it, place by place.
  \<^item> \<open>Ranker\<close>, \<open>Stage_Winners\<close>: \<open>ranking/\<close>, the summary per stage and the winner set of a round.
  \<^item> \<open>Resume_Cache\<close>, \<open>Budget_Gate\<close>, \<open>Error_Classify\<close>, \<open>Stage_Kwargs\<close>: the small modules of \<open>runner/\<close>.
  \<^item> \<open>Round_Pipeline\<close>, \<open>Round_Protocol\<close>: the coroutine \<open>_run_pipeline\<close> of \<open>runner/round_runner.py\<close> as a state machine. A
    pipeline is one candidate on one unit; its phase says at which \<open>await\<close> it stands, and \<open>pipe_step\<close> is the code up to the next one.
    \<open>round_step\<close> lets any pipeline that the semaphores admit take a step, so theorems about it hold for every interleaving.
  \<^item> \<open>Round_Invariants\<close>, \<open>Round_Budget\<close>, \<open>Round_Aggregation\<close>, \<open>Round_Runner\<close>, \<open>Round_Properties\<close>, \<open>Storage_Keeper\<close>,
    \<open>Round_Outcome\<close>: \<open>run_round\<close> as a whole, with the invariants of its pipelines (locale \<open>pipe_invariant\<close>), its use of the gate as a
    refinement of \<open>Budget_Gate\<close>, its termination measure, and what it leaves in storage (locales \<open>store_keeper\<close>, \<open>answering_store\<close>).
  \<^item> \<open>Benchmark_Phase\<close>, \<open>Benchmark_Properties\<close>, \<open>Round_Storage\<close>, \<open>Phase_Completion\<close>: \<open>runner/benchmark.py\<close>: preflight, the loop over the
    rounds and the life cycle, on each of the three backends (locale \<open>round_store\<close>).
  \<^item> \<open>Session_Cache\<close>: a benchmark object from its construction to the end of its process as a relation (\<open>session\<close>) of
    initialisations, phases and closings in any order, and what resume cache and storage know of each other all along
    (locales \<open>session_law\<close> and \<open>durable_store\<close>).
  \<^item> \<open>Cost_Estimate\<close>, \<open>OpenRouter_Catalogue\<close>: \<open>cost/\<close>, from a fetched row to the selection of the cheapest models.
  \<^item> \<open>Command_Line\<close>: \<open>cli/main.py\<close> from the parsed arguments on.
  \<^item> \<open>Job_App_Stages\<close>, \<open>Job_App_Run\<close>: the example benchmark \<open>src/examples/job_app_cover_letter\<close>, a client of everything above.
    \<open>Job_App_Report\<close> has what it prints, and the dispatch of the command line with its exit codes.

  State. The state of a round is \<open>round_world\<close>: the storage, the provider with its clock, the resume cache, the gate, the halving driver and
  the bookkeeping of attempts; a phase adds the flag of the benchmark. The provider (\<open>llm\<close>) is a record of functions on an
  arbitrary world, so every call may fail, take any time and answer anything. Exceptions are values of \<open>py_error\<close> or, where the
  code reads their name and text, of \<open>pyexn\<close>.

  What is shown. The elimination step partitions the candidates, keeps winners and drops dead and uncovered models
  (\<open>promote_survivors\<close>, \<open>promote_partitions\<close>); a round ends under every interleaving, keeps within its semaphores, never lets a
  model judge itself, stops a candidate at its third dead error and uses the budget gate as specified (\<open>round_ends\<close>, \<open>calls_in_flight_bounded\<close>,
  \<open>validator_is_another_candidate\<close>, \<open>pipeline_stops_at_third_dead_error\<close>, \<open>round_refines_budget_gate\<close>, which also says how many
  reservations crashes and failed writes can leave behind); from every state it can be completed (\<open>begun_round_completes\<close>); a phase only
  narrows its candidates, down to one after the last round, and returns while its storage answers (\<open>phase_narrows_candidates\<close>,
  \<open>phase_completes\<close>); the backends agree on what they cache, the resume cache never falls behind storage, and a restart forgets
  short replies only (\<open>backends_agree_on_cache\<close>, \<open>resume_cache_covers_postgres\<close>, \<open>resumed_run_sees_same_hits\<close>); rows survive
  being stored; a crash or a crowd of callers leaves files, winners and index consistent (\<open>crash_keeps_index_backed\<close>,
  \<open>winners_never_torn\<close>, \<open>one_connection_published\<close>); the selection by cost and the catalogue are what they are documented to be. Some theorems state
  where the code does less than its documentation: a small pool promotes nobody, a retried short answer is lost on Postgres, a closed
  benchmark stays closed, one that is not opened completely is never closed, a failed write leaks a reservation, a line torn by a crash
  takes the next row with it, the tag \<open>.\<close> deletes the whole store.

  Conventions. Costs, latencies and scores are exact reals: rounding is not modelled, and neither are infinities and
  NaN where the code does not produce them itself. Characters are code points below 256. Theorems about \<open>run_round\<close> and \<open>run_phase\<close> that claim a
  result come with one that the result exists; no definition uses fuel.

  Parameters, for code outside the repository: SHA-256, \<open>json.loads\<close> and \<open>json.dumps\<close>, \<open>str\<close> of values that are no texts, the ISO format of
  instants, the random generator, the provider and its factory, the clock, the fetch of the catalogue, the answers of the
  database server, and the order in which concurrent pings complete.

  Not modelled: the log lines that are not throttled, locks (every locked section is one step), argument parsing and the import of a
  factory, connection pragmas, the SQL text other than that of the upsert, the protocol classes of \<open>pool/base.py\<close> and \<open>provider/base.py\<close>, which have no bodies, the
  package roots, and the timing scripts under \<open>src/benchmarks\<close>.
\<close>

end
